(* ===== verification/Prelude.thy ===== *)
theory Prelude
  imports Main "HOL-Library.Word"
begin

text \<open>
  Shared vocabulary of the development: the byte type, the ESP-IDF error codes that the
  firmware returns, little-endian 32-bit serialisation (the ESP32-S3 and the desktop host
  are both little-endian, and the code serialises integers with plain \<open>memcpy\<close>), and
  the generic list facts that several components need.
\<close>

section \<open>Types\<close>

type_synonym byte = "8 word"
type_synonym u16 = "16 word"
type_synonym u32 = "32 word"
type_synonym bytes = "byte list"

text \<open>
  \<open>esp_err_t\<close> is a C \<open>int\<close>. The named constants are those that the sources use;
  \<open>ESP_ERR_OTHER\<close> stands for any other code that a library outside the repository returns.
\<close>

datatype esp_err =
    ESP_OK
  | ESP_FAIL
  | ESP_ERR_NO_MEM
  | ESP_ERR_INVALID_ARG
  | ESP_ERR_INVALID_STATE
  | ESP_ERR_INVALID_SIZE
  | ESP_ERR_NOT_FOUND
  | ESP_ERR_TIMEOUT
  | ESP_ERR_NVS_NO_FREE_PAGES
  | ESP_ERR_NVS_NEW_VERSION_FOUND
  | ESP_ERR_OTHER int

section \<open>Collections of rules\<close>

named_theorems len_simps \<open>lengths of the wire images\<close>
named_theorems frame_simps \<open>fields an operation leaves alone\<close>

section \<open>Little-endian 32-bit words\<close>

lemma bit_byte_beyond [simp]: "8 \<le> n \<Longrightarrow> \<not> bit (b :: byte) n"
  by (auto dest: bit_imp_le_length)

definition le32 :: "u32 \<Rightarrow> bytes" where
  "le32 w = [ucast w, ucast (drop_bit 8 w), ucast (drop_bit 16 w), ucast (drop_bit 24 w)]"

definition from_le32 :: "bytes \<Rightarrow> u32" where
  "from_le32 bs =
     or (or (ucast (bs ! 0)) (push_bit 8 (ucast (bs ! 1))))
        (or (push_bit 16 (ucast (bs ! 2))) (push_bit 24 (ucast (bs ! 3))))"

lemma length_le32 [simp, len_simps]: "length (le32 w) = 4"
  by (simp add: le32_def)

lemma from_le32_le32 [simp]: "from_le32 (le32 w) = w"
proof (rule bit_word_eqI)
  fix n assume "n < LENGTH(32)"
  then consider "n < 8" | "8 \<le> n" "n < 16" | "16 \<le> n" "n < 24" | "24 \<le> n" "n < 32"
    by force
  then show "bit (from_le32 (le32 w)) n = bit w n"
    by cases (auto simp: from_le32_def le32_def bit_simps dest: bit_imp_le_length)
qed

lemma length4E:
  assumes "length bs = 4"
  obtains a b c d where "bs = [a, b, c, d]"
  using assms by (auto simp: numeral_eq_Suc length_Suc_conv)

lemma le32_from_le32:
  assumes "length bs = 4"
  shows "le32 (from_le32 bs) = bs"
proof -
  obtain a b c d where "bs = [a, b, c, d]" using assms by (rule length4E)
  then show ?thesis
    unfolding le32_def from_le32_def
    by (auto intro!: bit_word_eqI simp: bit_simps)
qed

section \<open>Lists\<close>

lemma take_append_exact [simp]: "length xs = n \<Longrightarrow> take n (xs @ ys) = xs"
  by simp

lemma drop_append_exact [simp]: "length xs = n \<Longrightarrow> drop n (xs @ ys) = ys"
  by simp

lemma take_drop_split: "n + m \<le> length xs \<Longrightarrow> take (n + m) xs = take n xs @ take m (drop n xs)"
  by (simp add: take_add)

lemma nth_split: "n < length xs \<Longrightarrow> take 1 (drop n xs) = [xs ! n]"
  by (simp add: Cons_nth_drop_Suc [symmetric])

lemma unat_byte_bound [simp]: "unat (b :: byte) < 256"
  using unsigned_less [of b] by simp

lemma unat_byte_le [simp]: "unat (b :: byte) \<le> 255"
  using unat_byte_bound [of b] by linarith

text \<open>
  A write to a slot of a C array. Outside the array C promises nothing; the model loses the array,
  so that no claim about its size or its contents survives such a write.
\<close>

definition c_store :: "'a list \<Rightarrow> nat \<Rightarrow> 'a \<Rightarrow> 'a list" where
  "c_store xs i v = (if i < length xs then xs[i := v] else [])"

lemma c_store_inside [simp]: "i < length xs \<Longrightarrow> c_store xs i v = xs[i := v]"
  by (simp add: c_store_def)

lemma unat_of_nat_byte: "n < 256 \<Longrightarrow> unat (of_nat n :: byte) = n"
  by (simp add: unat_of_nat take_bit_eq_mod)

end
