(* ===== verification/CFormat.thy ===== *)
theory CFormat
  imports Prelude
begin

text \<open>
  The conversions of C's \<open>snprintf\<close> that the sources use (\<open>%u\<close>, \<open>%02x\<close>, \<open>%s\<close>), and the
  truncation to the size of the destination buffer. A C string is the list of its characters
  without the terminating NUL.
\<close>

definition digit_char :: "nat \<Rightarrow> char" where
  "digit_char d = char_of (48 + d)"

fun dec :: "nat \<Rightarrow> string" where
  "dec n = (if n < 10 then [digit_char n] else dec (n div 10) @ [digit_char (n mod 10)])"

declare dec.simps [simp del]

definition hex_char :: "nat \<Rightarrow> char" where
  "hex_char d = (if d < 10 then char_of (48 + d) else char_of (87 + d))"

text \<open>\<open>%02x\<close> of a byte.\<close>

definition hex2 :: "byte \<Rightarrow> string" where
  "hex2 b = [hex_char (unat b div 16), hex_char (unat b mod 16)]"

text \<open>\<open>snprintf(out, cap, ...)\<close> keeps the first \<open>cap - 1\<close> characters.\<close>

definition snprintf :: "nat \<Rightarrow> string \<Rightarrow> string" where
  "snprintf cap s = take (cap - 1) s"

lemma snprintf_fits [simp]: "length s < cap \<Longrightarrow> snprintf cap s = s"
  by (simp add: snprintf_def)

subsection \<open>Decimal printing is injective and short\<close>

definition undec :: "string \<Rightarrow> nat" where
  "undec s = foldl (\<lambda>a c. a * 10 + (of_char c - 48)) 0 s"

lemma of_digit_char: "d < 10 \<Longrightarrow> (of_char (digit_char d) :: nat) = 48 + d"
  by (simp add: digit_char_def of_char_of)

lemma undec_dec [simp]: "undec (dec n) = n"
proof (induction n rule: dec.induct)
  case (1 n)
  show ?case
    by (cases "n < 10") (use 1 in \<open>simp_all add: dec.simps [of n] undec_def of_digit_char\<close>)
qed

lemma dec_inj [simp]: "dec m = dec n \<longleftrightarrow> m = n"
  by (metis undec_dec)

lemma length_dec: "n < 10 ^ Suc k \<Longrightarrow> length (dec n) \<le> Suc k"
proof (induction k arbitrary: n)
  case 0
  then show ?case by (simp add: dec.simps [of n])
next
  case (Suc k)
  then have "n div 10 < 10 ^ Suc k" by (simp add: div_less_iff_less_mult)
  with Suc.IH have "length (dec (n div 10)) \<le> Suc k" by blast
  then show ?case by (simp add: dec.simps [of n])
qed

lemma length_dec_u32 [simp]: "length (dec (unat (w :: u32))) \<le> 10"
proof -
  have "unat w < 10 ^ Suc 9" using unsigned_less [of w, where 'a = nat] by simp
  then show ?thesis using length_dec [of "unat w" 9] by simp
qed

lemma dec_no_slash: "c \<in> set (dec n) \<Longrightarrow> c \<noteq> CHR ''/''"
proof (induction n rule: dec.induct)
  case (1 n)
  have nd: "digit_char d \<noteq> CHR ''/''" if "d < 10" for d
  proof
    assume "digit_char d = CHR ''/''"
    then have "(of_char (digit_char d) :: nat) = of_char CHR ''/''" by simp
    then show False using that by (simp add: of_digit_char)
  qed
  show ?case
  proof (cases "n < 10")
    case True
    with 1 nd [OF True] show ?thesis by (auto simp: dec.simps [of n])
  next
    case False
    with 1 nd [of "n mod 10"] show ?thesis by (auto simp: dec.simps [of n])
  qed
qed

subsection \<open>Hexadecimal printing is injective\<close>

lemma hex_char_inj: "a < 16 \<Longrightarrow> b < 16 \<Longrightarrow> hex_char a = hex_char b \<longleftrightarrow> a = b"
proof
  assume ab: "a < 16" "b < 16" and "hex_char a = hex_char b"
  then have "(of_char (hex_char a) :: nat) = of_char (hex_char b)" by simp
  with ab show "a = b" by (auto simp: hex_char_def of_char_of split: if_splits)
qed simp

lemma hex2_inj [simp]: "hex2 a = hex2 b \<longleftrightarrow> a = b"
proof
  assume "hex2 a = hex2 b"
  then have "unat a div 16 = unat b div 16" "unat a mod 16 = unat b mod 16"
    using unat_byte_bound [of a] unat_byte_bound [of b] by (simp_all add: hex2_def hex_char_inj)
  then have "unat a = unat b" by (metis div_mult_mod_eq)
  then show "a = b" by (rule word_unat_eq_iff [THEN iffD2])
qed simp

lemma hex2_no_slash [simp]: "CHR ''/'' \<notin> set (hex2 b)"
proof -
  have "hex_char d \<noteq> CHR ''/''" if "d < 16" for d
  proof
    assume "hex_char d = CHR ''/''"
    then have "(of_char (hex_char d) :: nat) = of_char CHR ''/''" by simp
    then show False using that by (simp add: hex_char_def of_char_of split: if_splits)
  qed
  note h = this
  have "unat b div 16 < 16" "unat b mod 16 < 16" using unat_byte_bound [of b] by (simp_all add: less_mult_imp_div_less)
  with h [of "unat b div 16"] h [of "unat b mod 16"] show ?thesis by (simp add: hex2_def eq_commute [of "CHR ''/''"])
qed

lemma length_hex2 [simp]: "length (hex2 b) = 2"
  by (simp add: hex2_def)

end
