(* ===== verification/BlobStore.thy ===== *)
theory BlobStore
  imports Prelude
begin

text \<open>
  The contract of the key-value store that the crypto layer relies on, and of a record store on
  top of it: each of the four stores that \<open>store.c\<close> registers with libsignal keeps its records
  in the same key-value store, under keys computed from its own kind of identifier.
\<close>

locale blob_store =
  fixes put :: "string \<Rightarrow> bytes \<Rightarrow> 's \<Rightarrow> esp_err \<times> 's"
    and get :: "string \<Rightarrow> 's \<Rightarrow> esp_err + bytes"
    and erase :: "string \<Rightarrow> 's \<Rightarrow> esp_err \<times> 's"
    and valid_key :: "string \<Rightarrow> bool"
    and ok :: "'s \<Rightarrow> bool"
    and max_len :: nat
  assumes put_ok: "ok s \<Longrightarrow> valid_key k \<Longrightarrow> length v \<le> max_len \<Longrightarrow> fst (put k v s) = ESP_OK"
    and put_keeps: "ok s \<Longrightarrow> valid_key k \<Longrightarrow> length v \<le> max_len \<Longrightarrow> ok (snd (put k v s))"
    and get_put: "ok s \<Longrightarrow> valid_key k \<Longrightarrow> length v \<le> max_len \<Longrightarrow> valid_key k' \<Longrightarrow>
      get k' (snd (put k v s)) = (if k' = k then Inr v else get k' s)"
    and erase_result: "ok s \<Longrightarrow> valid_key k \<Longrightarrow>
      fst (erase k s) = (case get k s of Inl _ \<Rightarrow> ESP_ERR_NOT_FOUND | Inr _ \<Rightarrow> ESP_OK)"
    and erase_keeps: "ok s \<Longrightarrow> valid_key k \<Longrightarrow> ok (snd (erase k s))"
    and get_erase: "ok s \<Longrightarrow> valid_key k \<Longrightarrow> valid_key k' \<Longrightarrow>
      get k' (snd (erase k s)) = (if k' = k then Inl ESP_ERR_NOT_FOUND else get k' s)"

text \<open>A store of records under identifiers of type \<open>'i\<close>. A record that is not \<open>usable\<close> is there
  but not loaded; identifiers with the same key share their record.\<close>

locale record_store = blob_store put get erase valid_key ok max_len
  for put :: "string \<Rightarrow> bytes \<Rightarrow> 's \<Rightarrow> esp_err \<times> 's"
    and get :: "string \<Rightarrow> 's \<Rightarrow> esp_err + bytes"
    and erase :: "string \<Rightarrow> 's \<Rightarrow> esp_err \<times> 's"
    and valid_key :: "string \<Rightarrow> bool"
    and ok :: "'s \<Rightarrow> bool"
    and max_len :: nat +
  fixes keyf :: "'i \<Rightarrow> string"
    and good :: "'i \<Rightarrow> bool"
    and usable :: "bytes \<Rightarrow> bool"
    and load :: "'i \<Rightarrow> 's \<Rightarrow> bytes option"
    and store :: "'i \<Rightarrow> bytes \<Rightarrow> 's \<Rightarrow> bool \<times> 's"
    and contains :: "'i \<Rightarrow> 's \<Rightarrow> bool"
    and remove :: "'i \<Rightarrow> 's \<Rightarrow> bool \<times> 's"
  assumes valid_keyf: "good i \<Longrightarrow> valid_key (keyf i)"
    and load_get: "ok s \<Longrightarrow> good i \<Longrightarrow> load i s = (case get (keyf i) s of Inl _ \<Rightarrow> None | Inr v \<Rightarrow> if usable v then Some v else None)"
    and store_put: "store i v s = (fst (put (keyf i) v s) = ESP_OK, snd (put (keyf i) v s))"
    and contains_get: "ok s \<Longrightarrow> good i \<Longrightarrow> contains i s = (case get (keyf i) s of Inl _ \<Rightarrow> False | Inr v \<Rightarrow> True)"
    and remove_erase: "remove i s = (fst (erase (keyf i) s) = ESP_OK, snd (erase (keyf i) s))"
begin

lemma load_after_store:
  assumes "ok s" "good i" "length v \<le> max_len" "good j"
  shows "fst (store i v s)" "ok (snd (store i v s))"
    "load j (snd (store i v s)) = (if keyf j = keyf i then (if usable v then Some v else None) else load j s)"
    "contains j (snd (store i v s)) = (keyf j = keyf i \<or> contains j s)"
  using assms put_keeps [OF assms(1) valid_keyf [OF assms(2)] assms(3)]
    get_put [OF assms(1) valid_keyf [OF assms(2)] assms(3) valid_keyf [OF assms(4)]]
  by (simp_all add: store_put put_ok valid_keyf load_get contains_get)

lemma load_after_remove:
  assumes "ok s" "good i" "good j"
  shows "fst (remove i s) = contains i s" "ok (snd (remove i s))"
    "load j (snd (remove i s)) = (if keyf j = keyf i then None else load j s)"
    "contains j (snd (remove i s)) = (keyf j \<noteq> keyf i \<and> contains j s)"
  using assms erase_keeps [OF assms(1) valid_keyf [OF assms(2)]]
    get_erase [OF assms(1) valid_keyf [OF assms(2)] valid_keyf [OF assms(3)]]
  by (simp_all add: remove_erase erase_result valid_keyf load_get contains_get split: sum.splits)

lemma load_contains: "ok s \<Longrightarrow> good i \<Longrightarrow> load i s \<noteq> None \<Longrightarrow> contains i s"
  by (simp add: contains_get load_get split: sum.splits)

lemma contains_load: "ok s \<Longrightarrow> good i \<Longrightarrow> (\<And>v. usable v) \<Longrightarrow> contains i s \<longleftrightarrow> load i s \<noteq> None"
  by (simp add: contains_get load_get split: sum.splits)

end

end
