(* ===== verification/HostShim.thy ===== *)
theory HostShim
  imports CFormat BlobStore
begin

text \<open>
  The key-value store behind the crypto layer as the repository implements it:
  \<open>client/desktop/csrc/host_shim/shim.c\<close>, one file per key. (On the ESP32 the same interface,
  \<open>nvs.h\<close>, is ESP-IDF's NVS, which is not in the repository.) Under it is the file system of the
  host, without links: directories and regular files, named by the list of names from the root.
  Where libc may refuse an operation, the refusal is a field of the record. What libc does to a
  path that names a directory is not modelled further than that opening it as a file fails.
\<close>

section \<open>The file system\<close>

record host_fs =
  data_dir :: string
  cwd :: "string list"
  dirs :: "string list list"
  files :: "string list \<Rightarrow> bytes option"
  can_mkdir :: "string list \<Rightarrow> bool"
  can_read :: "string list \<Rightarrow> bool"
  can_seek :: "string list \<Rightarrow> bool"
  can_write :: "string list \<Rightarrow> bool"
  can_remove :: "string list \<Rightarrow> bool"
  read_limit :: "string list \<Rightarrow> nat"
  write_limit :: "string list \<Rightarrow> nat"

text \<open>The default data directory, already made, under a working directory \<open>/home\<close>.\<close>

definition host_fs_empty :: host_fs where
  "host_fs_empty = \<lparr>data_dir = ''./pcrypto_data'', cwd = [''home''],
     dirs = [[''home'', ''pcrypto_data'', ''ns1''], [''home'', ''pcrypto_data''], [''home''], []], files = (\<lambda>_. None),
     can_mkdir = (\<lambda>_. True), can_read = (\<lambda>_. True), can_seek = (\<lambda>_. True), can_write = (\<lambda>_. True),
     can_remove = (\<lambda>_. True), read_limit = (\<lambda>_. 1000000), write_limit = (\<lambda>_. 1000000)\<rparr>"

text \<open>A path is cut at the slashes and followed from the root or the working directory: every name but
  the last must lead to a directory.\<close>

fun split_path :: "string \<Rightarrow> string list" where
  "split_path [] = [[]]"
| "split_path (c # cs) =
     (if c = CHR ''/'' then [] # split_path cs
      else (c # hd (split_path cs)) # tl (split_path cs))"

definition step_path :: "string list \<Rightarrow> string \<Rightarrow> string list" where
  "step_path d n = (if n = '''' \<or> n = ''.'' then d else if n = ''..'' then butlast d else d @ [n])"

fun walk :: "string list list \<Rightarrow> string list \<Rightarrow> string list \<Rightarrow> string list option" where
  "walk ds d [] = Some d"
| "walk ds d (n # ns) = (if d \<in> set ds then walk ds (step_path d n) ns else None)"

definition path_start :: "host_fs \<Rightarrow> string \<Rightarrow> string list" where
  "path_start fs path = (if path \<noteq> [] \<and> hd path = CHR ''/'' then [] else cwd fs)"

definition resolve :: "host_fs \<Rightarrow> string \<Rightarrow> string list option" where
  "resolve fs path = walk (dirs fs) (path_start fs path) (split_path path)"

text \<open>\<open>fopen\<close> for reading: the file and its contents; for writing: the file, which it makes or empties.\<close>

definition fopen_rb :: "string \<Rightarrow> host_fs \<Rightarrow> (string list \<times> bytes) option" where
  "fopen_rb path fs =
     (case resolve fs path of
        None \<Rightarrow> None
      | Some f \<Rightarrow> if can_read fs f then map_option (Pair f) (files fs f) else None)"

definition fopen_wb :: "string \<Rightarrow> host_fs \<Rightarrow> string list option" where
  "fopen_wb path fs =
     (case resolve fs path of
        None \<Rightarrow> None
      | Some f \<Rightarrow> if f \<in> set (dirs fs) \<or> \<not> can_write fs f then None else Some f)"

definition remove_file :: "string \<Rightarrow> host_fs \<Rightarrow> host_fs option" where
  "remove_file path fs =
     (case resolve fs path of
        None \<Rightarrow> None
      | Some f \<Rightarrow> if files fs f \<noteq> None \<and> can_remove fs f then Some (fs\<lparr>files := (files fs)(f := None)\<rparr>) else None)"

definition mkdir :: "string \<Rightarrow> host_fs \<Rightarrow> host_fs" where
  "mkdir path fs =
     (case resolve fs path of
        None \<Rightarrow> fs
      | Some d \<Rightarrow> if d \<in> set (dirs fs) \<or> files fs d \<noteq> None \<or> \<not> can_mkdir fs d then fs else fs\<lparr>dirs := d # dirs fs\<rparr>)"

section \<open>Operations\<close>

definition host_shim_set_data_dir :: "string \<Rightarrow> host_fs \<Rightarrow> host_fs" where
  "host_shim_set_data_dir dir fs = fs\<lparr>data_dir := snprintf 512 dir\<rparr>"

definition ensure_dir :: "string \<Rightarrow> host_fs \<Rightarrow> host_fs" where
  "ensure_dir path fs = mkdir path fs"

definition key_path :: "nat \<Rightarrow> string \<Rightarrow> nat \<Rightarrow> host_fs \<Rightarrow> string" where
  "key_path handle key out_cap fs =
     snprintf out_cap (data_dir fs @ ''/ns'' @ dec handle @ ''/'' @ key)"

text \<open>The handle that \<open>nvs_open\<close> returns, whatever the namespace.\<close>

definition NVS_HANDLE :: nat where "NVS_HANDLE = 1"

definition nvs_open :: "host_fs \<Rightarrow> nat \<times> host_fs" where
  "nvs_open fs =
     (let fs = ensure_dir (data_dir fs) fs;
          ns_dir = snprintf 600 (data_dir fs @ ''/ns1'')
      in (NVS_HANDLE, ensure_dir ns_dir fs))"

text \<open>\<open>nvs_get_blob\<close> with a NULL buffer: the length of the blob.\<close>

definition nvs_get_blob_len :: "nat \<Rightarrow> string \<Rightarrow> host_fs \<Rightarrow> esp_err + nat" where
  "nvs_get_blob_len handle key fs =
     (case fopen_rb (key_path handle key 700 fs) fs of
        None \<Rightarrow> Inl ESP_ERR_NOT_FOUND
      | Some (f, d) \<Rightarrow> if \<not> can_seek fs f then Inl ESP_FAIL else Inr (length d))"

text \<open>\<open>nvs_get_blob\<close> with a buffer of \<open>cap\<close> bytes: the bytes read.\<close>

definition nvs_get_blob :: "nat \<Rightarrow> string \<Rightarrow> nat \<Rightarrow> host_fs \<Rightarrow> esp_err + bytes" where
  "nvs_get_blob handle key cap fs =
     (case fopen_rb (key_path handle key 700 fs) fs of
        None \<Rightarrow> Inl ESP_ERR_NOT_FOUND
      | Some (f, d) \<Rightarrow> if \<not> can_seek fs f then Inl ESP_FAIL
                      else if length d > cap then Inl ESP_ERR_INVALID_SIZE
                      else if read_limit fs f < length d then Inl ESP_FAIL
                      else Inr d)"

text \<open>Opening for writing truncates the file, so a short write leaves a shortened value.\<close>

definition nvs_set_blob :: "nat \<Rightarrow> string \<Rightarrow> bytes \<Rightarrow> host_fs \<Rightarrow> esp_err \<times> host_fs" where
  "nvs_set_blob handle key value fs =
     (case fopen_wb (key_path handle key 700 fs) fs of
        None \<Rightarrow> (ESP_FAIL, fs)
      | Some f \<Rightarrow>
          let written = take (write_limit fs f) value
          in (if length written = length value then ESP_OK else ESP_FAIL, fs\<lparr>files := (files fs)(f \<mapsto> written)\<rparr>))"

definition nvs_erase_key :: "nat \<Rightarrow> string \<Rightarrow> host_fs \<Rightarrow> esp_err \<times> host_fs" where
  "nvs_erase_key handle key fs =
     (case remove_file (key_path handle key 700 fs) fs of None \<Rightarrow> (ESP_ERR_NOT_FOUND, fs) | Some fs' \<Rightarrow> (ESP_OK, fs'))"

definition nvs_commit :: "nat \<Rightarrow> host_fs \<Rightarrow> esp_err \<times> host_fs" where
  "nvs_commit handle fs = (ESP_OK, fs)"

text \<open>A blob shorter than four bytes overwrites only the first bytes of \<open>*out_value\<close>.\<close>

definition nvs_get_u32 :: "nat \<Rightarrow> string \<Rightarrow> u32 \<Rightarrow> host_fs \<Rightarrow> esp_err \<times> u32" where
  "nvs_get_u32 handle key old fs =
     (case nvs_get_blob handle key 4 fs of
        Inl e \<Rightarrow> (e, old)
      | Inr bs \<Rightarrow> (ESP_OK, from_le32 (bs @ drop (length bs) (le32 old))))"

definition nvs_set_u32 :: "nat \<Rightarrow> string \<Rightarrow> u32 \<Rightarrow> host_fs \<Rightarrow> esp_err \<times> host_fs" where
  "nvs_set_u32 handle key value fs = nvs_set_blob handle key (le32 value) fs"

section \<open>Paths\<close>

lemma split_path_slash [simp]: "split_path (a @ CHR ''/'' # b) = split_path a @ split_path b"
proof (induction a)
  case (Cons c cs)
  have "split_path cs \<noteq> []" by (cases cs) simp_all
  with Cons show ?case by simp
qed simp

lemma split_path_name: "CHR ''/'' \<notin> set k \<Longrightarrow> split_path k = [k]"
  by (induction k) auto

lemma split_path_not_Nil [simp]: "split_path a \<noteq> []"
  by (cases a) simp_all

lemma walk_snoc: "walk ds d (ns @ [n]) =
    (case walk ds d ns of None \<Rightarrow> None | Some d' \<Rightarrow> if d' \<in> set ds then Some (step_path d' n) else None)"
  by (induction ns arbitrary: d) simp_all

lemma walk_mono: "walk ds d ns = Some d' \<Longrightarrow> set ds \<subseteq> set ds' \<Longrightarrow> walk ds' d ns = Some d'"
  by (induction ns arbitrary: d) (auto split: if_splits)

text \<open>A file in a directory that a path leads to.\<close>

lemma resolve_in:
  assumes "CHR ''/'' \<notin> set k" "a \<noteq> []"
  shows "resolve fs (a @ CHR ''/'' # k) =
    (case resolve fs a of None \<Rightarrow> None | Some d \<Rightarrow> if d \<in> set (dirs fs) then Some (step_path d k) else None)"
  using assms by (simp add: resolve_def path_start_def split_path_name walk_snoc)

lemma resolve_files [simp]: "resolve (fs\<lparr>files := f\<rparr>) path = resolve fs path"
  by (simp add: resolve_def path_start_def)

text \<open>The keys of NVS, as files: names of at most 15 characters that are not special in a path.\<close>

definition nvs_key_ok :: "string \<Rightarrow> bool" where
  "nvs_key_ok k \<longleftrightarrow> length k \<le> 15 \<and> CHR ''/'' \<notin> set k \<and> k \<noteq> '''' \<and> k \<noteq> ''.'' \<and> k \<noteq> ''..''"

lemma step_path_key [simp]: "nvs_key_ok k \<Longrightarrow> step_path d k = d @ [k]"
  by (simp add: nvs_key_ok_def step_path_def)

text \<open>The directory of the keys, and the file of a key.\<close>

definition ns_dir :: "host_fs \<Rightarrow> string list option" where
  "ns_dir fs = (case resolve fs (data_dir fs @ ''/ns1'') of None \<Rightarrow> None | Some d \<Rightarrow> if d \<in> set (dirs fs) then Some d else None)"

definition key_file :: "string \<Rightarrow> host_fs \<Rightarrow> string list option" where
  "key_file k fs = resolve fs (key_path NVS_HANDLE k 700 fs)"

lemma key_path_fits:
  assumes "length (data_dir fs) < 512" "length k \<le> 15"
  shows "key_path NVS_HANDLE k 700 fs = (data_dir fs @ ''/ns1'') @ ''/'' @ k"
proof -
  have "dec NVS_HANDLE = ''1''" by code_simp
  with assms show ?thesis by (simp add: key_path_def)
qed

lemma key_file_eq:
  assumes "length (data_dir fs) < 512" "nvs_key_ok k"
  shows "key_file k fs = map_option (\<lambda>d. d @ [k]) (ns_dir fs)"
proof -
  have "length k \<le> 15" using assms(2) by (simp add: nvs_key_ok_def)
  from key_path_fits [OF assms(1) this] show ?thesis
    using assms(2) unfolding key_file_def ns_dir_def
    by (simp add: resolve_in nvs_key_ok_def step_path_def del: append_assoc split: option.split)
qed

lemma key_path_files [simp]: "key_path h k n (fs\<lparr>files := f\<rparr>) = key_path h k n fs"
  and ns_dir_files [simp]: "ns_dir (fs\<lparr>files := f\<rparr>) = ns_dir fs"
  and key_file_files [simp]: "key_file k (fs\<lparr>files := f\<rparr>) = key_file k fs"
  by (simp_all add: key_path_def ns_dir_def key_file_def cong: option.case_cong)

text \<open>The operations on a key only depend on its file.\<close>

definition blob_at :: "string \<Rightarrow> host_fs \<Rightarrow> bytes option" where
  "blob_at k fs = Option.bind (key_file k fs) (files fs)"

lemma nvs_ops_file:
  "nvs_get_blob_len NVS_HANDLE k fs = (case key_file k fs of None \<Rightarrow> Inl ESP_ERR_NOT_FOUND
     | Some f \<Rightarrow> if \<not> can_read fs f \<or> files fs f = None then Inl ESP_ERR_NOT_FOUND
                else if \<not> can_seek fs f then Inl ESP_FAIL else Inr (length (the (files fs f))))"
  "nvs_get_blob NVS_HANDLE k n fs = (case key_file k fs of None \<Rightarrow> Inl ESP_ERR_NOT_FOUND
     | Some f \<Rightarrow> if \<not> can_read fs f \<or> files fs f = None then Inl ESP_ERR_NOT_FOUND
                else if \<not> can_seek fs f then Inl ESP_FAIL
                else if length (the (files fs f)) > n then Inl ESP_ERR_INVALID_SIZE
                else if read_limit fs f < length (the (files fs f)) then Inl ESP_FAIL else Inr (the (files fs f)))"
  "snd (nvs_set_blob NVS_HANDLE k v fs) = (case key_file k fs of None \<Rightarrow> fs
     | Some f \<Rightarrow> if f \<in> set (dirs fs) \<or> \<not> can_write fs f then fs
                else fs\<lparr>files := (files fs)(f \<mapsto> take (write_limit fs f) v)\<rparr>)"
  "snd (nvs_erase_key NVS_HANDLE k fs) = (case key_file k fs of None \<Rightarrow> fs
     | Some f \<Rightarrow> if files fs f \<noteq> None \<and> can_remove fs f then fs\<lparr>files := (files fs)(f := None)\<rparr> else fs)"
  by (auto simp: nvs_get_blob_len_def nvs_get_blob_def nvs_set_blob_def nvs_erase_key_def fopen_rb_def fopen_wb_def
    remove_file_def key_file_def Let_def split: option.split)

section \<open>A healthy file system\<close>

text \<open>The directory of the store is there (\<open>nvs_open\<close> makes it), nothing is refused, blobs up to
  \<open>NVS_MAX_LEN\<close> bytes fit, and what is there can be read back.\<close>

definition NVS_MAX_LEN :: nat where "NVS_MAX_LEN = 4000"

definition fs_healthy :: "host_fs \<Rightarrow> bool" where
  "fs_healthy fs \<longleftrightarrow> length (data_dir fs) < 512 \<and> (\<exists>d. ns_dir fs = Some d \<and> (\<forall>k. d @ [k] \<notin> set (dirs fs))) \<and>
     (\<forall>p. can_read fs p \<and> can_seek fs p \<and> can_write fs p \<and> can_remove fs p \<and>
       NVS_MAX_LEN \<le> read_limit fs p \<and> NVS_MAX_LEN \<le> write_limit fs p \<and>
       (case files fs p of None \<Rightarrow> True | Some d \<Rightarrow> length d \<le> NVS_MAX_LEN))"

text \<open>How every caller reads a blob: first the length, then the bytes.\<close>

definition nvs_read :: "string \<Rightarrow> host_fs \<Rightarrow> esp_err + bytes" where
  "nvs_read key fs = (case nvs_get_blob_len NVS_HANDLE key fs of Inl e \<Rightarrow> Inl e | Inr n \<Rightarrow> nvs_get_blob NVS_HANDLE key n fs)"

lemma length_data_dir [simp]: "length (data_dir (host_shim_set_data_dir dir fs)) \<le> 511"
  by (simp add: host_shim_set_data_dir_def snprintf_def)

lemma fs_healthyD:
  assumes "fs_healthy fs"
  shows "can_read fs p" "can_seek fs p" "can_write fs p" "can_remove fs p"
    "NVS_MAX_LEN \<le> read_limit fs p" "NVS_MAX_LEN \<le> write_limit fs p"
    "files fs p = Some d \<Longrightarrow> length d \<le> NVS_MAX_LEN" "length (data_dir fs) < 512"
  using assms by (auto simp: fs_healthy_def split: option.splits)

lemma key_file_healthy:
  assumes "fs_healthy fs" "nvs_key_ok k"
  shows "key_file k fs = Some (the (ns_dir fs) @ [k])" "the (ns_dir fs) @ [k] \<notin> set (dirs fs)"
  using assms key_file_eq [of fs k] by (auto simp: fs_healthy_def)

lemma fs_healthy_update:
  assumes "fs_healthy fs" "\<And>d. v = Some d \<Longrightarrow> length d \<le> NVS_MAX_LEN"
  shows "fs_healthy (fs\<lparr>files := (files fs)(p := v)\<rparr>)"
  using assms by (auto simp: fs_healthy_def split: option.splits)

lemma blob_at_len: "fs_healthy fs \<Longrightarrow> blob_at k fs = Some d \<Longrightarrow> length d \<le> NVS_MAX_LEN"
  using fs_healthyD(7) by (auto simp: blob_at_def bind_eq_Some_conv)

lemma nvs_get_blob_healthy:
  assumes "fs_healthy fs"
  shows "nvs_get_blob NVS_HANDLE k n fs = (case blob_at k fs of None \<Rightarrow> Inl ESP_ERR_NOT_FOUND
    | Some d \<Rightarrow> if length d > n then Inl ESP_ERR_INVALID_SIZE else Inr d)"
    and "nvs_get_blob_len NVS_HANDLE k fs = (case blob_at k fs of None \<Rightarrow> Inl ESP_ERR_NOT_FOUND | Some d \<Rightarrow> Inr (length d))"
  using fs_healthyD(1-6) [OF assms] fs_healthyD(7) [OF assms]
  by (auto simp: nvs_ops_file blob_at_def not_less order.trans split: option.split)
     (meson leD order.trans)

lemma nvs_read_healthy:
  assumes "fs_healthy fs"
  shows "nvs_read k fs = (case blob_at k fs of None \<Rightarrow> Inl ESP_ERR_NOT_FOUND | Some d \<Rightarrow> Inr d)"
  by (simp add: nvs_read_def nvs_get_blob_healthy [OF assms] split: option.split)

lemma nvs_len_healthy:
  assumes "fs_healthy fs"
  shows "nvs_get_blob_len NVS_HANDLE k fs = (case nvs_read k fs of Inl e \<Rightarrow> Inl e | Inr d \<Rightarrow> Inr (length d))"
  by (simp add: nvs_read_healthy [OF assms] nvs_get_blob_healthy [OF assms] split: option.splits)

lemma nvs_get_healthy:
  assumes "fs_healthy fs" "nvs_read k fs = Inr d" "length d \<le> n"
  shows "nvs_get_blob NVS_HANDLE k n fs = Inr d"
  using assms by (auto simp: nvs_read_healthy nvs_get_blob_healthy split: option.splits)

lemma nvs_set_healthy:
  assumes "fs_healthy fs" "nvs_key_ok k" "length v \<le> NVS_MAX_LEN"
  shows "nvs_set_blob NVS_HANDLE k v fs = (ESP_OK, fs\<lparr>files := (files fs)(the (ns_dir fs) @ [k] \<mapsto> v)\<rparr>)"
proof -
  let ?f = "the (ns_dir fs) @ [k]"
  have "length v \<le> write_limit fs ?f" using fs_healthyD(6) [OF assms(1), of ?f] assms(3) by simp
  with key_file_healthy [OF assms(1,2)] fs_healthyD(3) [OF assms(1), of ?f] show ?thesis
    by (simp add: nvs_set_blob_def fopen_wb_def Let_def flip: key_file_def)
qed

lemma nvs_erase_healthy:
  assumes "fs_healthy fs" "nvs_key_ok k"
  shows "nvs_erase_key NVS_HANDLE k fs =
    (if blob_at k fs = None then (ESP_ERR_NOT_FOUND, fs)
     else (ESP_OK, fs\<lparr>files := (files fs)(the (ns_dir fs) @ [k] := None)\<rparr>))"
  using key_file_healthy [OF assms] fs_healthyD(4) [OF assms(1)]
  by (simp add: nvs_erase_key_def remove_file_def blob_at_def flip: key_file_def)

lemma blob_at_update:
  assumes "fs_healthy fs" "nvs_key_ok k" "nvs_key_ok k'"
  shows "blob_at k' (fs\<lparr>files := (files fs)(the (ns_dir fs) @ [k] := v)\<rparr>) = (if k' = k then v else blob_at k' fs)"
  using key_file_healthy [OF assms(1,3)] by (simp add: blob_at_def)

text \<open>Opening the store again does nothing; opening it the first time makes its directory.\<close>

lemma ensure_dir_there: "resolve fs p = Some d \<Longrightarrow> d \<in> set (dirs fs) \<Longrightarrow> ensure_dir p fs = fs"
  by (simp add: ensure_dir_def mkdir_def)

lemma nvs_open_healthy:
  assumes "fs_healthy fs"
  shows "nvs_open fs = (NVS_HANDLE, fs)"
proof -
  obtain d where "ns_dir fs = Some d" using assms by (auto simp: fs_healthy_def)
  then have d: "resolve fs (data_dir fs @ ''/ns1'') = Some d" "d \<in> set (dirs fs)"
    by (auto simp: ns_dir_def split: option.splits if_splits)
  have "ensure_dir (data_dir fs) fs = fs"
  proof (cases "data_dir fs = []")
    case True
    then show ?thesis by (simp add: ensure_dir_def mkdir_def resolve_def path_start_def step_path_def)
  next
    case False
    from d(1) resolve_in [of "''ns1''" "data_dir fs" fs] False obtain e where
      "resolve fs (data_dir fs) = Some e" "e \<in> set (dirs fs)" by (auto split: option.splits if_splits)
    then show ?thesis by (rule ensure_dir_there)
  qed
  moreover have "snprintf 600 (data_dir fs @ ''/ns1'') = data_dir fs @ ''/ns1''"
    using fs_healthyD(8) [OF assms] by simp
  ultimately show ?thesis by (simp add: nvs_open_def Let_def ensure_dir_there [OF d])
qed

lemma resolve_mono:
  "resolve f p = Some q \<Longrightarrow> set (dirs f) \<subseteq> set (dirs g) \<Longrightarrow> cwd g = cwd f \<Longrightarrow> resolve g p = Some q"
  using walk_mono [of "dirs f" "path_start f p" "split_path p" q "dirs g"]
  by (simp only: resolve_def path_start_def [of g] path_start_def [of f, symmetric])

lemma ensure_dir_makes:
  assumes "resolve fs p = Some d" "can_mkdir fs d" "files fs d = None"
  shows "d \<in> set (dirs (ensure_dir p fs))" "set (dirs fs) \<subseteq> set (dirs (ensure_dir p fs))"
    "resolve fs q = Some e \<Longrightarrow> resolve (ensure_dir p fs) q = Some e"
    "data_dir (ensure_dir p fs) = data_dir fs" "can_mkdir (ensure_dir p fs) = can_mkdir fs" "files (ensure_dir p fs) = files fs"
proof -
  have e: "ensure_dir p fs = (if d \<in> set (dirs fs) then fs else fs\<lparr>dirs := d # dirs fs\<rparr>)"
    using assms by (simp add: ensure_dir_def mkdir_def)
  show "d \<in> set (dirs (ensure_dir p fs))" "set (dirs fs) \<subseteq> set (dirs (ensure_dir p fs))"
    "data_dir (ensure_dir p fs) = data_dir fs" "can_mkdir (ensure_dir p fs) = can_mkdir fs" "files (ensure_dir p fs) = files fs"
    unfolding e by auto
  show "resolve (ensure_dir p fs) q = Some e" if "resolve fs q = Some e"
    by (rule resolve_mono [OF that]) (auto simp: e)
qed

lemma nvs_open_makes:
  assumes "length (data_dir fs) < 512" "data_dir fs \<noteq> []" "\<And>p. can_mkdir fs p" "\<And>p. files fs p = None"
    and "resolve fs (data_dir fs) = Some e"
  shows "ns_dir (snd (nvs_open fs)) = Some (e @ [''ns1''])"
proof -
  define f1 where "f1 = ensure_dir (data_dir fs) fs"
  note f1 = ensure_dir_makes [OF assms(5,3,4), folded f1_def]
  have "resolve f1 (data_dir fs @ ''/ns1'') = Some (e @ [''ns1''])"
    using resolve_in [of "''ns1''" "data_dir fs" f1] assms(2) f1(1) f1(3) [OF assms(5)] by (simp add: step_path_def)
  note f2 = ensure_dir_makes [OF this, unfolded f1(5,6), OF assms(3,4)]
  have "snd (nvs_open fs) = ensure_dir (data_dir fs @ ''/ns1'') f1"
    using assms(1) by (simp add: nvs_open_def Let_def f1(4) flip: f1_def)
  with f2(1) f2(3) [OF \<open>resolve f1 (data_dir fs @ ''/ns1'') = Some (e @ [''ns1''])\<close>] f2(4) f1(4) show ?thesis
    by (simp add: ns_dir_def)
qed

section \<open>The shim meets the contract of a blob store\<close>

interpretation shim: blob_store "nvs_set_blob NVS_HANDLE" nvs_read "nvs_erase_key NVS_HANDLE" nvs_key_ok fs_healthy NVS_MAX_LEN
proof unfold_locales
  fix s k k' and v :: bytes
  assume ok: "fs_healthy s" and k: "nvs_key_ok k"
  {
    assume v: "length v \<le> NVS_MAX_LEN"
    show "fst (nvs_set_blob NVS_HANDLE k v s) = ESP_OK" by (simp add: nvs_set_healthy [OF ok k v])
    show ok': "fs_healthy (snd (nvs_set_blob NVS_HANDLE k v s))"
      by (simp add: nvs_set_healthy [OF ok k v]) (rule fs_healthy_update [OF ok], simp add: v)
    assume k': "nvs_key_ok k'"
    show "nvs_read k' (snd (nvs_set_blob NVS_HANDLE k v s)) = (if k' = k then Inr v else nvs_read k' s)"
      unfolding nvs_read_healthy [OF ok'] nvs_read_healthy [OF ok]
      by (simp add: nvs_set_healthy [OF ok k v] blob_at_update [OF ok k k'])
  }
  show "fst (nvs_erase_key NVS_HANDLE k s) = (case nvs_read k s of Inl _ \<Rightarrow> ESP_ERR_NOT_FOUND | Inr _ \<Rightarrow> ESP_OK)"
    by (simp add: nvs_erase_healthy [OF ok k] nvs_read_healthy [OF ok] split: option.splits)
  show ok': "fs_healthy (snd (nvs_erase_key NVS_HANDLE k s))"
    using ok fs_healthy_update [OF ok, of None] by (simp add: nvs_erase_healthy [OF ok k] del: fun_upd_apply)
  assume k': "nvs_key_ok k'"
  show "nvs_read k' (snd (nvs_erase_key NVS_HANDLE k s)) = (if k' = k then Inl ESP_ERR_NOT_FOUND else nvs_read k' s)"
    unfolding nvs_read_healthy [OF ok'] nvs_read_healthy [OF ok]
    using k k' by (auto simp: nvs_erase_healthy [OF ok k] blob_at_update [OF ok k])
qed

lemma ns_dir_empty [simp]: "ns_dir host_fs_empty = Some [''home'', ''pcrypto_data'', ''ns1'']"
  by (simp add: ns_dir_def resolve_def path_start_def host_fs_empty_def step_path_def)

lemma fs_healthy_empty [simp]: "fs_healthy host_fs_empty"
  unfolding fs_healthy_def ns_dir_empty by (simp add: host_fs_empty_def NVS_MAX_LEN_def)

lemma blob_at_empty [simp]: "blob_at k host_fs_empty = None"
  by (simp add: blob_at_def bind_eq_None_conv) (simp add: host_fs_empty_def)

lemma nvs_read_empty [simp]: "nvs_read k host_fs_empty = Inl ESP_ERR_NOT_FOUND"
  by (simp add: nvs_read_healthy blob_at_empty)

lemma nvs_u32_roundtrip:
  assumes "fs_healthy fs" "nvs_key_ok k" "nvs_key_ok k'"
  shows "nvs_get_u32 NVS_HANDLE k' old (snd (nvs_set_u32 NVS_HANDLE k w fs)) = (if k' = k then (ESP_OK, w) else nvs_get_u32 NVS_HANDLE k' old fs)"
proof -
  have v: "length (le32 w) \<le> NVS_MAX_LEN" by (simp add: NVS_MAX_LEN_def)
  have ok': "fs_healthy (snd (nvs_set_blob NVS_HANDLE k (le32 w) fs))" using shim.put_keeps [OF assms(1,2) v] .
  show ?thesis
  proof (cases "k' = k")
    case True
    have "nvs_read k (snd (nvs_set_blob NVS_HANDLE k (le32 w) fs)) = Inr (le32 w)"
      using shim.get_put [OF assms(1,2) v assms(2)] by simp
    from nvs_get_healthy [OF ok' this, of 4] True show ?thesis
      by (simp add: nvs_get_u32_def nvs_set_u32_def)
  next
    case False
    then show ?thesis
      using blob_at_update [OF assms, of "Some (le32 w)"]
      by (simp add: nvs_get_u32_def nvs_set_u32_def nvs_set_healthy [OF assms(1,2) v] nvs_get_blob_healthy [OF assms(1)]
        nvs_get_blob_healthy [OF ok', unfolded nvs_set_healthy [OF assms(1,2) v] snd_conv] del: fun_upd_apply)
  qed
qed

text \<open>Keys that are not file names are not kept apart.\<close>

lemma key_file_alias:
  assumes "fs_healthy fs"
  shows "key_file ''./x'' fs = key_file ''x'' fs"
proof -
  define a where "a = data_dir fs @ ''/ns1''"
  have a: "a \<noteq> []" "resolve fs a = ns_dir fs" "ns_dir fs \<noteq> None" "the (ns_dir fs) \<in> set (dirs fs)"
    using assms by (auto simp: a_def fs_healthy_def ns_dir_def split: option.splits if_splits)
  have "key_path NVS_HANDLE ''./x'' 700 fs = (a @ ''/'' @ ''.'') @ ''/'' @ ''x''"
    "key_path NVS_HANDLE ''x'' 700 fs = a @ ''/'' @ ''x''"
    using fs_healthyD(8) [OF assms] by (simp_all add: key_path_fits a_def)
  then show ?thesis
    using a by (auto simp: key_file_def resolve_in step_path_def simp del: append_assoc)
qed

section \<open>Properties\<close>

text \<open>Property C39: the file-backed store is a key-value store. On a file system where the directory of
  the store exists and that refuses nothing, for keys that are file names (not empty, at most 15
  characters, no slash, not \<open>.\<close> or \<open>..\<close>; a key \<open>./x\<close> would share its file with \<open>x\<close>): opening
  the store again changes nothing, a value set is the value read back, other keys are untouched, an
  erased key is gone, erasing a missing key reports \<open>ESP_ERR_NOT_FOUND\<close>, and a 32-bit counter
  survives the round trip.\<close>
theorem host_nvs_key_value:
  assumes "fs_healthy fs" and "nvs_key_ok k" and "nvs_key_ok k'" and "length v \<le> NVS_MAX_LEN"
  shows "nvs_read k' (snd (nvs_set_blob NVS_HANDLE k v fs)) = (if k' = k then Inr v else nvs_read k' fs) \<and>
    nvs_read k' (snd (nvs_erase_key NVS_HANDLE k fs)) = (if k' = k then Inl ESP_ERR_NOT_FOUND else nvs_read k' fs) \<and>
    (nvs_read k fs = Inl ESP_ERR_NOT_FOUND \<longrightarrow> fst (nvs_erase_key NVS_HANDLE k fs) = ESP_ERR_NOT_FOUND) \<and>
    nvs_get_u32 NVS_HANDLE k' old (snd (nvs_set_u32 NVS_HANDLE k w fs)) = (if k' = k then (ESP_OK, w) else nvs_get_u32 NVS_HANDLE k' old fs) \<and>
    fst (nvs_set_blob NVS_HANDLE k v fs) = ESP_OK \<and> fs_healthy (snd (nvs_set_blob NVS_HANDLE k v fs)) \<and>
    nvs_open fs = (NVS_HANDLE, fs)"
  using shim.get_put [OF assms(1,2,4,3)] shim.get_erase [OF assms(1,2,3)] shim.erase_result [OF assms(1,2)]
    nvs_u32_roundtrip [OF assms(1-3)] shim.put_ok [OF assms(1,2,4)] shim.put_keeps [OF assms(1,2,4)]
    nvs_open_healthy [OF assms(1)]
  by simp

theorem host_nvs_key_value_witness:
  "nvs_read ''id_pub'' (snd (nvs_set_blob NVS_HANDLE ''id_pub'' [5, 6] host_fs_empty)) = Inr [5, 6] \<and>
   nvs_get_u32 NVS_HANDLE ''reg_id'' 0 (snd (nvs_set_u32 NVS_HANDLE ''reg_id'' 4242 host_fs_empty)) = (ESP_OK, 4242)"
proof -
  have k: "nvs_key_ok ''id_pub''" "nvs_key_ok ''reg_id''" by (simp_all add: nvs_key_ok_def)
  have v: "length [5, 6 :: byte] \<le> NVS_MAX_LEN" by (simp add: NVS_MAX_LEN_def)
  show ?thesis
    using host_nvs_key_value [OF fs_healthy_empty k(1) k(1) v] host_nvs_key_value [OF fs_healthy_empty k(2) k(2) v]
    by simp
qed

end
