(* ===== verification/Store.thy ===== *)
theory Store
  imports HostShim
begin

text \<open>
  The store callbacks that \<open>firmware/components/crypto/store.c\<close> registers with libsignal:
  sessions and identity keys under a key folded from the peer's node ID, prekeys and signed
  prekeys under their number, all in the key-value store of \<open>nvs.h\<close> (here the host's, whose
  handle is \<open>NVS_HANDLE\<close> once \<open>pcrypto_init\<close> has opened it). Memory is a parameter: which
  allocations of a call succeed, and what a buffer holds that a failed read did not fill.
\<close>

section \<open>Result codes and memory\<close>

text \<open>libsignal's result codes; \<open>SG_ERR_OTHER\<close> is any other negative code.\<close>

datatype sg_code =
    SG_SUCCESS
  | SG_ERR_NOMEM
  | SG_ERR_UNKNOWN
  | SG_ERR_INVALID_KEY_ID
  | SG_ERR_OTHER int

record heap =
  malloc_ok :: "nat \<Rightarrow> nat \<Rightarrow> bool"
  sbuf_ok :: "nat \<Rightarrow> bytes \<Rightarrow> bool"
  int_list_ok :: bool
  push_ok :: bool
  unread :: "string \<Rightarrow> nat \<Rightarrow> byte"

text \<open>A heap where nothing is refused.\<close>

definition heap_ok :: "heap \<Rightarrow> bool" where
  "heap_ok h \<longleftrightarrow> (\<forall>i n. malloc_ok h i n) \<and> (\<forall>i b. sbuf_ok h i b) \<and> int_list_ok h \<and> push_ok h"

definition ample :: heap where
  "ample = \<lparr>malloc_ok = (\<lambda>_ _. True), sbuf_ok = (\<lambda>_ _. True), int_list_ok = True, push_ok = True, unread = (\<lambda>_ _. 0)\<rparr>"

section \<open>Keys\<close>

definition node_fold :: "bytes \<Rightarrow> bytes" where
  "node_fold nid = map (\<lambda>i. xor (nid ! i) (nid ! (i + 4))) [0..<4]"

definition crypto_node_key :: "bytes \<Rightarrow> string \<Rightarrow> string" where
  "crypto_node_key nid prefix = snprintf 16 (prefix @ concat (map hex2 (node_fold nid)))"

definition ss_key :: "bytes \<Rightarrow> string" where "ss_key nid = crypto_node_key nid ''ss_''"
definition ik_key :: "bytes \<Rightarrow> string" where "ik_key nid = crypto_node_key nid ''ik_''"
definition pk_key :: "u32 \<Rightarrow> string" where "pk_key i = snprintf 16 (''pk_'' @ dec (unat i))"
definition spk_key :: "u32 \<Rightarrow> string" where "spk_key i = snprintf 16 (''spk_'' @ dec (unat i))"

section \<open>Reading a blob\<close>

text \<open>The second \<open>nvs_get_blob\<close> of a load, whose result the callbacks ignore: the \<open>n\<close> bytes of
  the buffer afterwards.\<close>

definition read_blob :: "heap \<Rightarrow> string \<Rightarrow> nat \<Rightarrow> host_fs \<Rightarrow> bytes" where
  "read_blob h key n fs = (case nvs_get_blob NVS_HANDLE key n fs of
     Inr d \<Rightarrow> d | Inl _ \<Rightarrow> map (unread h key) [0..<n])"

section \<open>Sessions\<close>

text \<open>\<open>Inr None\<close> is the return value 0 (no session), \<open>Inr (Some r)\<close> the return value 1.\<close>

definition load_session_func :: "heap \<Rightarrow> bytes \<Rightarrow> host_fs \<Rightarrow> sg_code + bytes option" where
  "load_session_func h addr fs =
     (let key = ss_key addr in
      case nvs_get_blob_len NVS_HANDLE key fs of
        Inl _ \<Rightarrow> Inr None
      | Inr len \<Rightarrow>
          if len = 0 then Inr None
          else if \<not> malloc_ok h 0 len then Inl SG_ERR_NOMEM
          else let buf = read_blob h key len fs
               in if sbuf_ok h 0 buf then Inr (Some buf) else Inl SG_ERR_NOMEM)"

definition get_sub_device_sessions_func :: "heap \<Rightarrow> bytes \<Rightarrow> host_fs \<Rightarrow> sg_code + int list" where
  "get_sub_device_sessions_func h name fs =
     (if \<not> int_list_ok h then Inl SG_ERR_NOMEM
      else case nvs_get_blob_len NVS_HANDLE (ss_key name) fs of
             Inl _ \<Rightarrow> Inr []
           | Inr _ \<Rightarrow> Inr (if push_ok h then [1] else []))"

definition store_session_func :: "bytes \<Rightarrow> bytes \<Rightarrow> host_fs \<Rightarrow> sg_code \<times> host_fs" where
  "store_session_func addr rec fs =
     (case nvs_set_blob NVS_HANDLE (ss_key addr) rec fs of
        (e, fs') \<Rightarrow> if e \<noteq> ESP_OK then (SG_ERR_UNKNOWN, fs') else (SG_SUCCESS, snd (nvs_commit NVS_HANDLE fs')))"

definition contains_session_func :: "bytes \<Rightarrow> host_fs \<Rightarrow> bool" where
  "contains_session_func addr fs = (case nvs_get_blob_len NVS_HANDLE (ss_key addr) fs of Inl _ \<Rightarrow> False | Inr _ \<Rightarrow> True)"

definition delete_session_func :: "bytes \<Rightarrow> host_fs \<Rightarrow> bool \<times> host_fs" where
  "delete_session_func addr fs =
     (case nvs_erase_key NVS_HANDLE (ss_key addr) fs of (e, fs') \<Rightarrow> (e = ESP_OK, snd (nvs_commit NVS_HANDLE fs')))"

definition delete_all_sessions_func :: "bytes \<Rightarrow> host_fs \<Rightarrow> bool \<times> host_fs" where
  "delete_all_sessions_func name fs =
     (case nvs_erase_key NVS_HANDLE (ss_key name) fs of (e, fs') \<Rightarrow> (e = ESP_OK, snd (nvs_commit NVS_HANDLE fs')))"

section \<open>Prekeys and signed prekeys\<close>

definition load_pre_key :: "heap \<Rightarrow> u32 \<Rightarrow> host_fs \<Rightarrow> sg_code + bytes" where
  "load_pre_key h i fs =
     (let key = pk_key i in
      case nvs_get_blob_len NVS_HANDLE key fs of
        Inl _ \<Rightarrow> Inl SG_ERR_INVALID_KEY_ID
      | Inr len \<Rightarrow>
          if \<not> malloc_ok h 0 len then Inl SG_ERR_NOMEM
          else let buf = read_blob h key len fs
               in if sbuf_ok h 0 buf then Inr buf else Inl SG_ERR_NOMEM)"

definition store_pre_key :: "u32 \<Rightarrow> bytes \<Rightarrow> host_fs \<Rightarrow> sg_code \<times> host_fs" where
  "store_pre_key i rec fs =
     (case nvs_set_blob NVS_HANDLE (pk_key i) rec fs of
        (e, fs') \<Rightarrow> if e \<noteq> ESP_OK then (SG_ERR_UNKNOWN, fs') else (SG_SUCCESS, snd (nvs_commit NVS_HANDLE fs')))"

definition contains_pre_key :: "u32 \<Rightarrow> host_fs \<Rightarrow> bool" where
  "contains_pre_key i fs = (case nvs_get_blob_len NVS_HANDLE (pk_key i) fs of Inl _ \<Rightarrow> False | Inr _ \<Rightarrow> True)"

definition remove_pre_key :: "u32 \<Rightarrow> host_fs \<Rightarrow> sg_code \<times> host_fs" where
  "remove_pre_key i fs =
     (case nvs_erase_key NVS_HANDLE (pk_key i) fs of
        (e, fs') \<Rightarrow> (if e = ESP_OK then SG_SUCCESS else SG_ERR_UNKNOWN, snd (nvs_commit NVS_HANDLE fs')))"

definition load_signed_pre_key :: "heap \<Rightarrow> u32 \<Rightarrow> host_fs \<Rightarrow> sg_code + bytes" where
  "load_signed_pre_key h i fs =
     (let key = spk_key i in
      case nvs_get_blob_len NVS_HANDLE key fs of
        Inl _ \<Rightarrow> Inl SG_ERR_INVALID_KEY_ID
      | Inr len \<Rightarrow>
          if \<not> malloc_ok h 0 len then Inl SG_ERR_NOMEM
          else let buf = read_blob h key len fs
               in if sbuf_ok h 0 buf then Inr buf else Inl SG_ERR_NOMEM)"

definition store_signed_pre_key :: "u32 \<Rightarrow> bytes \<Rightarrow> host_fs \<Rightarrow> sg_code \<times> host_fs" where
  "store_signed_pre_key i rec fs =
     (case nvs_set_blob NVS_HANDLE (spk_key i) rec fs of
        (e, fs') \<Rightarrow> if e \<noteq> ESP_OK then (SG_ERR_UNKNOWN, fs') else (SG_SUCCESS, snd (nvs_commit NVS_HANDLE fs')))"

definition contains_signed_pre_key :: "u32 \<Rightarrow> host_fs \<Rightarrow> bool" where
  "contains_signed_pre_key i fs = (case nvs_get_blob_len NVS_HANDLE (spk_key i) fs of Inl _ \<Rightarrow> False | Inr _ \<Rightarrow> True)"

definition remove_signed_pre_key :: "u32 \<Rightarrow> host_fs \<Rightarrow> sg_code \<times> host_fs" where
  "remove_signed_pre_key i fs =
     (case nvs_erase_key NVS_HANDLE (spk_key i) fs of
        (e, fs') \<Rightarrow> (if e = ESP_OK then SG_SUCCESS else SG_ERR_UNKNOWN, snd (nvs_commit NVS_HANDLE fs')))"

section \<open>Identity keys\<close>

definition get_identity_key_pair :: "heap \<Rightarrow> host_fs \<Rightarrow> sg_code + (bytes \<times> bytes)" where
  "get_identity_key_pair h fs =
     (case nvs_get_blob_len NVS_HANDLE ''id_pub'' fs of
        Inl _ \<Rightarrow> Inl SG_ERR_UNKNOWN
      | Inr pub_len \<Rightarrow>
          (case nvs_get_blob_len NVS_HANDLE ''id_priv'' fs of
             Inl _ \<Rightarrow> Inl SG_ERR_UNKNOWN
           | Inr priv_len \<Rightarrow>
               if \<not> malloc_ok h 0 pub_len \<or> \<not> malloc_ok h 1 priv_len then Inl SG_ERR_NOMEM
               else let pub_buf = read_blob h ''id_pub'' pub_len fs;
                        priv_buf = read_blob h ''id_priv'' priv_len fs
                    in if sbuf_ok h 0 pub_buf \<and> sbuf_ok h 1 priv_buf then Inr (pub_buf, priv_buf) else Inl SG_ERR_NOMEM))"

definition get_local_registration_id :: "u32 \<Rightarrow> host_fs \<Rightarrow> sg_code \<times> u32" where
  "get_local_registration_id old fs =
     (case nvs_get_u32 NVS_HANDLE ''reg_id'' old fs of (e, v) \<Rightarrow> (if e = ESP_OK then SG_SUCCESS else SG_ERR_UNKNOWN, v))"

text \<open>\<open>None\<close> is a NULL \<open>key_data\<close>. The results of the store are ignored.\<close>

definition save_identity :: "bytes \<Rightarrow> bytes option \<Rightarrow> host_fs \<Rightarrow> sg_code \<times> host_fs" where
  "save_identity addr key_data fs =
     (let key = ik_key addr;
          fs' = (case key_data of
                   None \<Rightarrow> snd (nvs_erase_key NVS_HANDLE key fs)
                 | Some d \<Rightarrow> snd (nvs_set_blob NVS_HANDLE key d fs))
      in (SG_SUCCESS, snd (nvs_commit NVS_HANDLE fs')))"

definition is_trusted_identity :: "heap \<Rightarrow> bytes \<Rightarrow> bytes \<Rightarrow> host_fs \<Rightarrow> bool" where
  "is_trusted_identity h addr key_data fs =
     (let key = ik_key addr in
      case nvs_get_blob_len NVS_HANDLE key fs of
        Inl _ \<Rightarrow> True
      | Inr stored_len \<Rightarrow>
          if \<not> malloc_ok h 0 stored_len then False
          else let stored = read_blob h key stored_len fs
               in stored_len = length key_data \<and> stored = key_data)"

section \<open>The keys\<close>

lemma length_node_fold [simp]: "length (node_fold nid) = 4"
  by (simp add: node_fold_def)

lemma length_concat_hex2 [simp]: "length (concat (map hex2 bs)) = 2 * length bs"
  by (induction bs) simp_all

lemma concat_hex2_inj: "length as = length bs \<Longrightarrow> concat (map hex2 as) = concat (map hex2 bs) \<longleftrightarrow> as = bs"
  by (induction as bs rule: list_induct2) simp_all

lemma node_key_eq [simp]:
  "length p \<le> 7 \<Longrightarrow> crypto_node_key nid p = p @ concat (map hex2 (node_fold nid))"
  by (simp add: crypto_node_key_def)

lemma key_forms:
  "ss_key nid = ''ss_'' @ concat (map hex2 (node_fold nid))"
  "ik_key nid = ''ik_'' @ concat (map hex2 (node_fold nid))"
  "pk_key i = ''pk_'' @ dec (unat i)"
  "spk_key i = ''spk_'' @ dec (unat i)"
  by (simp_all add: ss_key_def ik_key_def pk_key_def spk_key_def snprintf_def order.trans [OF length_dec_u32])

lemma node_key_chars: "CHR ''/'' \<notin> set (concat (map hex2 bs))"
  by (induction bs) simp_all

lemma keys_ok [simp]:
  "nvs_key_ok (ss_key nid)" "nvs_key_ok (ik_key nid)" "nvs_key_ok (pk_key i)" "nvs_key_ok (spk_key i)"
  "nvs_key_ok ''id_pub''" "nvs_key_ok ''id_priv''" "nvs_key_ok ''reg_id''" "nvs_key_ok ''next_pk_id''"
  by (simp_all add: nvs_key_ok_def key_forms order.trans [OF length_dec_u32] node_key_chars)
    (use dec_no_slash in blast)+

lemma node_keys_eq [simp]:
  "ss_key a = ss_key b \<longleftrightarrow> node_fold a = node_fold b" "ik_key a = ik_key b \<longleftrightarrow> node_fold a = node_fold b"
  by (simp_all add: key_forms concat_hex2_inj)

lemma num_keys_eq [simp]: "pk_key i = pk_key j \<longleftrightarrow> i = j" "spk_key i = spk_key j \<longleftrightarrow> i = j"
  by (auto simp: key_forms word_unat_eq_iff)

text \<open>No key of one kind is a key of another.\<close>

lemma keys_distinct [simp]:
  "ss_key a \<noteq> ik_key b" "ss_key a \<noteq> pk_key i" "ss_key a \<noteq> spk_key i"
  "ik_key b \<noteq> ss_key a" "pk_key i \<noteq> ss_key a" "spk_key i \<noteq> ss_key a"
  "ik_key a \<noteq> pk_key i" "ik_key a \<noteq> spk_key i" "pk_key i \<noteq> ik_key a" "spk_key i \<noteq> ik_key a"
  "pk_key i \<noteq> spk_key j" "spk_key j \<noteq> pk_key i"
  by (simp_all add: key_forms)

lemma fixed_keys_distinct [simp]:
  "ss_key a \<noteq> ''id_pub''" "ss_key a \<noteq> ''id_priv''" "ss_key a \<noteq> ''reg_id''" "ss_key a \<noteq> ''next_pk_id''"
  "ik_key a \<noteq> ''id_pub''" "ik_key a \<noteq> ''id_priv''" "ik_key a \<noteq> ''reg_id''" "ik_key a \<noteq> ''next_pk_id''"
  "pk_key i \<noteq> ''id_pub''" "pk_key i \<noteq> ''id_priv''" "pk_key i \<noteq> ''reg_id''" "pk_key i \<noteq> ''next_pk_id''"
  "spk_key i \<noteq> ''id_pub''" "spk_key i \<noteq> ''id_priv''" "spk_key i \<noteq> ''reg_id''" "spk_key i \<noteq> ''next_pk_id''"
  by (simp_all add: key_forms)

lemmas fixed_keys_distinct' [simp] = fixed_keys_distinct [symmetric]

subsection \<open>Folding a node ID\<close>

text \<open>The ID of a node, as \<open>mesh.c\<close> derives it from its MAC address.\<close>

definition mac_node_id :: "bytes \<Rightarrow> bytes" where
  "mac_node_id mac = take 6 mac @ [0xAA, 0xBB]"

lemma upt_0_4: "[0..<4] = [0, 1, 2, 3 :: nat]"
  by (simp add: upt_rec)

lemma node_fold_mac:
  assumes "length mac = 6"
  shows "node_fold (mac_node_id mac) =
    [xor (mac ! 0) (mac ! 4), xor (mac ! 1) (mac ! 5), xor (mac ! 2) 0xAA, xor (mac ! 3) 0xBB]"
  using assms by (simp add: node_fold_def mac_node_id_def upt_0_4 nth_append)

lemma xor_cancel_left [simp]: "xor a b = xor a c \<longleftrightarrow> b = (c :: byte)"
proof
  assume "xor a b = xor a c"
  then have "xor a (xor a b) = xor a (xor a c)" by simp
  then show "b = c" by (simp add: xor.assoc [symmetric])
qed simp

lemma xor_cancel_right [simp]: "xor b a = xor c a \<longleftrightarrow> b = (c :: byte)"
  by (simp add: xor.commute [of _ a])

lemma length6E:
  assumes "length bs = 6"
  obtains a b c d e f where "bs = [a, b, c, d, e, f]"
  using assms by (auto simp: numeral_eq_Suc length_Suc_conv)

lemma node_fold_same_vendor:
  assumes "length mac = 6" "length mac' = 6" "take 2 mac = take 2 mac'"
  shows "node_fold (mac_node_id mac) = node_fold (mac_node_id mac') \<longleftrightarrow> mac = mac'"
proof -
  obtain a b c d e f where m: "mac = [a, b, c, d, e, f]" using assms(1) by (rule length6E)
  obtain a' b' c' d' e' f' where m': "mac' = [a', b', c', d', e', f']" using assms(2) by (rule length6E)
  from assms(3) have "a' = a" "b' = b" by (simp_all add: m m')
  then show ?thesis by (auto simp: node_fold_mac m m')
qed

section \<open>Reading what is there\<close>

lemma read_blob_healthy:
  assumes "fs_healthy fs" "nvs_get_blob_len NVS_HANDLE k fs = Inr n"
  shows "\<exists>d. nvs_read k fs = Inr d \<and> length d = n \<and> read_blob h k n fs = d"
proof -
  from assms obtain d where d: "nvs_read k fs = Inr d" "n = length d"
    by (auto simp: nvs_len_healthy split: sum.splits)
  from nvs_get_healthy [OF assms(1) d(1), of n] d show ?thesis by (simp add: read_blob_def)
qed

lemma heap_okD [simp]: "heap_ok h \<Longrightarrow> malloc_ok h i n" "heap_ok h \<Longrightarrow> sbuf_ok h i b"
  "heap_ok h \<Longrightarrow> int_list_ok h" "heap_ok h \<Longrightarrow> push_ok h"
  by (simp_all add: heap_ok_def)

lemma heap_ok_ample [simp]: "heap_ok ample"
  by (simp add: heap_ok_def ample_def)

lemma load_session_healthy:
  assumes "fs_healthy fs" "heap_ok h"
  shows "load_session_func h a fs =
    Inr (case nvs_read (ss_key a) fs of Inl _ \<Rightarrow> None | Inr d \<Rightarrow> if d \<noteq> [] then Some d else None)"
  using assms read_blob_healthy [OF assms(1), of "ss_key a" _ h]
  by (auto simp: load_session_func_def Let_def nvs_len_healthy split: sum.splits)

lemma contains_healthy:
  assumes "fs_healthy fs"
  shows "contains_session_func a fs = (case nvs_read (ss_key a) fs of Inl _ \<Rightarrow> False | Inr _ \<Rightarrow> True)"
    "contains_pre_key i fs = (case nvs_read (pk_key i) fs of Inl _ \<Rightarrow> False | Inr _ \<Rightarrow> True)"
    "contains_signed_pre_key i fs = (case nvs_read (spk_key i) fs of Inl _ \<Rightarrow> False | Inr _ \<Rightarrow> True)"
  using assms
  by (auto simp: contains_session_func_def contains_pre_key_def contains_signed_pre_key_def nvs_len_healthy
    split: sum.splits)

lemma load_pre_key_healthy:
  assumes "fs_healthy fs" "heap_ok h"
  shows "load_pre_key h i fs = (case nvs_read (pk_key i) fs of Inl _ \<Rightarrow> Inl SG_ERR_INVALID_KEY_ID | Inr d \<Rightarrow> Inr d)"
    "load_signed_pre_key h i fs = (case nvs_read (spk_key i) fs of Inl _ \<Rightarrow> Inl SG_ERR_INVALID_KEY_ID | Inr d \<Rightarrow> Inr d)"
  using assms read_blob_healthy [OF assms(1), of "pk_key i" _ h] read_blob_healthy [OF assms(1), of "spk_key i" _ h]
  by (auto simp: load_pre_key_def load_signed_pre_key_def Let_def nvs_len_healthy split: sum.splits)

lemma is_trusted_healthy:
  assumes "fs_healthy fs" "heap_ok h"
  shows "is_trusted_identity h a key fs = (case nvs_read (ik_key a) fs of Inl _ \<Rightarrow> True | Inr d \<Rightarrow> d = key)"
  using assms read_blob_healthy [OF assms(1), of "ik_key a" _ h]
  by (auto simp: is_trusted_identity_def Let_def nvs_len_healthy split: sum.splits)

section \<open>The stores are maps\<close>

definition load_opt :: "sg_code + bytes \<Rightarrow> bytes option" where
  "load_opt r = (case r of Inl _ \<Rightarrow> None | Inr v \<Rightarrow> Some v)"

definition load_session_opt :: "sg_code + bytes option \<Rightarrow> bytes option" where
  "load_session_opt r = (case r of Inl _ \<Rightarrow> None | Inr v \<Rightarrow> v)"

definition succeeds :: "sg_code \<times> host_fs \<Rightarrow> bool \<times> host_fs" where
  "succeeds r = (fst r = SG_SUCCESS, snd r)"

lemma snd_succeeds [simp]: "snd (succeeds r) = snd r" and fst_succeeds [simp]: "fst (succeeds r) = (fst r = SG_SUCCESS)"
  by (simp_all add: succeeds_def)

interpretation sessions: record_store "nvs_set_blob NVS_HANDLE" nvs_read "nvs_erase_key NVS_HANDLE" nvs_key_ok
  fs_healthy NVS_MAX_LEN ss_key "\<lambda>_. True" "\<lambda>v. v \<noteq> []" "\<lambda>a fs. load_session_opt (load_session_func ample a fs)"
  "\<lambda>a v fs. succeeds (store_session_func a v fs)" contains_session_func delete_session_func
  by unfold_locales
    (auto simp: load_session_healthy load_session_opt_def contains_healthy succeeds_def store_session_func_def
      delete_session_func_def nvs_commit_def split: sum.splits prod.splits)

interpretation pre_keys: record_store "nvs_set_blob NVS_HANDLE" nvs_read "nvs_erase_key NVS_HANDLE" nvs_key_ok
  fs_healthy NVS_MAX_LEN pk_key "\<lambda>_. True" "\<lambda>v. True" "\<lambda>i fs. load_opt (load_pre_key ample i fs)"
  "\<lambda>i v fs. succeeds (store_pre_key i v fs)" contains_pre_key "\<lambda>i fs. succeeds (remove_pre_key i fs)"
  by unfold_locales
    (auto simp: load_pre_key_healthy load_opt_def contains_healthy succeeds_def store_pre_key_def
      remove_pre_key_def nvs_commit_def split: sum.splits prod.splits)

interpretation signed_pre_keys: record_store "nvs_set_blob NVS_HANDLE" nvs_read "nvs_erase_key NVS_HANDLE" nvs_key_ok
  fs_healthy NVS_MAX_LEN spk_key "\<lambda>_. True" "\<lambda>v. True" "\<lambda>i fs. load_opt (load_signed_pre_key ample i fs)"
  "\<lambda>i v fs. succeeds (store_signed_pre_key i v fs)" contains_signed_pre_key "\<lambda>i fs. succeeds (remove_signed_pre_key i fs)"
  by unfold_locales
    (auto simp: load_pre_key_healthy load_opt_def contains_healthy succeeds_def store_signed_pre_key_def
      remove_signed_pre_key_def nvs_commit_def split: sum.splits prod.splits)

lemma load_session_ample:
  assumes "fs_healthy fs" "heap_ok h"
  shows "load_session_func h a fs = Inr (load_session_opt (load_session_func ample a fs))"
  using assms by (simp add: load_session_healthy load_session_opt_def)

text \<open>What a write under one key does to the reads under the others.\<close>

lemma nvs_read_put:
  assumes "fs_healthy fs" "nvs_key_ok k" "nvs_key_ok k'" "length v \<le> NVS_MAX_LEN" "k' \<noteq> k"
  shows "nvs_read k' (snd (nvs_set_blob NVS_HANDLE k v fs)) = nvs_read k' fs"
  using shim.get_put [OF assms(1,2,4,3)] assms(5) by simp

lemma snd_store_session [simp]:
  "snd (store_session_func a v fs) = snd (nvs_set_blob NVS_HANDLE (ss_key a) v fs)"
  by (simp add: store_session_func_def nvs_commit_def split: prod.split)

lemma snd_save_identity [simp]:
  "snd (save_identity a (Some d) fs) = snd (nvs_set_blob NVS_HANDLE (ik_key a) d fs)"
  by (simp add: save_identity_def nvs_commit_def)

section \<open>Properties\<close>

text \<open>Property C22: the session store is a map from the four-byte folds of node IDs. On a healthy file
  system a stored session is the one loaded, for every node whose ID folds to the same four bytes
  and for no other (two nodes whose IDs fold alike share one record); deleting it reports whether
  there was one and removes it for exactly these nodes; and storing it disturbs neither the
  prekeys, nor the signed prekeys, nor the known identities.\<close>
theorem session_store_map:
  assumes "fs_healthy fs" and "heap_ok h" and "length r \<le> NVS_MAX_LEN" and "r \<noteq> []"
  shows "fst (store_session_func a r fs) = SG_SUCCESS \<and>
    load_session_func h b (snd (store_session_func a r fs)) =
      (if node_fold b = node_fold a then Inr (Some r) else load_session_func h b fs) \<and>
    contains_session_func b (snd (store_session_func a r fs)) =
      (node_fold b = node_fold a \<or> contains_session_func b fs) \<and>
    fst (delete_session_func a fs) = contains_session_func a fs \<and>
    load_session_func h b (snd (delete_session_func a fs)) =
      (if node_fold b = node_fold a then Inr None else load_session_func h b fs) \<and>
    contains_session_func b (snd (delete_session_func a fs)) =
      (node_fold b \<noteq> node_fold a \<and> contains_session_func b fs) \<and>
    load_pre_key h i (snd (store_session_func a r fs)) = load_pre_key h i fs \<and>
    load_signed_pre_key h i (snd (store_session_func a r fs)) = load_signed_pre_key h i fs \<and>
    is_trusted_identity h b key (snd (store_session_func a r fs)) = is_trusted_identity h b key fs"
proof -
  note l = sessions.load_after_store [OF assms(1) TrueI assms(3) TrueI]
  note d = sessions.load_after_remove [OF assms(1) TrueI TrueI]
  have ok': "fs_healthy (snd (store_session_func a r fs))"
    using l(2) [of a] by simp
  have "load_session_func h b (snd (store_session_func a r fs)) =
      (if node_fold b = node_fold a then Inr (Some r) else load_session_func h b fs)"
    unfolding load_session_ample [OF ok' assms(2)] load_session_ample [OF assms(1,2)]
    using l(3) [of b a] assms(4) by simp
  moreover have "load_session_func h b (snd (delete_session_func a fs)) =
      (if node_fold b = node_fold a then Inr None else load_session_func h b fs)"
    unfolding load_session_ample [OF d(2) assms(2)] load_session_ample [OF assms(1,2)]
    using d(3) [of b a] by simp
  moreover have "fst (store_session_func a r fs) = SG_SUCCESS" using l(1) [of a] by simp
  moreover note l(4) [of b a] d(1) [of a] d(4) [of b a]
  ultimately show ?thesis
    unfolding load_pre_key_healthy [OF ok' assms(2)] load_pre_key_healthy [OF assms(1,2)]
      is_trusted_healthy [OF ok' assms(2)] is_trusted_healthy [OF assms(1,2)]
    by (simp add: nvs_read_put assms)
qed

theorem session_store_map_witness:
  "load_session_func ample [1, 2, 3, 4, 5, 6, 0xAA, 0xBB]
     (snd (store_session_func [1, 2, 3, 4, 5, 6, 0xAA, 0xBB] [7] host_fs_empty)) = Inr (Some [7])"
proof -
  have "length [7 :: byte] \<le> NVS_MAX_LEN" by (simp add: NVS_MAX_LEN_def)
  then show ?thesis
    using session_store_map [OF fs_healthy_empty heap_ok_ample, of "[7]" "[1, 2, 3, 4, 5, 6, 0xAA, 0xBB]"
        "[1, 2, 3, 4, 5, 6, 0xAA, 0xBB]" 0 "[]"] by simp
qed

text \<open>The names under which the crypto layer stores its records never clash between
  kinds and fit NVS's limit of 15 characters; prekey numbers have different names; and the names
  of two nodes of one vendor (same first two bytes of the MAC) differ unless the nodes are the
  same.\<close>
theorem store_keys_injective:
  assumes "length mac = 6" and "length mac' = 6" and "take 2 mac = take 2 mac'"
  shows "(ss_key (mac_node_id mac) = ss_key (mac_node_id mac') \<longleftrightarrow> mac = mac') \<and>
    (ik_key (mac_node_id mac) = ik_key (mac_node_id mac') \<longleftrightarrow> mac = mac') \<and>
    (pk_key i = pk_key j \<longleftrightarrow> i = j) \<and> (spk_key i = spk_key j \<longleftrightarrow> i = j) \<and>
    distinct [ss_key a, ik_key b, pk_key i, spk_key j, ''id_pub'', ''id_priv'', ''reg_id'', ''next_pk_id''] \<and>
    (\<forall>k \<in> {ss_key a, ik_key b, pk_key i, spk_key j}. length k \<le> 15)"
proof -
  have "length k \<le> 15" if "k \<in> {ss_key a, ik_key b, pk_key i, spk_key j}" for k
    using that keys_ok by (auto simp: nvs_key_ok_def)
  with node_fold_same_vendor [OF assms] show ?thesis by simp
qed

theorem store_keys_injective_witness:
  "ss_key (mac_node_id [0x24, 0x6F, 0x28, 1, 2, 3]) \<noteq> ss_key (mac_node_id [0x24, 0x6F, 0x28, 1, 2, 4]) \<and>
   pk_key 7 \<noteq> spk_key 7"
  using store_keys_injective [of "[0x24, 0x6F, 0x28, 1, 2, 3]" "[0x24, 0x6F, 0x28, 1, 2, 4]" 7 7 "[]" "[]"]
  by simp

text \<open>The fold to four bytes makes nodes of different vendors collide. Whenever two
  MAC addresses differ by the same pattern in their first and fifth byte, the nodes share one
  session slot: storing the session of one node replaces the session of the other, and the
  identity saved for one is what the other is checked against.\<close>
theorem node_fold_collision:
  assumes "fs_healthy fs" and "heap_ok h" and "length r \<le> NVS_MAX_LEN" and "r \<noteq> []"
    and "length mac = 6" and "d \<noteq> 0" and "key \<noteq> r"
  defines "mac' \<equiv> mac[0 := xor (mac ! 0) d, 4 := xor (mac ! 4) d]"
  shows "mac_node_id mac' \<noteq> mac_node_id mac \<and>
    load_session_func h (mac_node_id mac') (snd (store_session_func (mac_node_id mac) r fs)) = Inr (Some r) \<and>
    \<not> is_trusted_identity h (mac_node_id mac') key (snd (save_identity (mac_node_id mac) (Some r) fs))"
proof -
  obtain a b c e f g where m: "mac = [a, b, c, e, f, g]" using assms(5) by (rule length6E)
  have "xor a d \<noteq> a" using xor_cancel_left [of a d 0] assms(6) by simp
  then have ne: "mac_node_id mac' \<noteq> mac_node_id mac" by (simp add: mac'_def m mac_node_id_def)
  have "xor (xor a d) (xor f d) = xor a f"
    by (simp add: ac_simps)
  then have fold: "node_fold (mac_node_id mac') = node_fold (mac_node_id mac)"
    by (simp add: mac'_def m node_fold_mac)
  then have keys: "ss_key (mac_node_id mac') = ss_key (mac_node_id mac)"
    "ik_key (mac_node_id mac') = ik_key (mac_node_id mac)" by simp_all
  have ok: "fs_healthy (snd (nvs_set_blob NVS_HANDLE k r fs))" if "nvs_key_ok k" for k
    by (rule shim.put_keeps [OF assms(1) that assms(3)])
  have rd: "nvs_read k (snd (nvs_set_blob NVS_HANDLE k r fs)) = Inr r" if "nvs_key_ok k" for k
    using shim.get_put [OF assms(1) that assms(3) that] by simp
  show ?thesis
    using ne assms(2,4,7)
    by (simp add: load_session_healthy is_trusted_healthy ok rd keys)
qed

theorem node_fold_collision_witness:
  "load_session_func ample (mac_node_id [3, 0, 0, 0, 6, 0])
     (snd (store_session_func (mac_node_id [2, 0, 0, 0, 7, 0]) [9] host_fs_empty)) = Inr (Some [9])"
proof -
  have "length [9 :: byte] \<le> NVS_MAX_LEN" by (simp add: NVS_MAX_LEN_def)
  then show ?thesis
    using node_fold_collision [OF fs_healthy_empty heap_ok_ample, of "[9]" "[2, 0, 0, 0, 7, 0]" 1 "[]"] by simp
qed

section \<open>Known identities\<close>

text \<open>Who is trusted after an identity is saved or erased.\<close>

lemma trusted_after_save:
  assumes "fs_healthy fs" "heap_ok h" "length d \<le> NVS_MAX_LEN"
  shows "is_trusted_identity h b key (snd (save_identity a (Some d) fs)) =
      (if node_fold b = node_fold a then key = d else is_trusted_identity h b key fs)"
    "is_trusted_identity h b key (snd (save_identity a None fs)) =
      (node_fold b = node_fold a \<or> is_trusted_identity h b key fs)"
    "fs_healthy (snd (save_identity a (Some d) fs))"
    "\<not> is_trusted_identity (h\<lparr>malloc_ok := \<lambda>_ _. False\<rparr>) a key (snd (save_identity a (Some d) fs))"
proof -
  show ok: "fs_healthy (snd (save_identity a (Some d) fs))"
    using shim.put_keeps [OF assms(1) keys_ok(2) assms(3)] by simp
  have ok2: "fs_healthy (snd (save_identity a None fs))"
    using shim.erase_keeps [OF assms(1) keys_ok(2)] by (simp add: save_identity_def nvs_commit_def)
  have rd: "nvs_read (ik_key b) (snd (save_identity a (Some d) fs)) =
      (if node_fold b = node_fold a then Inr d else nvs_read (ik_key b) fs)" for b
    using shim.get_put [OF assms(1) keys_ok(2) assms(3) keys_ok(2)] by simp
  have er: "nvs_read (ik_key b) (snd (save_identity a None fs)) =
      (if node_fold b = node_fold a then Inl ESP_ERR_NOT_FOUND else nvs_read (ik_key b) fs)"
    using shim.get_erase [OF assms(1) keys_ok(2) keys_ok(2)] by (simp add: save_identity_def nvs_commit_def)
  show "is_trusted_identity h b key (snd (save_identity a (Some d) fs)) =
      (if node_fold b = node_fold a then key = d else is_trusted_identity h b key fs)"
    "is_trusted_identity h b key (snd (save_identity a None fs)) =
      (node_fold b = node_fold a \<or> is_trusted_identity h b key fs)"
    unfolding is_trusted_healthy [OF ok assms(2)] is_trusted_healthy [OF ok2 assms(2)]
      is_trusted_healthy [OF assms(1,2)] rd er by auto
  show "\<not> is_trusted_identity (h\<lparr>malloc_ok := \<lambda>_ _. False\<rparr>) a key (snd (save_identity a (Some d) fs))"
    using rd [of a] unfolding is_trusted_identity_def Let_def nvs_len_healthy [OF ok] by simp
qed

end
