(* ===== verification/Platform.thy ===== *)
theory Platform
  imports Prelude
begin

text \<open>
  What the firmware reads from the ESP-IDF platform: the microsecond timer and the hardware
  random number generator. Both are outside the repository, so their values are parameters: the
  record \<open>platform\<close> holds the stream of timer values (the \<open>n\<close>-th call of
  \<open>esp_timer_get_time\<close> returns \<open>timer n\<close>) and the stream of random bytes, with the number of
  values used so far. The timer is an \<open>int64_t\<close> count of microseconds since boot, which does not
  reach \<open>2 ^ 63\<close> in 290,000 years, so it is an unbounded \<open>int\<close> here.
\<close>

record platform =
  timer :: "nat \<Rightarrow> int"
  timer_reads :: nat
  rng :: "nat \<Rightarrow> byte"
  rng_drawn :: nat

definition esp_timer_get_time :: "platform \<Rightarrow> int \<times> platform" where
  "esp_timer_get_time p = (timer p (timer_reads p), p\<lparr>timer_reads := Suc (timer_reads p)\<rparr>)"

definition esp_fill_random :: "nat \<Rightarrow> platform \<Rightarrow> bytes \<times> platform" where
  "esp_fill_random n p = (map (rng p) [rng_drawn p..<rng_drawn p + n], p\<lparr>rng_drawn := rng_drawn p + n\<rparr>)"

definition esp_random :: "platform \<Rightarrow> u32 \<times> platform" where
  "esp_random p = (case esp_fill_random 4 p of (bs, p') \<Rightarrow> (from_le32 bs, p'))"

text \<open>The timer never runs backwards.\<close>

definition timer_monotone :: "platform \<Rightarrow> bool" where
  "timer_monotone p \<longleftrightarrow> (\<forall>m n. m \<le> n \<longrightarrow> timer p m \<le> timer p n)"

lemma length_esp_fill_random [simp]: "length (fst (esp_fill_random n p)) = n"
  by (simp add: esp_fill_random_def)

lemma platform_streams [frame_simps, simp]:
  "timer (snd (esp_timer_get_time p)) = timer p" "rng (snd (esp_timer_get_time p)) = rng p"
  "timer (snd (esp_fill_random n p)) = timer p" "rng (snd (esp_fill_random n p)) = rng p"
  by (simp_all add: esp_timer_get_time_def esp_fill_random_def)

text \<open>The seconds stamp of a frame: \<open>(uint32_t)(esp_timer_get_time() / 1000000)\<close>.\<close>

definition seconds_stamp :: "int \<Rightarrow> u32" where
  "seconds_stamp us = word_of_int (us div 1000000)"

end
