(* ===== verification/Provider.thy ===== *)
theory Provider
  imports Store Platform
begin

text \<open>
  The crypto provider handed to libsignal, \<open>firmware/components/crypto/provider.c\<close>: padding and
  AES for \<open>encrypt_func\<close> and \<open>decrypt_func\<close>, and the streaming interfaces of HMAC-SHA256 and
  SHA-512. The primitives are mbedTLS, outside the repository, and parameters here
  (\<open>aes_lib\<close>, \<open>digest_lib\<close>); a primitive that fails returns \<open>None\<close> or \<open>False\<close>. The calls leave
  their contexts changed, whether they succeed or not.
\<close>

section \<open>Randomness\<close>

definition random_func :: "nat \<Rightarrow> platform \<Rightarrow> (sg_code \<times> bytes) \<times> platform" where
  "random_func len p = (case esp_fill_random len p of (data, p') \<Rightarrow> ((SG_SUCCESS, data), p'))"

section \<open>Encryption and decryption\<close>

datatype sg_cipher = SG_CIPHER_AES_CTR_NOPADDING | SG_CIPHER_AES_CBC_PKCS5 | SG_CIPHER_OTHER int

text \<open>AES contexts are of type \<open>'a\<close>. A context is initialised, then loaded with the key schedule of
  one direction (the code ignores the result, so a key of an illegal size leaves whatever context
  the library leaves), then used with an IV and data. Counter mode is always called with a fresh
  counter offset and stream block.\<close>

datatype aes_mode = MBEDTLS_AES_ENCRYPT | MBEDTLS_AES_DECRYPT

record 'a aes_lib =
  aes_init :: 'a
  aes_setkey_enc :: "'a \<Rightarrow> bytes \<Rightarrow> 'a"
  aes_setkey_dec :: "'a \<Rightarrow> bytes \<Rightarrow> 'a"
  aes_crypt_ctr :: "'a \<Rightarrow> bytes \<Rightarrow> bytes \<Rightarrow> bytes option"
  aes_crypt_cbc :: "'a \<Rightarrow> aes_mode \<Rightarrow> bytes \<Rightarrow> bytes \<Rightarrow> bytes option"

definition pkcs7_pad :: "bytes \<Rightarrow> bytes" where
  "pkcs7_pad inp =
     (let padded_len = ((length inp div 16) + 1) * 16;
          pad_byte = of_nat (padded_len - length inp) :: byte
      in inp @ replicate (unat pad_byte) pad_byte)"

text \<open>The 16-byte copy of the IV on the stack; an IV that is shorter leaves the rest as it was.\<close>

definition iv_copy :: "heap \<Rightarrow> bytes \<Rightarrow> bytes" where
  "iv_copy h iv = map (\<lambda>i. if i < length iv then iv ! i else unread h ''iv_copy'' i) [0..<16]"

definition encrypt_func :: "'a aes_lib \<Rightarrow> heap \<Rightarrow> sg_cipher \<Rightarrow> bytes \<Rightarrow> bytes \<Rightarrow> bytes \<Rightarrow> sg_code + bytes" where
  "encrypt_func aes h cipher key iv plaintext =
     (case cipher of
        SG_CIPHER_AES_CTR_NOPADDING \<Rightarrow>
          (let ctx = aes_setkey_enc aes (aes_init aes) key
           in if \<not> malloc_ok h 0 (length plaintext) then Inl SG_ERR_NOMEM
              else (case aes_crypt_ctr aes ctx (iv_copy h iv) plaintext of
                      None \<Rightarrow> Inl SG_ERR_UNKNOWN
                    | Some buf \<Rightarrow> if sbuf_ok h 0 buf then Inr buf else Inl SG_ERR_UNKNOWN))
      | SG_CIPHER_AES_CBC_PKCS5 \<Rightarrow>
          (let ctx = aes_setkey_enc aes (aes_init aes) key;
               padded_len = ((length plaintext div 16) + 1) * 16
           in if \<not> malloc_ok h 0 padded_len \<or> \<not> malloc_ok h 1 padded_len then Inl SG_ERR_NOMEM
              else (case aes_crypt_cbc aes ctx MBEDTLS_AES_ENCRYPT (iv_copy h iv) (pkcs7_pad plaintext) of
                      None \<Rightarrow> Inl SG_ERR_UNKNOWN
                    | Some out_buf \<Rightarrow> if sbuf_ok h 0 out_buf then Inr out_buf else Inl SG_ERR_UNKNOWN))
      | SG_CIPHER_OTHER c \<Rightarrow> Inl SG_ERR_UNKNOWN)"

text \<open>\<open>None\<close>: the function reads outside its buffer (\<open>buf[ciphertext_len - 1]\<close> of an empty one).\<close>

definition decrypt_func :: "'a aes_lib \<Rightarrow> heap \<Rightarrow> sg_cipher \<Rightarrow> bytes \<Rightarrow> bytes \<Rightarrow> bytes \<Rightarrow> (sg_code + bytes) option" where
  "decrypt_func aes h cipher key iv ciphertext =
     (case cipher of
        SG_CIPHER_AES_CTR_NOPADDING \<Rightarrow>
          (let ctx = aes_setkey_enc aes (aes_init aes) key
           in if \<not> malloc_ok h 0 (length ciphertext) then Some (Inl SG_ERR_NOMEM)
              else (case aes_crypt_ctr aes ctx (iv_copy h iv) ciphertext of
                      None \<Rightarrow> Some (Inl SG_ERR_UNKNOWN)
                    | Some buf \<Rightarrow> Some (if sbuf_ok h 0 buf then Inr buf else Inl SG_ERR_UNKNOWN)))
      | SG_CIPHER_AES_CBC_PKCS5 \<Rightarrow>
          if length ciphertext mod 16 \<noteq> 0 then Some (Inl SG_ERR_UNKNOWN)
          else let ctx = aes_setkey_dec aes (aes_init aes) key
               in if \<not> malloc_ok h 0 (length ciphertext) then Some (Inl SG_ERR_NOMEM)
                  else (case aes_crypt_cbc aes ctx MBEDTLS_AES_DECRYPT (iv_copy h iv) ciphertext of
                          None \<Rightarrow> Some (Inl SG_ERR_UNKNOWN)
                        | Some buf \<Rightarrow>
                            if ciphertext = [] then None
                            else let pad = unat (buf ! (length ciphertext - 1));
                                     unpadded_len =
                                       (if pad > 0 \<and> pad \<le> 16 then length ciphertext - pad else length ciphertext);
                                     out = take unpadded_len buf
                                 in Some (if sbuf_ok h 0 out then Inr out else Inl SG_ERR_UNKNOWN))
      | SG_CIPHER_OTHER c \<Rightarrow> Some (Inl SG_ERR_UNKNOWN))"

section \<open>Streaming digests\<close>

text \<open>The library's digest contexts are of type \<open>'c\<close>. An update answers whether it succeeded, a finish
  the digest, each with the context as it is left.\<close>

record 'c digest_lib =
  calloc_ok :: bool
  hmac_setup :: "bytes \<Rightarrow> 'c option"
  hmac_update :: "'c \<Rightarrow> bytes \<Rightarrow> bool \<times> 'c"
  hmac_finish :: "'c \<Rightarrow> bytes option \<times> 'c"
  sha512_starts :: 'c
  sha512_update :: "'c \<Rightarrow> bytes \<Rightarrow> bool \<times> 'c"
  sha512_finish :: "'c \<Rightarrow> bytes option \<times> 'c"

definition hmac_sha256_init_func :: "'c digest_lib \<Rightarrow> bytes \<Rightarrow> sg_code + 'c" where
  "hmac_sha256_init_func md key =
     (if \<not> calloc_ok md then Inl SG_ERR_NOMEM
      else case hmac_setup md key of None \<Rightarrow> Inl SG_ERR_UNKNOWN | Some c \<Rightarrow> Inr c)"

definition hmac_sha256_update_func :: "'c digest_lib \<Rightarrow> 'c \<Rightarrow> bytes \<Rightarrow> sg_code \<times> 'c" where
  "hmac_sha256_update_func md c data =
     (case hmac_update md c data of (ok, c') \<Rightarrow> (if ok then SG_SUCCESS else SG_ERR_UNKNOWN, c'))"

definition hmac_sha256_final_func :: "'c digest_lib \<Rightarrow> heap \<Rightarrow> 'c \<Rightarrow> (sg_code + bytes) \<times> 'c" where
  "hmac_sha256_final_func md h c =
     (case hmac_finish md c of
        (None, c') \<Rightarrow> (Inl SG_ERR_UNKNOWN, c')
      | (Some result, c') \<Rightarrow> (if sbuf_ok h 0 result then Inr result else Inl SG_ERR_NOMEM, c'))"

definition sha512_digest_init_func :: "'c digest_lib \<Rightarrow> sg_code + 'c" where
  "sha512_digest_init_func md = (if \<not> calloc_ok md then Inl SG_ERR_NOMEM else Inr (sha512_starts md))"

definition sha512_digest_update_func :: "'c digest_lib \<Rightarrow> 'c \<Rightarrow> bytes \<Rightarrow> sg_code \<times> 'c" where
  "sha512_digest_update_func md c data =
     (case sha512_update md c data of (ok, c') \<Rightarrow> (if ok then SG_SUCCESS else SG_ERR_UNKNOWN, c'))"

text \<open>The context is started again at once, so that it can take the next digest.\<close>

definition sha512_digest_final_func :: "'c digest_lib \<Rightarrow> heap \<Rightarrow> 'c \<Rightarrow> (sg_code + bytes) \<times> 'c" where
  "sha512_digest_final_func md h c =
     (case sha512_finish md c of
        (None, c') \<Rightarrow> (Inl SG_ERR_UNKNOWN, c')
      | (Some result, c') \<Rightarrow> (if sbuf_ok h 0 result then Inr result else Inl SG_ERR_NOMEM, sha512_starts md))"

section \<open>Padding\<close>

lemma pad_bounds:
  fixes n :: nat
  shows "1 \<le> (n div 16 + 1) * 16 - n" "(n div 16 + 1) * 16 - n \<le> 16" "n \<le> (n div 16 + 1) * 16"
  by (simp_all add: minus_mod_eq_mult_div [symmetric] algebra_simps)

lemma length_pkcs7_pad [simp, len_simps]: "length (pkcs7_pad p) = (length p div 16 + 1) * 16"
proof -
  have "unat (of_nat ((length p div 16 + 1) * 16 - length p) :: byte) = (length p div 16 + 1) * 16 - length p"
    by (rule unat_of_nat_byte) (use pad_bounds(2) [of "length p"] in linarith)
  then show ?thesis
    using pad_bounds(3) [of "length p"] by (simp add: pkcs7_pad_def Let_def)
qed

lemma pkcs7_unpad:
  fixes p :: bytes
  defines "pad \<equiv> unat (pkcs7_pad p ! (length (pkcs7_pad p) - 1))"
  shows "0 < pad" "pad \<le> 16" "take (length (pkcs7_pad p) - pad) (pkcs7_pad p) = p"
proof -
  define m where "m = (length p div 16 + 1) * 16 - length p"
  have m: "1 \<le> m" "m \<le> 16" using pad_bounds [of "length p"] by (simp_all add: m_def)
  have um: "unat (of_nat m :: byte) = m" by (rule unat_of_nat_byte) (use m in linarith)
  have p: "pkcs7_pad p = p @ replicate m (of_nat m)"
    unfolding pkcs7_pad_def Let_def m_def [symmetric] um ..
  have "\<not> length p + m - 1 < length p" using m by linarith
  then have "pad = m" using m um by (simp add: pad_def p nth_append)
  with m show "0 < pad" "pad \<le> 16" "take (length (pkcs7_pad p) - pad) (pkcs7_pad p) = p"
    by (simp_all add: p)
qed

lemma iv_copy_full: "16 \<le> length iv \<Longrightarrow> iv_copy h iv = take 16 iv"
  by (rule nth_equalityI) (simp_all add: iv_copy_def)

section \<open>What mbedTLS documents\<close>

text \<open>With a key of a legal size and a 16-byte IV, both modes succeed, keep the length, and
  decryption inverts encryption: CBC when the decrypting context holds the decryption schedule of
  the same key; counter mode is its own inverse, and only under the encryption schedule. Nothing is
  promised of the other combinations.\<close>

definition aes_documented :: "'a aes_lib \<Rightarrow> bool" where
  "aes_documented aes \<longleftrightarrow> (\<forall>key iv p. length key \<in> {16, 24, 32} \<and> length iv = 16 \<longrightarrow>
     (let e = aes_setkey_enc aes (aes_init aes) key; d = aes_setkey_dec aes (aes_init aes) key
      in (\<exists>c. aes_crypt_ctr aes e iv p = Some c \<and> length c = length p \<and> aes_crypt_ctr aes e iv c = Some p) \<and>
         (length p mod 16 = 0 \<longrightarrow>
           (\<exists>c. aes_crypt_cbc aes e MBEDTLS_AES_ENCRYPT iv p = Some c \<and> length c = length p \<and>
             aes_crypt_cbc aes d MBEDTLS_AES_DECRYPT iv c = Some p))))"

text \<open>Feeding a digest piece by piece and finishing it gives the digest of the whole message.\<close>

definition digest_documented :: "'c digest_lib \<Rightarrow> (bytes \<Rightarrow> bytes \<Rightarrow> bytes) \<Rightarrow> (bytes \<Rightarrow> bytes) \<Rightarrow> bool" where
  "digest_documented md mac sha \<longleftrightarrow>
     (\<exists>state shastate.
       (\<forall>key. hmac_setup md key = Some (state key [])) \<and>
       (\<forall>key m d. hmac_update md (state key m) d = (True, state key (m @ d))) \<and>
       (\<forall>key m. fst (hmac_finish md (state key m)) = Some (mac key m)) \<and>
       sha512_starts md = shastate [] \<and>
       (\<forall>m d. sha512_update md (shastate m) d = (True, shastate (m @ d))) \<and>
       (\<forall>m. fst (sha512_finish md (shastate m)) = Some (sha m)))"

text \<open>How libsignal drives the callbacks: any number of updates.\<close>

fun hmac_updates :: "'c digest_lib \<Rightarrow> 'c \<Rightarrow> bytes list \<Rightarrow> 'c" where
  "hmac_updates md c [] = c"
| "hmac_updates md c (d # ds) = hmac_updates md (snd (hmac_sha256_update_func md c d)) ds"

fun sha512_updates :: "'c digest_lib \<Rightarrow> 'c \<Rightarrow> bytes list \<Rightarrow> 'c" where
  "sha512_updates md c [] = c"
| "sha512_updates md c (d # ds) = sha512_updates md (snd (sha512_digest_update_func md c d)) ds"

text \<open>Toy primitives that meet the documented laws: a context is its schedule's direction, the cipher
  adds 1 to every byte or flips all bits and fails or garbles under the wrong schedule; the digest
  is the message itself, and finishing wipes the context.\<close>

definition toy_aes :: "aes_mode option aes_lib" where
  "toy_aes = \<lparr>aes_init = None, aes_setkey_enc = (\<lambda>_ _. Some MBEDTLS_AES_ENCRYPT),
     aes_setkey_dec = (\<lambda>_ _. Some MBEDTLS_AES_DECRYPT),
     aes_crypt_ctr = (\<lambda>c _ p. Some (if c = Some MBEDTLS_AES_ENCRYPT then map (xor 0xFF) p else map (\<lambda>b. b + 1) p)),
     aes_crypt_cbc = (\<lambda>c m _ p. if c \<noteq> Some m then None
       else Some (map (\<lambda>b. if m = MBEDTLS_AES_ENCRYPT then b + 1 else b - 1) p))\<rparr>"

definition toy_digest :: "(bytes \<times> bytes) digest_lib" where
  "toy_digest = \<lparr>calloc_ok = True, hmac_setup = (\<lambda>key. Some (key, [])), hmac_update = (\<lambda>(k, m) d. (True, (k, m @ d))),
     hmac_finish = (\<lambda>(k, m). (Some (k @ m), ([], []))), sha512_starts = ([], []),
     sha512_update = (\<lambda>(k, m) d. (True, (k, m @ d))), sha512_finish = (\<lambda>(k, m). (Some m, ([], [])))\<rparr>"

lemma aes_documented_toy [simp]: "aes_documented toy_aes"
  by (simp add: aes_documented_def toy_aes_def comp_def flip: xor.assoc)

lemma digest_documented_toy: "digest_documented toy_digest (@) (\<lambda>m. m)"
  unfolding digest_documented_def toy_digest_def
  by (rule exI [of _ "\<lambda>key m. (key, m)"], rule exI [of _ "\<lambda>m. ([], m)"]) simp

lemma aes_documentedD:
  assumes "aes_documented aes" "length key \<in> {16, 24, 32}" "length iv = 16"
  shows "\<exists>c. aes_crypt_ctr aes (aes_setkey_enc aes (aes_init aes) key) iv p = Some c \<and> length c = length p \<and>
      aes_crypt_ctr aes (aes_setkey_enc aes (aes_init aes) key) iv c = Some p"
    and "length p mod 16 = 0 \<Longrightarrow>
      \<exists>c. aes_crypt_cbc aes (aes_setkey_enc aes (aes_init aes) key) MBEDTLS_AES_ENCRYPT iv p = Some c \<and>
        length c = length p \<and>
        aes_crypt_cbc aes (aes_setkey_dec aes (aes_init aes) key) MBEDTLS_AES_DECRYPT iv c = Some p"
  using assms(1) [unfolded aes_documented_def, rule_format, OF conjI, OF assms(2,3), of p]
  by (simp_all add: Let_def)

section \<open>Properties\<close>

text \<open>Property C23: what \<open>encrypt_func\<close> encrypts, \<open>decrypt_func\<close> decrypts to the same bytes, in
  both modes, for every plaintext, key of a legal size and IV of at least 16 bytes (only the first
  16 count). In CBC mode the ciphertext is a positive multiple of 16 bytes, longer than the
  plaintext by 1 to 16 bytes; in counter mode it has the plaintext's length.\<close>
theorem aes_roundtrip:
  assumes "aes_documented aes" and "heap_ok h" and "heap_ok h'"
    and "length key \<in> {16, 24, 32}" and "16 \<le> length iv"
  shows "(\<exists>c. encrypt_func aes h SG_CIPHER_AES_CBC_PKCS5 key iv p = Inr c \<and>
      decrypt_func aes h' SG_CIPHER_AES_CBC_PKCS5 key iv c = Some (Inr p) \<and>
      length c mod 16 = 0 \<and> length p < length c \<and> length c \<le> length p + 16) \<and>
    (\<exists>c. encrypt_func aes h SG_CIPHER_AES_CTR_NOPADDING key iv p = Inr c \<and>
      decrypt_func aes h' SG_CIPHER_AES_CTR_NOPADDING key iv c = Some (Inr p) \<and> length c = length p)"
proof
  have iv: "length (take 16 iv) = 16" using assms(5) by simp
  have "length (pkcs7_pad p) mod 16 = 0" by simp
  from aes_documentedD(2) [OF assms(1,4) iv this] obtain c where
    c: "aes_crypt_cbc aes (aes_setkey_enc aes (aes_init aes) key) MBEDTLS_AES_ENCRYPT (take 16 iv) (pkcs7_pad p) = Some c"
    "length c = length (pkcs7_pad p)"
    "aes_crypt_cbc aes (aes_setkey_dec aes (aes_init aes) key) MBEDTLS_AES_DECRYPT (take 16 iv) c = Some (pkcs7_pad p)"
    by blast
  have "c \<noteq> []" using c(2) by auto
  with c pkcs7_unpad [of p] assms(2,3) iv_copy_full [OF assms(5)] pad_bounds [of "length p"]
  show "\<exists>c. encrypt_func aes h SG_CIPHER_AES_CBC_PKCS5 key iv p = Inr c \<and>
      decrypt_func aes h' SG_CIPHER_AES_CBC_PKCS5 key iv c = Some (Inr p) \<and>
      length c mod 16 = 0 \<and> length p < length c \<and> length c \<le> length p + 16"
    by (intro exI [of _ c]) (auto simp: encrypt_func_def decrypt_func_def Let_def)
next
  have iv: "length (take 16 iv) = 16" using assms(5) by simp
  from aes_documentedD(1) [OF assms(1,4) iv] obtain c where
    c: "aes_crypt_ctr aes (aes_setkey_enc aes (aes_init aes) key) (take 16 iv) p = Some c" "length c = length p"
    "aes_crypt_ctr aes (aes_setkey_enc aes (aes_init aes) key) (take 16 iv) c = Some p" by blast
  with assms(2,3) iv_copy_full [OF assms(5)]
  show "\<exists>c. encrypt_func aes h SG_CIPHER_AES_CTR_NOPADDING key iv p = Inr c \<and>
      decrypt_func aes h' SG_CIPHER_AES_CTR_NOPADDING key iv c = Some (Inr p) \<and> length c = length p"
    by (intro exI [of _ c]) (simp add: encrypt_func_def decrypt_func_def Let_def)
qed

theorem aes_roundtrip_witness:
  "\<exists>c. encrypt_func toy_aes ample SG_CIPHER_AES_CBC_PKCS5 (replicate 16 0) (replicate 16 0) [1, 2, 3] = Inr c \<and>
     decrypt_func toy_aes ample SG_CIPHER_AES_CBC_PKCS5 (replicate 16 0) (replicate 16 0) c = Some (Inr [1, 2, 3]) \<and>
     length c = 16"
proof -
  have k: "length (replicate 16 (0 :: byte)) \<in> {16, 24, 32}" "16 \<le> length (replicate 16 (0 :: byte))" by simp_all
  from aes_roundtrip [OF aes_documented_toy heap_ok_ample heap_ok_ample k, of "[1, 2, 3]"] obtain c where
    "encrypt_func toy_aes ample SG_CIPHER_AES_CBC_PKCS5 (replicate 16 0) (replicate 16 0) [1, 2, 3] = Inr c"
    "decrypt_func toy_aes ample SG_CIPHER_AES_CBC_PKCS5 (replicate 16 0) (replicate 16 0) c = Some (Inr [1, 2, 3])"
    "length c mod 16 = 0" "3 < length c" "length c \<le> 19" by auto
  then show ?thesis by (intro exI [of _ c]) presburger
qed

text \<open>How CBC decryption treats input that \<open>encrypt_func\<close> did not produce. A length
  that is no multiple of 16 is refused; the empty ciphertext passes that check and makes the
  function read before its buffer; otherwise a result is returned that is a prefix of the
  decrypted buffer: shortened by the last byte's value when that is between 1 and 16, and the
  whole buffer, without any error, when it is not.\<close>
theorem cbc_decrypt_edges:
  assumes "heap_ok h" and "aes_crypt_cbc aes (aes_setkey_dec aes (aes_init aes) key) MBEDTLS_AES_DECRYPT (iv_copy h iv) ciphertext = Some buf" and "length buf = length ciphertext"
  shows "(length ciphertext mod 16 \<noteq> 0 \<longrightarrow>
      decrypt_func aes h SG_CIPHER_AES_CBC_PKCS5 key iv ciphertext = Some (Inl SG_ERR_UNKNOWN)) \<and>
    (decrypt_func aes h SG_CIPHER_AES_CBC_PKCS5 key iv ciphertext = None \<longleftrightarrow> ciphertext = []) \<and>
    (length ciphertext mod 16 = 0 \<and> ciphertext \<noteq> [] \<longrightarrow>
      decrypt_func aes h SG_CIPHER_AES_CBC_PKCS5 key iv ciphertext =
        Some (Inr (if unat (last buf) \<in> {1..16} then take (length buf - unat (last buf)) buf else buf)))"
proof (cases "ciphertext = []")
  case False
  with assms(3) have "last buf = buf ! (length ciphertext - 1)" by (metis last_conv_nth list.size(3) length_0_conv)
  with assms False show ?thesis by (auto simp: decrypt_func_def Let_def)
qed (use assms in \<open>simp add: decrypt_func_def\<close>)

theorem cbc_decrypt_edges_witness:
  "decrypt_func toy_aes ample SG_CIPHER_AES_CBC_PKCS5 [] [] [] = None \<and>
   decrypt_func toy_aes ample SG_CIPHER_AES_CBC_PKCS5 [] [] (replicate 16 101) = Some (Inr (replicate 16 100))"
proof -
  have t: "aes_crypt_cbc toy_aes (aes_setkey_dec toy_aes (aes_init toy_aes) []) MBEDTLS_AES_DECRYPT iv c =
      Some (map (\<lambda>b. b - 1) c)" for iv c by (simp add: toy_aes_def)
  from cbc_decrypt_edges [OF heap_ok_ample t [of "iv_copy ample []" "[]"]]
    cbc_decrypt_edges [OF heap_ok_ample t [of "iv_copy ample []" "replicate 16 101"]]
  show ?thesis by simp
qed

text \<open>The digest callbacks stream. However the message is cut into pieces, an HMAC
  context that was opened with a key and fed the pieces ends with the HMAC of their
  concatenation, and so does a SHA-512 context, which after its digest is ready for the next
  one: a second message on the same context gives that message's own digest.\<close>
theorem digests_stream:
  assumes "digest_documented md mac sha" and "heap_ok h" and "calloc_ok md"
  shows "(\<exists>c. hmac_sha256_init_func md key = Inr c \<and>
      fst (hmac_sha256_final_func md h (hmac_updates md c ds)) = Inr (mac key (concat ds))) \<and>
    (\<exists>c. sha512_digest_init_func md = Inr c \<and>
      fst (sha512_digest_final_func md h (sha512_updates md c ds)) = Inr (sha (concat ds)) \<and>
      fst (sha512_digest_final_func md h
        (sha512_updates md (snd (sha512_digest_final_func md h (sha512_updates md c ds))) es)) = Inr (sha (concat es)))"
proof -
  from assms(1) obtain st sst where
    k: "\<And>key. hmac_setup md key = Some (st key [])" "\<And>key m d. hmac_update md (st key m) d = (True, st key (m @ d))"
      "\<And>key m. fst (hmac_finish md (st key m)) = Some (mac key m)" and
    s: "sha512_starts md = sst []" "\<And>m d. sha512_update md (sst m) d = (True, sst (m @ d))"
      "\<And>m. fst (sha512_finish md (sst m)) = Some (sha m)"
    unfolding digest_documented_def by blast
  have "hmac_updates md (st key m) ds = st key (m @ concat ds)" for m ds
    by (induction ds arbitrary: m) (simp_all add: hmac_sha256_update_func_def k)
  moreover have "sha512_updates md (sst m) ds = sst (m @ concat ds)" for m ds
    by (induction ds arbitrary: m) (simp_all add: sha512_digest_update_func_def s)
  moreover have "fst (hmac_sha256_final_func md h (st key m)) = Inr (mac key m)" for m
    using assms(2) k(3) [of key m] by (cases "hmac_finish md (st key m)") (simp add: hmac_sha256_final_func_def)
  moreover have "sha512_digest_final_func md h (sst m) = (Inr (sha m), sst [])" for m
    using assms(2) s(3) [of m] by (cases "sha512_finish md (sst m)") (simp add: sha512_digest_final_func_def s(1))
  ultimately show ?thesis
    using assms(3) by (simp add: hmac_sha256_init_func_def sha512_digest_init_func_def k(1) s(1))
qed

theorem digests_stream_witness:
  "\<exists>c. hmac_sha256_init_func toy_digest [9] = Inr c \<and>
    fst (hmac_sha256_final_func toy_digest ample (hmac_updates toy_digest c [[1], [2, 3]])) = Inr [9, 1, 2, 3]"
  using digests_stream [OF digest_documented_toy heap_ok_ample, of "[9]" "[[1], [2, 3]]" "[]"]
  by (simp add: toy_digest_def)

end
