(* ===== verification/ProviderHeap.thy ===== *)
theory ProviderHeap
  imports Provider
begin

text \<open>
  The digest callbacks of \<open>provider.c\<close> as libsignal calls them: through the table that
  \<open>crypto_provider_fill\<close> fills, on contexts that are pointers to allocated memory. The store maps
  the addresses of live blocks to their contents. The allocator hands out an address that is not
  live (here: a fresh number, never 0, which is the null pointer) or fails. A call with a pointer
  that is not a live context of its kind (a double free, a use after free) has no behaviour:
  \<open>None\<close>. What the callbacks do to a context's contents is the functions of \<open>Provider\<close>.
\<close>

section \<open>Memory\<close>

text \<open>\<open>HmacCtx None\<close>: allocated and initialised, but not set up.\<close>

datatype 'c block = HmacCtx "'c option" | ShaCtx 'c

record 'c ctx_mem =
  ctx_at :: "nat \<Rightarrow> 'c block option"
  ctx_next :: nat
  calloc_fails :: "nat \<Rightarrow> bool"
  callocs :: nat

definition ctx_calloc :: "'c block \<Rightarrow> 'c ctx_mem \<Rightarrow> nat option \<times> 'c ctx_mem" where
  "ctx_calloc b m =
     (if calloc_fails m (callocs m) then (None, m\<lparr>callocs := Suc (callocs m)\<rparr>)
      else (Some (ctx_next m), m\<lparr>ctx_at := (ctx_at m)(ctx_next m \<mapsto> b), ctx_next := Suc (ctx_next m),
        callocs := Suc (callocs m)\<rparr>))"

definition ctx_set :: "nat \<Rightarrow> 'c block \<Rightarrow> 'c ctx_mem \<Rightarrow> 'c ctx_mem" where
  "ctx_set p b m = m\<lparr>ctx_at := (ctx_at m)(p \<mapsto> b)\<rparr>"

definition ctx_free :: "nat \<Rightarrow> 'c ctx_mem \<Rightarrow> 'c ctx_mem" where
  "ctx_free p m = m\<lparr>ctx_at := (ctx_at m)(p := None)\<rparr>"

section \<open>The callbacks on pointers\<close>

definition hmac_init_at :: "'c digest_lib \<Rightarrow> bytes \<Rightarrow> 'c ctx_mem \<Rightarrow> (sg_code + nat) \<times> 'c ctx_mem" where
  "hmac_init_at md key m =
     (case ctx_calloc (HmacCtx None) m of
        (None, m) \<Rightarrow> (Inl SG_ERR_NOMEM, m)
      | (Some p, m) \<Rightarrow>
          (case hmac_setup md key of
             None \<Rightarrow> (Inl SG_ERR_UNKNOWN, ctx_free p m)
           | Some c \<Rightarrow> (Inr p, ctx_set p (HmacCtx (Some c)) m)))"

definition hmac_update_at :: "'c digest_lib \<Rightarrow> nat \<Rightarrow> bytes \<Rightarrow> 'c ctx_mem \<Rightarrow> (sg_code \<times> 'c ctx_mem) option" where
  "hmac_update_at md p data m =
     (case ctx_at m p of
        Some (HmacCtx (Some c)) \<Rightarrow>
          (case hmac_sha256_update_func md c data of (r, c') \<Rightarrow> Some (r, ctx_set p (HmacCtx (Some c')) m))
      | _ \<Rightarrow> None)"

definition hmac_final_at :: "'c digest_lib \<Rightarrow> heap \<Rightarrow> nat \<Rightarrow> 'c ctx_mem \<Rightarrow> ((sg_code + bytes) \<times> 'c ctx_mem) option" where
  "hmac_final_at md h p m =
     (case ctx_at m p of
        Some (HmacCtx (Some c)) \<Rightarrow>
          (case hmac_sha256_final_func md h c of (r, c') \<Rightarrow> Some (r, ctx_set p (HmacCtx (Some c')) m))
      | _ \<Rightarrow> None)"

definition hmac_sha256_cleanup_func :: "nat \<Rightarrow> 'c ctx_mem \<Rightarrow> 'c ctx_mem option" where
  "hmac_sha256_cleanup_func p m =
     (if p = 0 then Some m
      else case ctx_at m p of Some (HmacCtx c) \<Rightarrow> Some (ctx_free p m) | _ \<Rightarrow> None)"

definition sha512_init_at :: "'c digest_lib \<Rightarrow> 'c ctx_mem \<Rightarrow> (sg_code + nat) \<times> 'c ctx_mem" where
  "sha512_init_at md m =
     (case ctx_calloc (ShaCtx (sha512_starts md)) m of
        (None, m) \<Rightarrow> (Inl SG_ERR_NOMEM, m)
      | (Some p, m) \<Rightarrow> (Inr p, m))"

definition sha512_update_at :: "'c digest_lib \<Rightarrow> nat \<Rightarrow> bytes \<Rightarrow> 'c ctx_mem \<Rightarrow> (sg_code \<times> 'c ctx_mem) option" where
  "sha512_update_at md p data m =
     (case ctx_at m p of
        Some (ShaCtx c) \<Rightarrow> (case sha512_digest_update_func md c data of (r, c') \<Rightarrow> Some (r, ctx_set p (ShaCtx c') m))
      | _ \<Rightarrow> None)"

definition sha512_final_at :: "'c digest_lib \<Rightarrow> heap \<Rightarrow> nat \<Rightarrow> 'c ctx_mem \<Rightarrow> ((sg_code + bytes) \<times> 'c ctx_mem) option" where
  "sha512_final_at md h p m =
     (case ctx_at m p of
        Some (ShaCtx c) \<Rightarrow> (case sha512_digest_final_func md h c of (r, c') \<Rightarrow> Some (r, ctx_set p (ShaCtx c') m))
      | _ \<Rightarrow> None)"

definition sha512_digest_cleanup_func :: "nat \<Rightarrow> 'c ctx_mem \<Rightarrow> 'c ctx_mem option" where
  "sha512_digest_cleanup_func p m =
     (if p = 0 then Some m
      else case ctx_at m p of Some (ShaCtx c) \<Rightarrow> Some (ctx_free p m) | _ \<Rightarrow> None)"

section \<open>The table\<close>

record 'c signal_crypto_provider =
  prov_random :: "nat \<Rightarrow> platform \<Rightarrow> (sg_code \<times> bytes) \<times> platform"
  prov_hmac_init :: "bytes \<Rightarrow> 'c ctx_mem \<Rightarrow> (sg_code + nat) \<times> 'c ctx_mem"
  prov_hmac_update :: "nat \<Rightarrow> bytes \<Rightarrow> 'c ctx_mem \<Rightarrow> (sg_code \<times> 'c ctx_mem) option"
  prov_hmac_final :: "nat \<Rightarrow> 'c ctx_mem \<Rightarrow> ((sg_code + bytes) \<times> 'c ctx_mem) option"
  prov_hmac_cleanup :: "nat \<Rightarrow> 'c ctx_mem \<Rightarrow> 'c ctx_mem option"
  prov_sha512_init :: "'c ctx_mem \<Rightarrow> (sg_code + nat) \<times> 'c ctx_mem"
  prov_sha512_update :: "nat \<Rightarrow> bytes \<Rightarrow> 'c ctx_mem \<Rightarrow> (sg_code \<times> 'c ctx_mem) option"
  prov_sha512_final :: "nat \<Rightarrow> 'c ctx_mem \<Rightarrow> ((sg_code + bytes) \<times> 'c ctx_mem) option"
  prov_sha512_cleanup :: "nat \<Rightarrow> 'c ctx_mem \<Rightarrow> 'c ctx_mem option"
  prov_encrypt :: "sg_cipher \<Rightarrow> bytes \<Rightarrow> bytes \<Rightarrow> bytes \<Rightarrow> sg_code + bytes"
  prov_decrypt :: "sg_cipher \<Rightarrow> bytes \<Rightarrow> bytes \<Rightarrow> bytes \<Rightarrow> (sg_code + bytes) option"

definition crypto_provider_fill :: "'a aes_lib \<Rightarrow> 'c digest_lib \<Rightarrow> heap \<Rightarrow> 'c signal_crypto_provider" where
  "crypto_provider_fill aes md h = \<lparr>
     prov_random = random_func,
     prov_hmac_init = hmac_init_at md,
     prov_hmac_update = hmac_update_at md,
     prov_hmac_final = hmac_final_at md h,
     prov_hmac_cleanup = hmac_sha256_cleanup_func,
     prov_sha512_init = sha512_init_at md,
     prov_sha512_update = sha512_update_at md,
     prov_sha512_final = sha512_final_at md h,
     prov_sha512_cleanup = sha512_digest_cleanup_func,
     prov_encrypt = encrypt_func aes h,
     prov_decrypt = decrypt_func aes h\<rparr>"

section \<open>Runs of calls\<close>

datatype ctx_call =
    HmacInit bytes
  | HmacUpdate (on_ctx: nat) bytes
  | HmacFinal (on_ctx: nat)
  | HmacCleanup (on_ctx: nat)
  | ShaInit
  | ShaUpdate (on_ctx: nat) bytes
  | ShaFinal (on_ctx: nat)
  | ShaCleanup (on_ctx: nat)

fun do_call :: "'c signal_crypto_provider \<Rightarrow> ctx_call \<Rightarrow> 'c ctx_mem \<Rightarrow> 'c ctx_mem option" where
  "do_call P (HmacInit key) m = Some (snd (prov_hmac_init P key m))"
| "do_call P (HmacUpdate p d) m = map_option snd (prov_hmac_update P p d m)"
| "do_call P (HmacFinal p) m = map_option snd (prov_hmac_final P p m)"
| "do_call P (HmacCleanup p) m = prov_hmac_cleanup P p m"
| "do_call P ShaInit m = Some (snd (prov_sha512_init P m))"
| "do_call P (ShaUpdate p d) m = map_option snd (prov_sha512_update P p d m)"
| "do_call P (ShaFinal p) m = map_option snd (prov_sha512_final P p m)"
| "do_call P (ShaCleanup p) m = prov_sha512_cleanup P p m"

fun run_calls :: "'c signal_crypto_provider \<Rightarrow> ctx_call list \<Rightarrow> 'c ctx_mem \<Rightarrow> 'c ctx_mem option" where
  "run_calls P [] m = Some m"
| "run_calls P (c # cs) m = (case do_call P c m of None \<Rightarrow> None | Some m' \<Rightarrow> run_calls P cs m')"

text \<open>The calls of a run feed context \<open>p\<close> and do nothing else to it; the data in order.\<close>

fun only_feeds :: "nat \<Rightarrow> ctx_call \<Rightarrow> bool" where
  "only_feeds p (HmacInit key) = True"
| "only_feeds p (HmacUpdate q d) = True"
| "only_feeds p (ShaUpdate q d) = True"
| "only_feeds p ShaInit = True"
| "only_feeds p (HmacFinal q) = (q \<noteq> p)"
| "only_feeds p (HmacCleanup q) = (q \<noteq> p)"
| "only_feeds p (ShaFinal q) = (q \<noteq> p)"
| "only_feeds p (ShaCleanup q) = (q \<noteq> p)"

fun fed :: "nat \<Rightarrow> ctx_call list \<Rightarrow> bytes" where
  "fed p [] = []"
| "fed p (HmacUpdate q d # cs) = (if q = p then d else []) @ fed p cs"
| "fed p (ShaUpdate q d # cs) = (if q = p then d else []) @ fed p cs"
| "fed p (c # cs) = fed p cs"

definition mem_ok :: "'c ctx_mem \<Rightarrow> bool" where
  "mem_ok m \<longleftrightarrow> 0 < ctx_next m \<and> (\<forall>p b. ctx_at m p = Some b \<longrightarrow> 0 < p \<and> p < ctx_next m)"

lemmas ctx_defs = hmac_init_at_def hmac_update_at_def hmac_final_at_def hmac_sha256_cleanup_func_def
  sha512_init_at_def sha512_update_at_def sha512_final_at_def sha512_digest_cleanup_func_def
  crypto_provider_fill_def ctx_calloc_def ctx_set_def ctx_free_def

lemma mem_okD:
  assumes "mem_ok m"
  shows "0 < ctx_next m" "ctx_at m p = Some b \<Longrightarrow> 0 < p" "ctx_at m p = Some b \<Longrightarrow> p < ctx_next m"
    "ctx_at m p = Some b \<Longrightarrow> p < Suc (ctx_next m)"
  using assms by (auto simp: mem_ok_def intro: less_SucI)

lemma mem_okI:
  "0 < ctx_next m \<Longrightarrow> (\<And>p b. ctx_at m p = Some b \<Longrightarrow> 0 < p \<and> p < ctx_next m) \<Longrightarrow> mem_ok m"
  by (simp add: mem_ok_def)

lemma do_call_ok:
  assumes "mem_ok m" "do_call (crypto_provider_fill aes md h) c m = Some m'"
  shows "mem_ok m'"
  using assms
  by (cases c) (auto simp: ctx_defs split: prod.splits option.splits block.splits if_splits
    intro!: mem_okI dest: mem_okD)

lemma do_call_others:
  assumes "mem_ok m" "do_call (crypto_provider_fill aes md h) c m = Some m'" "only_feeds p c"
    and "\<And>q d. c = HmacUpdate q d \<or> c = ShaUpdate q d \<Longrightarrow> q \<noteq> p" "ctx_at m p = Some b"
  shows "ctx_at m' p = Some b"
  using assms
  by (cases c) (auto simp: ctx_defs mem_ok_def split: prod.splits option.splits block.splits if_splits)

text \<open>A context keeps what it has been fed, whatever happens to the others.\<close>

lemma feeds_hmac:
  assumes "\<And>x d. hmac_update md (st x) d = (True, st (x @ d))"
    and "mem_ok m" "ctx_at m p = Some (HmacCtx (Some (st x)))" "list_all (only_feeds p) cs"
    and "run_calls (crypto_provider_fill aes md h) cs m = Some m'"
  shows "mem_ok m' \<and> ctx_at m' p = Some (HmacCtx (Some (st (x @ fed p cs))))"
  using assms(2-5)
proof (induction cs arbitrary: m x)
  case (Cons c cs)
  from Cons.prems obtain m1 where m1: "do_call (crypto_provider_fill aes md h) c m = Some m1"
    "run_calls (crypto_provider_fill aes md h) cs m1 = Some m'" by (auto split: option.splits)
  have ok: "mem_ok m1" using do_call_ok [OF Cons.prems(1) m1(1)] .
  show ?case
  proof (cases "\<exists>d. c = HmacUpdate p d \<or> c = ShaUpdate p d")
    case True
    then obtain d where "c = HmacUpdate p d \<or> c = ShaUpdate p d" by blast
    with m1(1) Cons.prems(2) have c: "c = HmacUpdate p d" and
      "ctx_at m1 p = Some (HmacCtx (Some (st (x @ d))))"
      by (auto simp: ctx_defs hmac_sha256_update_func_def assms(1))
    from Cons.IH [OF ok this(2) _ m1(2)] Cons.prems(3) show ?thesis by (simp add: c)
  next
    case False
    with Cons.prems do_call_others [OF Cons.prems(1) m1(1)]
    have "ctx_at m1 p = Some (HmacCtx (Some (st x)))" by auto
    from Cons.IH [OF ok this _ m1(2)] Cons.prems(3) have
      "mem_ok m' \<and> ctx_at m' p = Some (HmacCtx (Some (st (x @ fed p cs))))" by simp
    moreover have "fed p (c # cs) = fed p cs" using False by (cases c) auto
    ultimately show ?thesis by simp
  qed
qed simp

lemma feeds_sha:
  assumes "\<And>x d. sha512_update md (st x) d = (True, st (x @ d))"
    and "mem_ok m" "ctx_at m p = Some (ShaCtx (st x))" "list_all (only_feeds p) cs"
    and "run_calls (crypto_provider_fill aes md h) cs m = Some m'"
  shows "mem_ok m' \<and> ctx_at m' p = Some (ShaCtx (st (x @ fed p cs)))"
  using assms(2-5)
proof (induction cs arbitrary: m x)
  case (Cons c cs)
  from Cons.prems obtain m1 where m1: "do_call (crypto_provider_fill aes md h) c m = Some m1"
    "run_calls (crypto_provider_fill aes md h) cs m1 = Some m'" by (auto split: option.splits)
  have ok: "mem_ok m1" using do_call_ok [OF Cons.prems(1) m1(1)] .
  show ?case
  proof (cases "\<exists>d. c = HmacUpdate p d \<or> c = ShaUpdate p d")
    case True
    then obtain d where "c = HmacUpdate p d \<or> c = ShaUpdate p d" by blast
    with m1(1) Cons.prems(2) have c: "c = ShaUpdate p d" and "ctx_at m1 p = Some (ShaCtx (st (x @ d)))"
      by (auto simp: ctx_defs sha512_digest_update_func_def assms(1))
    from Cons.IH [OF ok this(2) _ m1(2)] Cons.prems(3) show ?thesis by (simp add: c)
  next
    case False
    with Cons.prems do_call_others [OF Cons.prems(1) m1(1)]
    have "ctx_at m1 p = Some (ShaCtx (st x))" by auto
    from Cons.IH [OF ok this _ m1(2)] Cons.prems(3) have
      "mem_ok m' \<and> ctx_at m' p = Some (ShaCtx (st (x @ fed p cs)))" by simp
    moreover have "fed p (c # cs) = fed p cs" using False by (cases c) auto
    ultimately show ?thesis by simp
  qed
qed simp

lemma fresh_block:
  assumes "mem_ok m"
  shows "ctx_at m (ctx_next m) = None" "0 < ctx_next m"
proof -
  have "ctx_at m (ctx_next m) \<noteq> Some b" for b
    using mem_okD(3) [OF assms, of "ctx_next m" b] by auto
  then show "ctx_at m (ctx_next m) = None" by auto
  show "0 < ctx_next m" by (rule mem_okD(1) [OF assms])
qed

lemma hmac_documented:
  assumes "digest_documented md mac sha"
  shows "\<exists>st. (\<forall>key. hmac_setup md key = Some (st key [])) \<and> (\<forall>key m d. hmac_update md (st key m) d = (True, st key (m @ d))) \<and>
    (\<forall>key m. fst (hmac_finish md (st key m)) = Some (mac key m))"
  using assms unfolding digest_documented_def by (elim exE conjE) (intro exI conjI; assumption)

lemma sha512_documented:
  assumes "digest_documented md mac sha"
  shows "\<exists>st. sha512_starts md = st [] \<and> (\<forall>m d. sha512_update md (st m) d = (True, st (m @ d))) \<and>
    (\<forall>m. fst (sha512_finish md (st m)) = Some (sha m))"
  using assms unfolding digest_documented_def by (elim exE conjE) (intro exI conjI; assumption)

lemma hmac_context:
  assumes "digest_documented md mac sha" "heap_ok h" "mem_ok m" "hmac_init_at md key m = (Inr p, m1)"
    and "list_all (only_feeds p) cs" "run_calls (crypto_provider_fill aes md h) cs m1 = Some m2"
  shows "ctx_at m p = None" "p \<noteq> 0"
    "\<exists>m3. hmac_final_at md h p m2 = Some (Inr (mac key (fed p cs)), m3) \<and> hmac_sha256_cleanup_func p m3 = Some (ctx_free p m2)"
    "hmac_sha256_cleanup_func p m2 = Some (ctx_free p m2)"
proof -
  obtain st where k: "(\<forall>key. hmac_setup md key = Some (st key [])) \<and> (\<forall>key m d. hmac_update md (st key m) d = (True, st key (m @ d))) \<and>
    (\<forall>key m. fst (hmac_finish md (st key m)) = Some (mac key m))"
    using hmac_documented [OF assms(1)] by (rule exE)
  have k: "hmac_setup md key = Some (st key [])" "hmac_update md (st key x) d = (True, st key (x @ d))"
    "fst (hmac_finish md (st key x)) = Some (mac key x)" for x d
    using k by simp_all
  have p: "p = ctx_next m" "ctx_at m1 p = Some (HmacCtx (Some (st key [])))"
    using assms(4) k(1) by (cases "calloc_fails m (callocs m)"; auto simp: hmac_init_at_def ctx_calloc_def ctx_set_def)+
  show z: "ctx_at m p = None" "p \<noteq> 0" using fresh_block [OF assms(3)] p(1) by simp_all
  have "do_call (crypto_provider_fill aes md h) (HmacInit key) m = Some m1"
    by (simp add: crypto_provider_fill_def assms(4))
  from do_call_ok [OF assms(3) this] have "mem_ok m1" .
  from feeds_hmac [of md "st key" m1 p "[]" cs aes h m2, OF k(2) this p(2) assms(5,6)] have c: "ctx_at m2 p = Some (HmacCtx (Some (st key (fed p cs))))" by simp
  show "hmac_sha256_cleanup_func p m2 = Some (ctx_free p m2)"
    using z(2) by (simp add: hmac_sha256_cleanup_func_def c)
  show "\<exists>m3. hmac_final_at md h p m2 = Some (Inr (mac key (fed p cs)), m3) \<and>
      hmac_sha256_cleanup_func p m3 = Some (ctx_free p m2)"
  proof -
    obtain c' where "hmac_finish md (st key (fed p cs)) = (Some (mac key (fed p cs)), c')"
      using k(3) [of "fed p cs"] by (cases "hmac_finish md (st key (fed p cs))") simp
    then have "hmac_sha256_final_func md h (st key (fed p cs)) = (Inr (mac key (fed p cs)), c')"
      using assms(2) unfolding hmac_sha256_final_func_def heap_ok_def by simp
    then have "hmac_final_at md h p m2 = Some (Inr (mac key (fed p cs)), ctx_set p (HmacCtx (Some c')) m2)"
      unfolding hmac_final_at_def c by simp
    moreover have "hmac_sha256_cleanup_func p (ctx_set p (HmacCtx (Some c')) m2) = Some (ctx_free p m2)"
      using z(2) by (simp add: hmac_sha256_cleanup_func_def ctx_set_def ctx_free_def)
    ultimately show ?thesis by blast
  qed
qed

lemma sha512_context:
  assumes "digest_documented md mac sha" "heap_ok h" "mem_ok m" "sha512_init_at md m = (Inr p, m1)"
    and "list_all (only_feeds p) cs" "run_calls (crypto_provider_fill aes md h) cs m1 = Some m2"
  shows "ctx_at m p = None" "p \<noteq> 0"
    "\<exists>m3. sha512_final_at md h p m2 = Some (Inr (sha (fed p cs)), m3) \<and> sha512_digest_cleanup_func p m3 = Some (ctx_free p m2)"
    "sha512_digest_cleanup_func p m2 = Some (ctx_free p m2)"
proof -
  obtain sst where k: "sha512_starts md = sst [] \<and> (\<forall>m d. sha512_update md (sst m) d = (True, sst (m @ d))) \<and>
    (\<forall>m. fst (sha512_finish md (sst m)) = Some (sha m))"
    using sha512_documented [OF assms(1)] by (rule exE)
  have k: "sha512_starts md = sst []" "sha512_update md (sst x) d = (True, sst (x @ d))"
    "fst (sha512_finish md (sst x)) = Some (sha x)" for x d
    using k by simp_all
  have p: "p = ctx_next m" "ctx_at m1 p = Some (ShaCtx (sst []))"
    using assms(4) k(1) by (cases "calloc_fails m (callocs m)"; auto simp: sha512_init_at_def ctx_calloc_def)+
  show z: "ctx_at m p = None" "p \<noteq> 0" using fresh_block [OF assms(3)] p(1) by simp_all
  have "do_call (crypto_provider_fill aes md h) ShaInit m = Some m1"
    by (simp add: crypto_provider_fill_def assms(4))
  from do_call_ok [OF assms(3) this] have "mem_ok m1" .
  from feeds_sha [of md sst m1 p "[]" cs aes h m2, OF k(2) this p(2) assms(5,6)] have c: "ctx_at m2 p = Some (ShaCtx (sst (fed p cs)))" by simp
  show "sha512_digest_cleanup_func p m2 = Some (ctx_free p m2)"
    using z(2) by (simp add: sha512_digest_cleanup_func_def c)
  show "\<exists>m3. sha512_final_at md h p m2 = Some (Inr (sha (fed p cs)), m3) \<and>
      sha512_digest_cleanup_func p m3 = Some (ctx_free p m2)"
  proof -
    have "sha512_digest_final_func md h (sst (fed p cs)) = (Inr (sha (fed p cs)), sst [])"
      using assms(2) k(3) [of "fed p cs"] by (cases "sha512_finish md (sst (fed p cs))")
        (simp add: sha512_digest_final_func_def k(1))
    then have "sha512_final_at md h p m2 = Some (Inr (sha (fed p cs)), ctx_set p (ShaCtx (sst [])) m2)"
      unfolding sha512_final_at_def c by simp
    moreover have "sha512_digest_cleanup_func p (ctx_set p (ShaCtx (sst [])) m2) = Some (ctx_free p m2)"
      using z(2) by (simp add: sha512_digest_cleanup_func_def ctx_set_def ctx_free_def)
    ultimately show ?thesis by blast
  qed
qed

lemma failed_init:
  assumes "mem_ok m"
  shows "hmac_init_at md key m = (Inl e, m1) \<Longrightarrow> ctx_at m1 = ctx_at m"
    and "sha512_init_at md m = (Inl e, m1) \<Longrightarrow> ctx_at m1 = ctx_at m"
proof -
  assume i: "hmac_init_at md key m = (Inl e, m1)"
  show "ctx_at m1 = ctx_at m"
  proof (cases "calloc_fails m (callocs m)")
    case True
    with i show ?thesis by (auto simp: hmac_init_at_def ctx_calloc_def)
  next
    case False
    with i have "ctx_at m1 = (ctx_at m)(ctx_next m := None)"
      by (cases "hmac_setup md key") (auto simp: hmac_init_at_def ctx_calloc_def ctx_free_def)
    with fresh_block [OF assms] show ?thesis by (simp add: fun_upd_idem)
  qed
next
  assume "sha512_init_at md m = (Inl e, m1)"
  then show "ctx_at m1 = ctx_at m"
    by (cases "calloc_fails m (callocs m)") (auto simp: sha512_init_at_def ctx_calloc_def)
qed

lemma fill_simps:
  "prov_hmac_init (crypto_provider_fill aes md h) = hmac_init_at md"
  "prov_hmac_final (crypto_provider_fill aes md h) = hmac_final_at md h"
  "prov_hmac_cleanup (crypto_provider_fill aes md h) = hmac_sha256_cleanup_func"
  "prov_sha512_init (crypto_provider_fill aes md h) = sha512_init_at md"
  "prov_sha512_final (crypto_provider_fill aes md h) = sha512_final_at md h"
  "prov_sha512_cleanup (crypto_provider_fill aes md h) = sha512_digest_cleanup_func"
  by (simp_all add: crypto_provider_fill_def)

section \<open>Properties\<close>

text \<open>Property C24: the digest callbacks on memory. A successful init gives a live context that no
  other call had; whatever calls on other contexts, of either kind, come between the updates of
  this one (inits that fail, finals and cleanups included), its final gives the HMAC under its key,
  or the SHA-512, of exactly the data it was fed; and its cleanup, after the final or without one, frees
  this block and nothing else. An init that fails, for lack of memory or in the library, leaves no block behind, and a
  cleanup of the null pointer does nothing.\<close>
theorem provider_contexts:
  fixes aes :: "'a aes_lib" and md :: "'c digest_lib" and h :: heap
  assumes "mem_ok m"
  defines "P \<equiv> crypto_provider_fill aes md h"
  shows "(digest_documented md mac sha \<and> heap_ok h \<and> list_all (only_feeds p) cs \<and> run_calls P cs m1 = Some m2 \<longrightarrow>
      (prov_hmac_init P key m = (Inr p, m1) \<longrightarrow> ctx_at m p = None \<and> p \<noteq> 0 \<and>
         (\<exists>m3. prov_hmac_final P p m2 = Some (Inr (mac key (fed p cs)), m3) \<and>
            prov_hmac_cleanup P p m3 = Some (ctx_free p m2)) \<and>
         prov_hmac_cleanup P p m2 = Some (ctx_free p m2)) \<and>
      (prov_sha512_init P m = (Inr p, m1) \<longrightarrow> ctx_at m p = None \<and> p \<noteq> 0 \<and>
         (\<exists>m3. prov_sha512_final P p m2 = Some (Inr (sha (fed p cs)), m3) \<and>
            prov_sha512_cleanup P p m3 = Some (ctx_free p m2)) \<and>
         prov_sha512_cleanup P p m2 = Some (ctx_free p m2))) \<and>
    (prov_hmac_init P key m = (Inl e, m1) \<or> prov_sha512_init P m = (Inl e, m1) \<longrightarrow> ctx_at m1 = ctx_at m) \<and>
    prov_hmac_cleanup P 0 m = Some m \<and> prov_sha512_cleanup P 0 m = Some m"
  unfolding P_def fill_simps
  using hmac_context [of md mac sha h m key p m1 cs aes m2] sha512_context [of md mac sha h m p m1 cs aes m2]
    failed_init [OF assms(1)] assms(1)
  by (auto simp: hmac_sha256_cleanup_func_def sha512_digest_cleanup_func_def)

text \<open>Two HMACs and a SHA-512 at once.\<close>

definition ex_mem :: "(bytes \<times> bytes) ctx_mem" where
  "ex_mem = \<lparr>ctx_at = Map.empty, ctx_next = 1, calloc_fails = (\<lambda>_. False), callocs = 0\<rparr>"

definition ex_calls :: "ctx_call list" where
  "ex_calls = [HmacUpdate 1 [1], HmacInit [8], HmacUpdate 2 [7], ShaInit, ShaUpdate 3 [6], HmacUpdate 1 [2, 3], HmacFinal 2,
     HmacCleanup 2, ShaFinal 3]"

theorem provider_contexts_witness:
  "\<exists>m1 m2 m3. prov_hmac_init (crypto_provider_fill toy_aes toy_digest ample) [9] ex_mem = (Inr 1, m1) \<and>
     run_calls (crypto_provider_fill toy_aes toy_digest ample) ex_calls m1 = Some m2 \<and>
     prov_hmac_final (crypto_provider_fill toy_aes toy_digest ample) 1 m2 = Some (Inr [9, 1, 2, 3], m3)"
proof -
  let ?P = "crypto_provider_fill toy_aes toy_digest ample"
  have m: "mem_ok ex_mem" by (simp add: mem_ok_def ex_mem_def)
  obtain m1 m2 where r: "prov_hmac_init ?P [9] ex_mem = (Inr 1, m1)" "run_calls ?P ex_calls m1 = Some m2"
    by (simp add: ctx_defs toy_digest_def ex_mem_def ex_calls_def hmac_sha256_update_func_def sha512_digest_update_func_def
        sha512_digest_final_func_def hmac_sha256_final_func_def)
  have "list_all (only_feeds 1) ex_calls" "fed 1 ex_calls = [1, 2, 3]" by (simp_all add: ex_calls_def)
  with provider_contexts [OF m, of toy_digest "(@)" "\<lambda>m. m" ample 1 ex_calls toy_aes m1 m2 "[9]"]
    digest_documented_toy heap_ok_ample r show ?thesis by auto
qed

end
