(* ===== verification/HostLock.thy ===== *)
theory HostLock
  imports Prelude
begin

text \<open>
  The recursive semaphore of the host shim, \<open>client/desktop/csrc/host_shim/shim.c\<close>, and the two
  functions of \<open>firmware/components/crypto/pcrypto.c\<close> that libsignal locks and unlocks with. The
  mutex under it is POSIX's: it has a type, fixed by its attributes when it is initialised, its
  holder and how often the holder has locked it. Threads are numbers.
\<close>

section \<open>POSIX mutexes\<close>

text \<open>Attributes are their type; a freshly initialised one is the default type.\<close>

datatype mutex_type = PTHREAD_MUTEX_DEFAULT | PTHREAD_MUTEX_RECURSIVE

record pthread_mutex =
  mutex_type :: mutex_type
  held :: "(nat \<times> nat) option"

definition pthread_mutexattr_init :: mutex_type where
  "pthread_mutexattr_init = PTHREAD_MUTEX_DEFAULT"

definition pthread_mutexattr_settype :: "mutex_type \<Rightarrow> mutex_type \<Rightarrow> mutex_type" where
  "pthread_mutexattr_settype attr ty = ty"

definition pthread_mutex_init :: "mutex_type \<Rightarrow> pthread_mutex" where
  "pthread_mutex_init attr = \<lparr>mutex_type = attr, held = None\<rparr>"

text \<open>\<open>None\<close>: the thread waits. On a mutex of the default type a thread that locks again waits for
  itself.\<close>

definition pthread_mutex_lock :: "nat \<Rightarrow> pthread_mutex \<Rightarrow> (int \<times> pthread_mutex) option" where
  "pthread_mutex_lock t m =
     (case held m of
        None \<Rightarrow> Some (0, m\<lparr>held := Some (t, 1)\<rparr>)
      | Some (t', n) \<Rightarrow>
          if t' = t \<and> mutex_type m = PTHREAD_MUTEX_RECURSIVE then Some (0, m\<lparr>held := Some (t, n + 1)\<rparr>) else None)"

text \<open>Unlocking a recursive mutex that the thread does not hold is an error and changes nothing; a
  default mutex is released by whoever unlocks it.\<close>

definition EPERM :: int where "EPERM = 1"

definition pthread_mutex_unlock :: "nat \<Rightarrow> pthread_mutex \<Rightarrow> int \<times> pthread_mutex" where
  "pthread_mutex_unlock t m =
     (case mutex_type m of
        PTHREAD_MUTEX_DEFAULT \<Rightarrow> (0, m\<lparr>held := None\<rparr>)
      | PTHREAD_MUTEX_RECURSIVE \<Rightarrow>
          (case held m of
             None \<Rightarrow> (EPERM, m)
           | Some (t', n) \<Rightarrow> if t' = t then (0, m\<lparr>held := (if n > 1 then Some (t, n - 1) else None)\<rparr>) else (EPERM, m)))"

section \<open>The semaphore\<close>

type_synonym semphr = pthread_mutex

text \<open>\<open>None\<close>: there is no memory for it.\<close>

definition xSemaphoreCreateRecursiveMutex :: "bool \<Rightarrow> semphr option" where
  "xSemaphoreCreateRecursiveMutex malloc_ok =
     (if \<not> malloc_ok then None
      else let attr = pthread_mutexattr_init;
               attr = pthread_mutexattr_settype attr PTHREAD_MUTEX_RECURSIVE
           in Some (pthread_mutex_init attr))"

text \<open>The timeout is ignored.\<close>

definition xSemaphoreTakeRecursive :: "nat \<Rightarrow> semphr \<Rightarrow> (bool \<times> semphr) option" where
  "xSemaphoreTakeRecursive t s = (case pthread_mutex_lock t s of None \<Rightarrow> None | Some (r, s) \<Rightarrow> Some (r = 0, s))"

definition xSemaphoreGiveRecursive :: "nat \<Rightarrow> semphr \<Rightarrow> bool \<times> semphr" where
  "xSemaphoreGiveRecursive t s = (case pthread_mutex_unlock t s of (r, s) \<Rightarrow> (r = 0, s))"

definition lock_func :: "nat \<Rightarrow> semphr \<Rightarrow> semphr option" where
  "lock_func t s = map_option snd (xSemaphoreTakeRecursive t s)"

definition unlock_func :: "nat \<Rightarrow> semphr \<Rightarrow> semphr" where
  "unlock_func t s = snd (xSemaphoreGiveRecursive t s)"

section \<open>Threads in libsignal\<close>

text \<open>The mutex, and for each thread how many calls of libsignal that lock it is inside of. A call
  locks on the way in and unlocks on the way out.\<close>

inductive lock_step :: "semphr \<times> (nat \<Rightarrow> nat) \<Rightarrow> semphr \<times> (nat \<Rightarrow> nat) \<Rightarrow> bool" where
  enter: "lock_func t s = Some s' \<Longrightarrow> lock_step (s, inside) (s', inside(t := inside t + 1))"
| leave: "inside t > 0 \<Longrightarrow> lock_step (s, inside) (unlock_func t s, inside(t := inside t - 1))"

inductive lock_reachable :: "semphr \<times> (nat \<Rightarrow> nat) \<Rightarrow> bool" where
  start: "xSemaphoreCreateRecursiveMutex True = Some s \<Longrightarrow> lock_reachable (s, \<lambda>_. 0)"
| step: "lock_reachable c \<Longrightarrow> lock_step c c' \<Longrightarrow> lock_reachable c'"

lemma lock_reachable_enter:
  "lock_reachable (s, inside) \<Longrightarrow> lock_func t s = Some s' \<Longrightarrow> inside' = inside(t := inside t + 1) \<Longrightarrow> lock_reachable (s', inside')"
  using lock_reachable.step [OF _ lock_step.enter [of t s s' inside]] by simp

text \<open>The invariant: the mutex is recursive, and only the holder is inside, as deep as it has locked.\<close>

definition lock_inv :: "semphr \<times> (nat \<Rightarrow> nat) \<Rightarrow> bool" where
  "lock_inv c \<longleftrightarrow> (case c of (s, inside) \<Rightarrow> mutex_type s = PTHREAD_MUTEX_RECURSIVE \<and>
     (case held s of
        None \<Rightarrow> \<forall>t. inside t = 0
      | Some (t, n) \<Rightarrow> n > 0 \<and> inside t = n \<and> (\<forall>t'. t' \<noteq> t \<longrightarrow> inside t' = 0)))"

lemmas lock_defs = lock_inv_def lock_func_def unlock_func_def xSemaphoreTakeRecursive_def xSemaphoreGiveRecursive_def
  pthread_mutex_lock_def pthread_mutex_unlock_def

lemma lock_inv_step: "lock_step c c' \<Longrightarrow> lock_inv c \<Longrightarrow> lock_inv c'"
proof (induction rule: lock_step.induct)
  case (enter t s s' inside)
  then show ?case by (auto simp: lock_defs split: if_splits option.splits prod.splits)
next
  case (leave inside t s)
  then show ?case by (auto simp: lock_defs split: if_splits option.splits)
qed

lemma lock_inv_create: "xSemaphoreCreateRecursiveMutex True = Some s \<Longrightarrow> lock_inv (s, \<lambda>_. 0)"
  by (auto simp: xSemaphoreCreateRecursiveMutex_def pthread_mutexattr_settype_def pthread_mutex_init_def lock_inv_def)

lemma lock_inv_reachable: "lock_reachable c \<Longrightarrow> lock_inv c"
  by (induction rule: lock_reachable.induct) (auto intro: lock_inv_step lock_inv_create)

text \<open>Property C40: mutual exclusion of libsignal. In every state that threads can reach by entering and
  leaving calls of libsignal that lock, nested as deep as they like, from the semaphore as it is
  created: at most one thread is inside; a thread that is inside can always enter again (no
  self-deadlock, because the mutex is created as a recursive one); a thread that leaves really
  holds the mutex; a thread waits exactly when another one is inside; and when nobody is inside,
  nobody holds the mutex.\<close>
theorem lock_excludes:
  assumes "lock_reachable (s, inside)"
  shows "(inside t > 0 \<and> inside t' > 0 \<longrightarrow> t = t') \<and>
    (inside t > 0 \<longrightarrow> lock_func t s \<noteq> None \<and> fst (xSemaphoreGiveRecursive t s)) \<and>
    (lock_func t s = None \<longleftrightarrow> (\<exists>u. u \<noteq> t \<and> inside u > 0)) \<and>
    ((\<forall>u. inside u = 0) \<longrightarrow> held s = None)"
proof -
  have i: "lock_inv (s, inside)" by (rule lock_inv_reachable [OF assms])
  show ?thesis
  proof (cases "held s")
    case None
    with i show ?thesis by (simp add: lock_defs)
  next
    case (Some p)
    obtain u n where p: "p = (u, n)" by (cases p)
    with i Some have "mutex_type s = PTHREAD_MUTEX_RECURSIVE" "n > 0" "\<And>t'. inside t' = (if t' = u then n else 0)"
      by (auto simp: lock_inv_def)
    then show ?thesis by (auto simp: Some p lock_defs split: if_splits)
  qed
qed

text \<open>Thread 0 inside twice; thread 1 waits, thread 0 does not.\<close>

theorem lock_excludes_witness:
  "\<exists>s. lock_reachable (s, (\<lambda>_. 0)(0 := 2)) \<and> held s = Some (0, 2) \<and> lock_func 1 s = None \<and> lock_func 0 s \<noteq> None"
proof -
  let ?s = "\<lambda>h. \<lparr>mutex_type = PTHREAD_MUTEX_RECURSIVE, held = h\<rparr>"
  have "xSemaphoreCreateRecursiveMutex True = Some (?s None)"
    by (simp add: xSemaphoreCreateRecursiveMutex_def pthread_mutexattr_settype_def pthread_mutex_init_def)
  then have "lock_reachable (?s None, \<lambda>_. 0)" by (rule lock_reachable.start)
  then have "lock_reachable (?s (Some (0, 1)), (\<lambda>_. 0)(0 := 1))"
    by (rule lock_reachable_enter [where t = 0]) (simp_all add: lock_defs)
  then have r: "lock_reachable (?s (Some (0, 2)), (\<lambda>_. 0)(0 := 2))"
    by (rule lock_reachable_enter [where t = 0]) (simp_all add: lock_defs fun_eq_iff)
  have "lock_func 1 (?s (Some (0, 2))) = None" using lock_excludes [OF r, of 1 0] by simp
  moreover have "lock_func 0 (?s (Some (0, 2))) \<noteq> None" using lock_excludes [OF r, of 0 0] by simp
  ultimately show ?thesis using r by (intro exI [of _ "?s (Some (0, 2))"]) simp
qed

end
