(* ===== verification/Pkt.thy ===== *)
theory Pkt
  imports Prelude
begin

text \<open>
  The frame format: \<open>firmware/components/mesh/include/pkt.h\<close> and \<open>mesh/pkt.c\<close>.
  A header is a record with the fields of the packed struct \<open>pkt_hdr_t\<close>; its memory image
  (what \<open>memcpy(out, &h, PKT_HDR_LEN)\<close> copies) is \<open>hdr_bytes\<close>. A return value 0 of
  \<open>pkt_encode\<close> and \<open>false\<close> of \<open>pkt_decode\<close> are \<open>None\<close>.
\<close>

section \<open>Constants and the header\<close>

definition PKT_NODE_ID_LEN :: nat where "PKT_NODE_ID_LEN = 8"
definition PKT_MSG_ID_LEN :: nat where "PKT_MSG_ID_LEN = 16"
definition PKT_SIG_LEN :: nat where "PKT_SIG_LEN = 16"
definition PKT_MAX_PAYLOAD :: nat where "PKT_MAX_PAYLOAD = 200"
definition PKT_TTL_DEFAULT :: byte where "PKT_TTL_DEFAULT = 8"

definition PKT_TYPE_DATA :: byte where "PKT_TYPE_DATA = 0x01"
definition PKT_TYPE_BEACON :: byte where "PKT_TYPE_BEACON = 0x02"
definition PKT_TYPE_KEY_BUNDLE :: byte where "PKT_TYPE_KEY_BUNDLE = 0x03"

lemmas pkt_consts = PKT_NODE_ID_LEN_def PKT_MSG_ID_LEN_def PKT_SIG_LEN_def PKT_MAX_PAYLOAD_def
  PKT_TTL_DEFAULT_def PKT_TYPE_DATA_def PKT_TYPE_BEACON_def PKT_TYPE_KEY_BUNDLE_def

record pkt_hdr =
  pkt_type :: byte
  msg_id :: bytes
  src_id :: bytes
  dst_id :: bytes
  ttl :: byte
  timestamp :: u32
  payload_len :: byte

text \<open>The sizes that the C array types of the struct enforce.\<close>

definition wf_hdr :: "pkt_hdr \<Rightarrow> bool" where
  "wf_hdr h \<longleftrightarrow> length (msg_id h) = PKT_MSG_ID_LEN \<and>
     length (src_id h) = PKT_NODE_ID_LEN \<and> length (dst_id h) = PKT_NODE_ID_LEN"

definition hdr_bytes :: "pkt_hdr \<Rightarrow> bytes" where
  "hdr_bytes h = [pkt_type h] @ msg_id h @ src_id h @ dst_id h @ [ttl h]
     @ le32 (timestamp h) @ [payload_len h]"

definition PKT_HDR_LEN :: nat where
  "PKT_HDR_LEN = 1 + PKT_MSG_ID_LEN + PKT_NODE_ID_LEN + PKT_NODE_ID_LEN + 1 + 4 + 1"

definition PKT_MAX_WIRE_LEN :: nat where
  "PKT_MAX_WIRE_LEN = PKT_HDR_LEN + PKT_MAX_PAYLOAD + PKT_SIG_LEN"

text \<open>\<open>memcpy(hdr_out, in, PKT_HDR_LEN)\<close>: the struct read back from its memory image.\<close>

definition hdr_of_bytes :: "bytes \<Rightarrow> pkt_hdr" where
  "hdr_of_bytes b = \<lparr>
     pkt_type = b ! 0,
     msg_id = take 16 (drop 1 b),
     src_id = take 8 (drop 17 b),
     dst_id = take 8 (drop 25 b),
     ttl = b ! 33,
     timestamp = from_le32 (take 4 (drop 34 b)),
     payload_len = b ! 38\<rparr>"

section \<open>Encoding and decoding\<close>

text \<open>The space for the transmission-layer signature, only in \<open>DATA\<close> frames.\<close>

definition sig_len :: "byte \<Rightarrow> nat" where
  "sig_len t = (if t = PKT_TYPE_DATA then PKT_SIG_LEN else 0)"

definition pkt_encode :: "nat \<Rightarrow> pkt_hdr \<Rightarrow> bytes \<Rightarrow> byte \<Rightarrow> bytes option" where
  "pkt_encode out_cap hdr payload plen =
     (let sl = sig_len (pkt_type hdr);
          total = PKT_HDR_LEN + unat plen + sl
      in if total > out_cap then None
         else let h = hdr\<lparr>payload_len := plen\<rparr>
              in Some (hdr_bytes h @ take (unat plen) payload @ replicate sl 0))"

text \<open>
  The payload pointer of the C function points into the input buffer, just after the header:
  in the model it is the rest of the buffer from there on.
\<close>

definition pkt_decode :: "bytes \<Rightarrow> (pkt_hdr \<times> bytes) option" where
  "pkt_decode inp =
     (if length inp < PKT_HDR_LEN then None
      else let hdr = hdr_of_bytes (take PKT_HDR_LEN inp);
               expected = PKT_HDR_LEN + unat (payload_len hdr) + sig_len (pkt_type hdr)
           in if length inp < expected then None
              else Some (hdr, drop PKT_HDR_LEN inp))"

section \<open>Facts about the image of a header\<close>

lemma PKT_HDR_LEN_39: "PKT_HDR_LEN = 39"
  by (simp add: PKT_HDR_LEN_def pkt_consts)

lemma PKT_MAX_WIRE_LEN_255: "PKT_MAX_WIRE_LEN = 255"
  by (simp add: PKT_MAX_WIRE_LEN_def PKT_HDR_LEN_39 pkt_consts)

lemmas pkt_lens = PKT_HDR_LEN_39 PKT_MAX_WIRE_LEN_255

lemma length_hdr_bytes [len_simps]: "wf_hdr h \<Longrightarrow> length (hdr_bytes h) = PKT_HDR_LEN"
  by (simp add: wf_hdr_def hdr_bytes_def PKT_HDR_LEN_39 pkt_consts)

lemma wf_hdr_update [simp]:
  "wf_hdr (h\<lparr>payload_len := n\<rparr>) = wf_hdr h" "wf_hdr (h\<lparr>ttl := t\<rparr>) = wf_hdr h"
  "wf_hdr (h\<lparr>timestamp := w\<rparr>) = wf_hdr h" "wf_hdr (h\<lparr>pkt_type := b\<rparr>) = wf_hdr h"
  by (simp_all add: wf_hdr_def)

lemma hdr_of_bytes_wf: "PKT_HDR_LEN \<le> length b \<Longrightarrow> wf_hdr (hdr_of_bytes b)"
  by (simp add: wf_hdr_def hdr_of_bytes_def PKT_HDR_LEN_39 pkt_consts)

lemma hdr_of_hdr_bytes [simp]:
  assumes "wf_hdr h" shows "hdr_of_bytes (hdr_bytes h) = h"
proof -
  have m: "length (msg_id h) = 16" and s: "length (src_id h) = 8" and d: "length (dst_id h) = 8"
    using assms by (simp_all add: wf_hdr_def pkt_consts)
  let ?b = "hdr_bytes h"
  have 1: "take 16 (drop 1 ?b) = msg_id h" using m by (simp add: hdr_bytes_def)
  have 2: "take 8 (drop 17 ?b) = src_id h" using m s by (simp add: hdr_bytes_def)
  have 3: "take 8 (drop 25 ?b) = dst_id h" using m s d by (simp add: hdr_bytes_def)
  have 4: "?b ! 33 = ttl h" using m s d by (simp add: hdr_bytes_def nth_append)
  have 5: "take 4 (drop 34 ?b) = le32 (timestamp h)" using m s d by (simp add: hdr_bytes_def)
  have 6: "?b ! 38 = payload_len h" using m s d by (simp add: hdr_bytes_def nth_append)
  have 7: "?b ! 0 = pkt_type h" by (simp add: hdr_bytes_def)
  show ?thesis
    unfolding hdr_of_bytes_def 1 2 3 4 5 6 7 by simp
qed

lemma hdr_bytes_of_bytes:
  assumes "length b = PKT_HDR_LEN" shows "hdr_bytes (hdr_of_bytes b) = b"
proof -
  have l: "length b = 39" using assms by (simp add: PKT_HDR_LEN_39)
  have "b = take 1 b @ take 16 (drop 1 b) @ take 8 (drop 17 b) @ take 8 (drop 25 b)
      @ take 1 (drop 33 b) @ take 4 (drop 34 b) @ take 1 (drop 38 b)"
  proof -
    have "drop 38 b = take 1 (drop 38 b)" using l by simp
    then show ?thesis
      using append_take_drop_id [of 1 b] append_take_drop_id [of 16 "drop 1 b"]
        append_take_drop_id [of 8 "drop 17 b"] append_take_drop_id [of 8 "drop 25 b"]
        append_take_drop_id [of 1 "drop 33 b"] append_take_drop_id [of 4 "drop 34 b"]
      by (simp add: drop_drop)
  qed
  moreover have "take 1 b = [b ! 0]" using l nth_split [of 0 b] by simp
  moreover have "take 1 (drop 33 b) = [b ! 33]" using l by (simp only: nth_split)
  moreover have "take 1 (drop 38 b) = [b ! 38]" using l by (simp only: nth_split)
  moreover have "le32 (from_le32 (take 4 (drop 34 b))) = take 4 (drop 34 b)"
    using l by (intro le32_from_le32) simp
  ultimately show ?thesis
    by (simp add: hdr_bytes_def hdr_of_bytes_def)
qed

lemma sig_len_le: "sig_len t \<le> PKT_SIG_LEN"
  by (simp add: sig_len_def)

lemma pkt_encode_Some_iff:
  "pkt_encode cap h p n = Some w \<longleftrightarrow>
     PKT_HDR_LEN + unat n + sig_len (pkt_type h) \<le> cap \<and>
     w = hdr_bytes (h\<lparr>payload_len := n\<rparr>) @ take (unat n) p @ replicate (sig_len (pkt_type h)) 0"
  by (auto simp: pkt_encode_def Let_def)

lemma pkt_encode_None_iff:
  "pkt_encode cap h p n = None \<longleftrightarrow> cap < PKT_HDR_LEN + unat n + sig_len (pkt_type h)"
  by (auto simp: pkt_encode_def Let_def)

lemma length_pkt_encode:
  assumes "wf_hdr h" "unat n \<le> length p" "pkt_encode cap h p n = Some w"
  shows "length w = PKT_HDR_LEN + unat n + sig_len (pkt_type h)"
  using assms by (simp add: pkt_encode_Some_iff len_simps)

lemma pkt_decode_Some_iff:
  "pkt_decode inp = Some (h, p) \<longleftrightarrow>
     PKT_HDR_LEN \<le> length inp \<and> h = hdr_of_bytes (take PKT_HDR_LEN inp) \<and>
     PKT_HDR_LEN + unat (payload_len h) + sig_len (pkt_type h) \<le> length inp \<and>
     p = drop PKT_HDR_LEN inp"
  by (auto simp: pkt_decode_def Let_def)

lemma pkt_decode_wf:
  assumes "pkt_decode inp = Some (h, p)"
  shows "wf_hdr h" "unat (payload_len h) + sig_len (pkt_type h) \<le> length p"
    "length p = length inp - PKT_HDR_LEN"
  using assms by (auto simp: pkt_decode_Some_iff hdr_of_bytes_wf)

lemma pkt_decode_encoded:
  assumes "wf_hdr h" "unat n \<le> length p" "pkt_encode cap h p n = Some w"
  shows "pkt_decode (w @ rest) =
     Some (h\<lparr>payload_len := n\<rparr>, take (unat n) p @ replicate (sig_len (pkt_type h)) 0 @ rest)"
proof -
  have w: "w = hdr_bytes (h\<lparr>payload_len := n\<rparr>) @ take (unat n) p @ replicate (sig_len (pkt_type h)) 0"
    using assms(3) by (simp add: pkt_encode_Some_iff)
  have len: "length (hdr_bytes (h\<lparr>payload_len := n\<rparr>)) = PKT_HDR_LEN"
    using assms(1) by (simp add: length_hdr_bytes)
  show ?thesis
    using assms(1,2) by (simp add: w pkt_decode_Some_iff len)
qed

section \<open>Properties\<close>

definition ex_hdr :: pkt_hdr where
  "ex_hdr = \<lparr>pkt_type = PKT_TYPE_DATA, msg_id = replicate 16 7, src_id = replicate 8 1,
     dst_id = replicate 8 2, ttl = 8, timestamp = 77, payload_len = 0\<rparr>"

lemma wf_ex_hdr [simp]: "wf_hdr ex_hdr"
  by (simp add: wf_hdr_def ex_hdr_def pkt_consts)

lemma ex_hdr_fields [simp]: "pkt_type ex_hdr = PKT_TYPE_DATA" "sig_len PKT_TYPE_DATA = 16"
  "payload_len ex_hdr = 0"
  by (simp_all add: ex_hdr_def sig_len_def pkt_consts)

lemma length_ex_hdr [simp]: "length (hdr_bytes ex_hdr) = 39"
    "length (hdr_bytes (ex_hdr\<lparr>payload_len := n\<rparr>)) = 39"
  by (simp_all add: length_hdr_bytes PKT_HDR_LEN_39)

text \<open>Property C25: whatever \<open>pkt_encode\<close> puts on the wire, \<open>pkt_decode\<close> reads back: the same
  header (with the payload length that was sent), the payload, and after it only the signature
  space and whatever bytes the radio appended.\<close>
theorem pkt_roundtrip:
  assumes "wf_hdr h" and "unat n \<le> length p" and "pkt_encode cap h p n = Some w"
  shows "\<exists>tail. pkt_decode (w @ rest) = Some (h\<lparr>payload_len := n\<rparr>, take (unat n) p @ tail)
    \<and> tail = replicate (sig_len (pkt_type h)) 0 @ rest"
  using pkt_decode_encoded [OF assms, of rest] by simp

theorem pkt_roundtrip_witness:
  "\<exists>w. pkt_encode 255 ex_hdr [10, 20, 30] 3 = Some w \<and>
     pkt_decode w = Some (ex_hdr\<lparr>payload_len := 3\<rparr>, [10, 20, 30] @ replicate 16 0)"
proof -
  obtain w where w: "pkt_encode 255 ex_hdr [10, 20, 30] 3 = Some w"
    by (simp add: pkt_encode_def Let_def PKT_HDR_LEN_39)
  have "unat (3 :: byte) \<le> length [10, 20, 30 :: byte]" by simp
  from pkt_roundtrip [OF wf_ex_hdr this w, of "[]"] w show ?thesis
    by auto
qed

text \<open>Bounds of the encoder: \<open>pkt_encode\<close> refuses exactly when header, payload and signature space do not
  fit the output capacity, and otherwise writes exactly that many bytes, never more than the
  capacity; with the wire buffer of the code (255 bytes) and a payload of at most 200 bytes it
  never refuses.\<close>
theorem pkt_encode_bounds:
  assumes "wf_hdr h" and "unat n \<le> length p"
  shows "case pkt_encode cap h p n of
       None \<Rightarrow> cap < PKT_HDR_LEN + unat n + sig_len (pkt_type h) \<and>
               (cap < PKT_MAX_WIRE_LEN \<or> PKT_MAX_PAYLOAD < unat n)
     | Some w \<Rightarrow> length w = PKT_HDR_LEN + unat n + sig_len (pkt_type h) \<and> length w \<le> cap"
proof (cases "pkt_encode cap h p n")
  case None
  then have lt: "cap < PKT_HDR_LEN + unat n + sig_len (pkt_type h)"
    by (simp add: pkt_encode_None_iff)
  then have "cap < PKT_MAX_WIRE_LEN \<or> PKT_MAX_PAYLOAD < unat n"
    using sig_len_le [of "pkt_type h"] by (auto simp: pkt_lens pkt_consts)
  with None lt show ?thesis by simp
next
  case (Some w)
  then have "PKT_HDR_LEN + unat n + sig_len (pkt_type h) \<le> cap"
    by (simp add: pkt_encode_Some_iff)
  with Some length_pkt_encode [OF assms Some] show ?thesis by simp
qed

theorem pkt_encode_bounds_witness:
  "pkt_encode 41 ex_hdr [10, 20, 30] 3 = None \<and>
   (\<exists>w. pkt_encode 255 ex_hdr [10, 20, 30] 3 = Some w \<and> length w = 58)"
proof -
  have l: "unat (3 :: byte) \<le> length [10, 20, 30 :: byte]" by simp
  show ?thesis
    using pkt_encode_bounds [OF wf_ex_hdr l, of 41] pkt_encode_bounds [OF wf_ex_hdr l, of 255]
    by (auto split: option.splits simp: PKT_HDR_LEN_39)
qed

text \<open>Property C26: \<open>pkt_decode\<close> accepts a buffer exactly when it holds a whole header, the
  payload length the header announces and, for \<open>DATA\<close>, the signature space; so the payload
  pointer always has \<open>payload_len\<close> bytes behind it, and a \<open>DATA\<close> frame that fits one radio
  packet (255 bytes) never announces more than the 200 bytes of the plaintext buffer.\<close>
theorem pkt_decode_safe:
  "(pkt_decode inp = None \<longleftrightarrow> length inp < PKT_HDR_LEN \<or>
      length inp < PKT_HDR_LEN + unat (inp ! 38) + sig_len (inp ! 0)) \<and>
   (\<forall>h p. pkt_decode inp = Some (h, p) \<longrightarrow>
      wf_hdr h \<and> inp = hdr_bytes h @ p \<and>
      unat (payload_len h) + sig_len (pkt_type h) \<le> length p \<and>
      (length inp \<le> 255 \<and> pkt_type h = PKT_TYPE_DATA \<longrightarrow> unat (payload_len h) \<le> PKT_MAX_PAYLOAD))"
proof (intro conjI allI impI)
  show "pkt_decode inp = None \<longleftrightarrow> length inp < PKT_HDR_LEN \<or>
      length inp < PKT_HDR_LEN + unat (inp ! 38) + sig_len (inp ! 0)"
    by (auto simp: pkt_decode_def Let_def hdr_of_bytes_def PKT_HDR_LEN_39)
next
  fix h p
  assume d: "pkt_decode inp = Some (h, p)"
  note wf = pkt_decode_wf [OF d]
  show "wf_hdr h" by (rule wf)
  show "unat (payload_len h) + sig_len (pkt_type h) \<le> length p" by (rule wf)
  show "inp = hdr_bytes h @ p"
    using d hdr_bytes_of_bytes [of "take PKT_HDR_LEN inp"] by (auto simp: pkt_decode_Some_iff)
  assume "length inp \<le> 255 \<and> pkt_type h = PKT_TYPE_DATA"
  then have "unat (payload_len h) + 16 \<le> length inp - 39" "length inp \<le> 255"
    using wf(2,3) by (auto simp: sig_len_def pkt_consts PKT_HDR_LEN_39)
  then show "unat (payload_len h) \<le> PKT_MAX_PAYLOAD"
    by (simp add: pkt_consts)
qed

theorem pkt_decode_safe_witness:
  "\<exists>h p. pkt_decode (hdr_bytes (ex_hdr\<lparr>payload_len := 1\<rparr>) @ replicate 17 9) = Some (h, p) \<and> wf_hdr h \<and>
     unat (payload_len h) \<le> PKT_MAX_PAYLOAD"
proof -
  let ?b = "hdr_bytes (ex_hdr\<lparr>payload_len := 1\<rparr>) @ replicate 17 9"
  have d: "pkt_decode ?b = Some (ex_hdr\<lparr>payload_len := 1\<rparr>, replicate 17 9)"
    by (simp add: pkt_decode_Some_iff PKT_HDR_LEN_39)
  from pkt_decode_safe [of ?b] d have "wf_hdr (ex_hdr\<lparr>payload_len := 1\<rparr>)" by blast
  with d show ?thesis by (simp add: pkt_consts)
qed

text \<open>A relay that decodes a frame and encodes it again with the header's own payload
  length reproduces the frame: the same bytes up to the signature space, which comes out zeroed
  (trailing bytes beyond the announced length are dropped).\<close>
theorem pkt_reencode:
  assumes "pkt_decode inp = Some (h, p)" and "length inp \<le> cap"
  shows "pkt_encode cap h p (payload_len h) =
     Some (take (PKT_HDR_LEN + unat (payload_len h)) inp @ replicate (sig_len (pkt_type h)) 0)"
proof -
  from assms(1) have len: "PKT_HDR_LEN \<le> length inp" and h: "h = hdr_of_bytes (take PKT_HDR_LEN inp)"
    and p: "p = drop PKT_HDR_LEN inp"
    and fit: "PKT_HDR_LEN + unat (payload_len h) + sig_len (pkt_type h) \<le> length inp"
    by (auto simp: pkt_decode_Some_iff)
  from len have "hdr_bytes h = take PKT_HDR_LEN inp" unfolding h by (intro hdr_bytes_of_bytes) simp
  moreover have "h\<lparr>payload_len := payload_len h\<rparr> = h" by simp
  ultimately show ?thesis
    using fit assms(2) by (simp add: pkt_encode_Some_iff p take_add)
qed

theorem pkt_reencode_witness:
  "let b = hdr_bytes ex_hdr @ replicate 16 9 in
   \<exists>h p. pkt_decode b = Some (h, p) \<and>
     pkt_encode 255 h p (payload_len h) = Some (hdr_bytes ex_hdr @ replicate 16 0)"
proof -
  let ?b = "hdr_bytes ex_hdr @ replicate 16 9"
  have d: "pkt_decode ?b = Some (ex_hdr, replicate 16 9)"
    by (simp add: pkt_decode_Some_iff PKT_HDR_LEN_39)
  have "length ?b \<le> 255" by simp
  from pkt_reencode [OF d this] d show ?thesis
    by (simp add: PKT_HDR_LEN_39)
qed

end
