(* ===== verification/SeenWindow.thy ===== *)
theory SeenWindow
  imports Prelude
begin

text \<open>
  The contract of a "have I seen this before" memory of bounded capacity, as the routing code
  relies on it: one operation \<open>mark\<close> that tells whether an item was seen and remembers it, and
  an abstract view \<open>recent\<close> (newest first) of what is remembered. The lemmas say for how many
  new items a remembered one stays known, and when it is forgotten.
\<close>

text \<open>The abstract specification: a first-in first-out window of at most \<open>cap\<close> items.\<close>

definition fifo_mark :: "nat \<Rightarrow> 'm \<Rightarrow> 'm list \<Rightarrow> bool \<times> 'm list" where
  "fifo_mark cap m xs = (if m \<in> set xs then (True, xs) else (False, take cap (m # xs)))"

text \<open>Running \<open>mark\<close> over a sequence: the final state, and how many of the items were new.\<close>

fun mark_all :: "('m \<Rightarrow> 's \<Rightarrow> bool \<times> 's) \<Rightarrow> 'm list \<Rightarrow> 's \<Rightarrow> 's" where
  "mark_all mark [] s = s"
| "mark_all mark (m # ms) s = mark_all mark ms (snd (mark m s))"

fun fresh_marks :: "('m \<Rightarrow> 's \<Rightarrow> bool \<times> 's) \<Rightarrow> 'm list \<Rightarrow> 's \<Rightarrow> nat" where
  "fresh_marks mark [] s = 0"
| "fresh_marks mark (m # ms) s =
     (if fst (mark m s) then 0 else 1) + fresh_marks mark ms (snd (mark m s))"

lemma mark_all_append: "mark_all mark (ms @ ms') s = mark_all mark ms' (mark_all mark ms s)"
  by (induction ms arbitrary: s) simp_all

lemma fresh_marks_le: "fresh_marks mark ms s \<le> length ms"
  by (induction ms arbitrary: s) (auto intro: le_SucI)

locale seen_window =
  fixes mark :: "'m \<Rightarrow> 's \<Rightarrow> bool \<times> 's"
    and recent :: "'s \<Rightarrow> 'm list"
    and ok :: "'s \<Rightarrow> bool"
    and cap :: nat
  assumes mark_spec: "ok s \<Longrightarrow> (fst (mark m s), recent (snd (mark m s))) = fifo_mark cap m (recent s)"
    and mark_ok: "ok s \<Longrightarrow> ok (snd (mark m s))"
    and cap_pos: "0 < cap"
begin

lemma mark_seen: "ok s \<Longrightarrow> fst (mark m s) \<longleftrightarrow> m \<in> set (recent s)"
  using mark_spec [of s m] by (auto simp: fifo_mark_def split: if_splits)

lemma mark_hit: "ok s \<Longrightarrow> m \<in> set (recent s) \<Longrightarrow> recent (snd (mark m s)) = recent s"
  using mark_spec [of s m] by (auto simp: fifo_mark_def)

lemma mark_new: "ok s \<Longrightarrow> m \<notin> set (recent s) \<Longrightarrow> recent (snd (mark m s)) = take cap (m # recent s)"
  using mark_spec [of s m] by (auto simp: fifo_mark_def)

lemma mark_all_ok: "ok s \<Longrightarrow> ok (mark_all mark ms s)"
  by (induction ms arbitrary: s) (auto intro: mark_ok)

lemma marked_is_seen:
  assumes "ok s" shows "fst (mark m (snd (mark m s)))"
proof (cases "m \<in> set (recent s)")
  case True
  with assms show ?thesis by (simp add: mark_seen mark_ok mark_hit)
next
  case False
  with assms cap_pos show ?thesis by (cases cap) (simp_all add: mark_seen mark_ok mark_new)
qed

text \<open>What a sequence of marks does to the window: the new items are pushed in front.\<close>

lemma recent_mark_all:
  assumes "ok s" "length (recent s) \<le> cap"
  shows "\<exists>ns. recent (mark_all mark ms s) = take cap (ns @ recent s) \<and>
    length ns = fresh_marks mark ms s \<and> set ns \<subseteq> set ms"
  using assms
proof (induction ms arbitrary: s)
  case Nil
  then show ?case by simp
next
  case (Cons m ms)
  let ?s = "snd (mark m s)"
  have ok: "ok ?s" using Cons.prems(1) by (rule mark_ok)
  show ?case
  proof (cases "m \<in> set (recent s)")
    case True
    with Cons.prems have r: "recent ?s = recent s" and f: "fst (mark m s)"
      by (simp_all add: mark_hit mark_seen)
    then show ?thesis using Cons.IH [OF ok] Cons.prems(2) by auto
  next
    case False
    with Cons.prems have r: "recent ?s = take cap (m # recent s)" and f: "\<not> fst (mark m s)"
      by (simp_all add: mark_new mark_seen)
    then have "length (recent ?s) \<le> cap" by simp
    from Cons.IH [OF ok this] obtain ns where
      "recent (mark_all mark ms ?s) = take cap (ns @ recent ?s)"
      "length ns = fresh_marks mark ms ?s" "set ns \<subseteq> set ms" by blast
    then show ?thesis using r f
      by (intro exI [of _ "ns @ [m]"]) (auto simp: min_def)
  qed
qed

text \<open>An item just marked survives fewer than \<open>cap\<close> further marks, whatever they are.\<close>

lemma survives_marks:
  assumes "ok s" "length (recent s) \<le> cap" "m \<notin> set (recent s)" "length ms < cap"
  shows "m \<in> set (recent (mark_all mark ms (snd (mark m s))))"
proof -
  let ?s = "snd (mark m s)"
  have ok: "ok ?s" using assms(1) by (rule mark_ok)
  obtain k where k: "cap = Suc k" using cap_pos by (cases cap) auto
  have r: "recent ?s = m # take k (recent s)" using assms(1,3) by (simp add: mark_new k)
  then have "length (recent ?s) \<le> cap" by (simp add: k)
  from recent_mark_all [OF ok this] obtain ns where
    ns: "recent (mark_all mark ms ?s) = take cap (ns @ recent ?s)" "length ns = fresh_marks mark ms ?s" by blast
  have "length ns < cap" using ns(2) fresh_marks_le [of mark ms ?s] assms(4) by simp
  then obtain j where "cap - length ns = Suc j" by (metis Suc_diff_Suc)
  then show ?thesis by (simp add: ns(1) r)
qed

text \<open>After a new item is marked, it stays known exactly as long as fewer than \<open>cap\<close> further
  new items are marked.\<close>

lemma window_length:
  assumes "ok s" "length (recent s) \<le> cap" "m \<notin> set (recent s)" "m \<notin> set ms"
  shows "fst (mark m (mark_all mark ms (snd (mark m s)))) \<longleftrightarrow>
    fresh_marks mark ms (snd (mark m s)) < cap"
proof -
  let ?s = "snd (mark m s)"
  have ok: "ok ?s" using assms(1) by (rule mark_ok)
  have r: "recent ?s = take cap (m # recent s)" using assms by (simp add: mark_new)
  then have "length (recent ?s) \<le> cap" by simp
  from recent_mark_all [OF ok this] obtain ns where
    ns: "recent (mark_all mark ms ?s) = take cap (ns @ recent ?s)"
    "length ns = fresh_marks mark ms ?s" "set ns \<subseteq> set ms" by blast
  have "recent (mark_all mark ms ?s) = take cap (ns @ m # recent s)"
    using ns(1) r by (auto simp: min_def)
  moreover have "m \<in> set (take cap (ns @ m # recent s)) \<longleftrightarrow> length ns < cap"
  proof
    assume "m \<in> set (take cap (ns @ m # recent s))"
    then show "length ns < cap"
      using ns(3) assms(4) by (rule_tac ccontr) (auto dest: in_set_takeD)
  next
    assume "length ns < cap"
    then obtain k where "cap - length ns = Suc k" by (metis Suc_diff_Suc)
    then show "m \<in> set (take cap (ns @ m # recent s))" by simp
  qed
  ultimately show ?thesis
    using ns(2) mark_seen [OF mark_all_ok [OF ok], of m ms] by simp
qed

end

end
