(* ===== verification/Dedup.thy ===== *)
theory Dedup
  imports Pkt SeenWindow
begin

text \<open>
  The duplicate filter, \<open>firmware/components/mesh/dedup.c\<close>: a ring buffer of the last 64
  message ids. The static variables \<open>s_cache\<close> and \<open>s_next_slot\<close> are the fields of a record
  that \<open>dedup_check_and_mark\<close> takes and returns updated.
\<close>

section \<open>State and operations\<close>

definition DEDUP_CACHE_SIZE :: nat where "DEDUP_CACHE_SIZE = 64"

record dedup_entry =
  de_msg_id :: bytes
  de_used :: bool

record dedup =
  s_cache :: "dedup_entry list"
  s_next_slot :: nat

definition dedup_init :: dedup where
  "dedup_init = \<lparr>s_cache = replicate DEDUP_CACHE_SIZE \<lparr>de_msg_id = replicate PKT_MSG_ID_LEN 0, de_used = False\<rparr>,
     s_next_slot = 0\<rparr>"

text \<open>The search loop: true at the first used entry that holds the id.\<close>

fun dedup_scan :: "bytes \<Rightarrow> dedup_entry list \<Rightarrow> bool" where
  "dedup_scan m [] = False"
| "dedup_scan m (e # es) = (if de_used e \<and> de_msg_id e = m then True else dedup_scan m es)"

definition dedup_check_and_mark :: "bytes \<Rightarrow> dedup \<Rightarrow> bool \<times> dedup" where
  "dedup_check_and_mark m d =
     (if dedup_scan m (s_cache d) then (True, d)
      else (False, \<lparr>s_cache = c_store (s_cache d) (s_next_slot d) \<lparr>de_msg_id = m, de_used = True\<rparr>,
                    s_next_slot = (s_next_slot d + 1) mod DEDUP_CACHE_SIZE\<rparr>))"

section \<open>Abstraction and invariant\<close>

text \<open>The ring read from the newest slot backwards, and the ids in it, newest first.\<close>

definition dedup_ring :: "dedup \<Rightarrow> dedup_entry list" where
  "dedup_ring d = rev (rotate (s_next_slot d) (s_cache d))"

definition dedup_recent :: "dedup \<Rightarrow> bytes list" where
  "dedup_recent d = map de_msg_id (filter de_used (dedup_ring d))"

text \<open>
  The invariant: the C array's size, a slot index in range, and slots filled in ring order (no
  used slot behind an unused one).
\<close>

definition dedup_ok :: "dedup \<Rightarrow> bool" where
  "dedup_ok d \<longleftrightarrow> length (s_cache d) = DEDUP_CACHE_SIZE \<and> s_next_slot d < DEDUP_CACHE_SIZE \<and>
     filter de_used (dedup_ring d) = takeWhile de_used (dedup_ring d) \<and> distinct (dedup_recent d)"

lemma dedup_scan_iff: "dedup_scan m es \<longleftrightarrow> (\<exists>e \<in> set es. de_used e \<and> de_msg_id e = m)"
  by (induction es) auto

lemma set_dedup_ring [simp]: "set (dedup_ring d) = set (s_cache d)"
  by (simp add: dedup_ring_def)

lemma dedup_scan_recent: "dedup_scan m (s_cache d) \<longleftrightarrow> m \<in> set (dedup_recent d)"
  by (auto simp: dedup_scan_iff dedup_recent_def)

lemma rotate_update_next:
  assumes "n < length xs"
  shows "rotate (Suc n mod length xs) (xs[n := x]) = tl (rotate n xs) @ [x]"
proof -
  have n: "rotate n (xs[n := x]) = x # tl (rotate n xs)"
    using assms by (simp add: rotate_drop_take drop_update_swap take_update_cancel Cons_nth_drop_Suc [symmetric])
  have "rotate (Suc n mod length (xs[n := x])) (xs[n := x]) = rotate1 (rotate n (xs[n := x]))"
    by (metis rotate_Suc rotate_conv_mod)
  with n show ?thesis by simp
qed

lemma takeWhile_take: "takeWhile P (take n xs) = take n (takeWhile P xs)"
  by (induction xs arbitrary: n) (auto simp: take_Cons split: nat.splits)

lemma filter_takeWhile_take:
  "filter P xs = takeWhile P xs \<Longrightarrow> filter P (take n xs) = takeWhile P (take n xs)"
proof (induction xs arbitrary: n)
  case (Cons x xs)
  show ?case
  proof (cases "P x")
    case True
    with Cons show ?thesis by (cases n) simp_all
  next
    case False
    with Cons.prems have "filter P xs = []" by simp
    then have "\<forall>y \<in> set (take n (x # xs)). \<not> P y"
      using False by (metis filter_empty_conv in_set_takeD set_ConsD)
    then show ?thesis by (cases "take n (x # xs)") (auto simp: filter_empty_conv)
  qed
qed simp

lemma dedup_ring_mark:
  assumes "length (s_cache d) = DEDUP_CACHE_SIZE" "s_next_slot d < DEDUP_CACHE_SIZE"
    "\<not> dedup_scan m (s_cache d)"
  shows "dedup_ring (snd (dedup_check_and_mark m d)) =
    \<lparr>de_msg_id = m, de_used = True\<rparr> # take 63 (dedup_ring d)"
proof -
  let ?r = "rotate (s_next_slot d) (s_cache d)"
  have "length ?r = 64" using assms(1) by (simp add: DEDUP_CACHE_SIZE_def)
  then have "rev (tl ?r) = take 63 (rev ?r)"
    by (cases ?r) simp_all
  then show ?thesis
    using assms rotate_update_next [of "s_next_slot d" "s_cache d"]
    by (simp add: dedup_check_and_mark_def dedup_ring_def)
qed

lemma dedup_mark_new:
  assumes "dedup_ok d" "m \<notin> set (dedup_recent d)"
  shows "dedup_recent (snd (dedup_check_and_mark m d)) = take 64 (m # dedup_recent d)"
    and "dedup_ok (snd (dedup_check_and_mark m d))"
proof -
  let ?d = "snd (dedup_check_and_mark m d)"
  from assms have l: "length (s_cache d) = DEDUP_CACHE_SIZE" "s_next_slot d < DEDUP_CACHE_SIZE"
    and f: "filter de_used (dedup_ring d) = takeWhile de_used (dedup_ring d)"
    and di: "distinct (dedup_recent d)" and ns: "\<not> dedup_scan m (s_cache d)"
    by (auto simp: dedup_ok_def dedup_scan_recent)
  note ring = dedup_ring_mark [OF l ns]
  have f63: "filter de_used (take 63 (dedup_ring d)) = take 63 (filter de_used (dedup_ring d))"
    using filter_takeWhile_take [OF f, of 63] by (simp add: takeWhile_take f)
  have rec: "dedup_recent ?d = m # take 63 (dedup_recent d)"
    using f63 by (simp add: dedup_recent_def ring take_map)
  then show "dedup_recent ?d = take 64 (m # dedup_recent d)"
    by (simp add: take_Cons')
  have "distinct (dedup_recent ?d)"
    using rec di assms(2) by (auto dest: in_set_takeD)
  moreover have "filter de_used (dedup_ring ?d) = takeWhile de_used (dedup_ring ?d)"
    using filter_takeWhile_take [OF f, of 63] by (simp add: ring)
  ultimately show "dedup_ok ?d"
    using l ns by (simp add: dedup_ok_def dedup_check_and_mark_def DEDUP_CACHE_SIZE_def)
qed

lemma dedup_recent_init [simp]: "dedup_recent dedup_init = []"
  by (simp add: dedup_recent_def dedup_ring_def dedup_init_def)

lemma dedup_ok_init [simp]: "dedup_ok dedup_init"
proof -
  have f: "filter de_used (dedup_ring dedup_init) = []"
    using dedup_recent_init by (simp add: dedup_recent_def)
  then have "takeWhile de_used (dedup_ring dedup_init) = []"
    by (cases "dedup_ring dedup_init") (auto split: if_splits)
  moreover have "length (s_cache dedup_init) = DEDUP_CACHE_SIZE" "s_next_slot dedup_init < DEDUP_CACHE_SIZE"
    by (simp_all add: dedup_init_def DEDUP_CACHE_SIZE_def)
  ultimately show ?thesis
    using f by (simp add: dedup_ok_def)
qed

lemma dedup_recent_length: "dedup_ok d \<Longrightarrow> length (dedup_recent d) \<le> DEDUP_CACHE_SIZE"
  using length_filter_le [of de_used "dedup_ring d"]
  by (simp add: dedup_ok_def dedup_recent_def dedup_ring_def)

section \<open>The filter meets the contract of a seen-window of 64\<close>

interpretation dedup: seen_window dedup_check_and_mark dedup_recent dedup_ok DEDUP_CACHE_SIZE
proof unfold_locales
  fix d :: dedup and m :: bytes
  assume ok: "dedup_ok d"
  show "(fst (dedup_check_and_mark m d), dedup_recent (snd (dedup_check_and_mark m d))) =
      fifo_mark DEDUP_CACHE_SIZE m (dedup_recent d)"
  proof (cases "m \<in> set (dedup_recent d)")
    case True
    then show ?thesis by (simp add: dedup_check_and_mark_def dedup_scan_recent fifo_mark_def)
  next
    case False
    with dedup_mark_new(1) [OF ok False] show ?thesis
      by (simp add: fifo_mark_def DEDUP_CACHE_SIZE_def)
         (simp add: dedup_check_and_mark_def dedup_scan_recent)
  qed
  show "dedup_ok (snd (dedup_check_and_mark m d))"
  proof (cases "m \<in> set (dedup_recent d)")
    case True
    with ok show ?thesis by (simp add: dedup_check_and_mark_def dedup_scan_recent)
  next
    case False
    then show ?thesis by (rule dedup_mark_new(2) [OF ok])
  qed
next
  show "0 < DEDUP_CACHE_SIZE" by (simp add: DEDUP_CACHE_SIZE_def)
qed

text \<open>Message ids for the witnesses.\<close>

definition ex_id :: "byte \<Rightarrow> bytes" where
  "ex_id b = b # replicate 15 0"

lemma ex_id_inj [simp]: "ex_id a = ex_id b \<longleftrightarrow> a = b"
  by (simp add: ex_id_def)

text \<open>Property C27: \<open>dedup_check_and_mark\<close> refines the first-in first-out window of the 64 newest
  message ids: it answers "seen" exactly for an id in the window, changes nothing then, and
  otherwise pushes the id in front and lets the oldest fall out; and it keeps the ring's
  invariant.\<close>
theorem dedup_refines_fifo:
  assumes "dedup_ok d"
  shows "(fst (dedup_check_and_mark m d), dedup_recent (snd (dedup_check_and_mark m d))) =
      fifo_mark DEDUP_CACHE_SIZE m (dedup_recent d)
    \<and> dedup_ok (snd (dedup_check_and_mark m d))
    \<and> length (dedup_recent (snd (dedup_check_and_mark m d))) \<le> DEDUP_CACHE_SIZE"
  using dedup.mark_spec [OF assms] dedup.mark_ok [OF assms, of m] dedup_recent_length by simp

theorem dedup_refines_fifo_witness:
  "dedup_recent (snd (dedup_check_and_mark (ex_id 5) dedup_init)) = [ex_id 5]"
  using dedup_refines_fifo [OF dedup_ok_init, of "ex_id 5"]
  by (simp add: fifo_mark_def DEDUP_CACHE_SIZE_def)

text \<open>How long a message id stays known. After a new id \<open>m\<close> is accepted, and whatever
  other ids follow, a second copy of \<open>m\<close> is recognised exactly as long as fewer than 64 of
  the ids that followed were new: up to then it is dropped, from then on it would be accepted
  again.\<close>
theorem dedup_window:
  assumes "dedup_ok d" and "fst (dedup_check_and_mark m d) = False" and "m \<notin> set ms"
  shows "fst (dedup_check_and_mark m (mark_all dedup_check_and_mark ms (snd (dedup_check_and_mark m d))))
    \<longleftrightarrow> fresh_marks dedup_check_and_mark ms (snd (dedup_check_and_mark m d)) < 64"
proof -
  from assms(1,2) have "m \<notin> set (dedup_recent d)" by (simp add: dedup.mark_seen)
  from dedup.window_length [OF assms(1) dedup_recent_length [OF assms(1)] this assms(3)]
  show ?thesis by (simp add: DEDUP_CACHE_SIZE_def)
qed

theorem dedup_window_witness:
  "fst (dedup_check_and_mark (ex_id 0)
     (mark_all dedup_check_and_mark [ex_id 1, ex_id 2]
       (snd (dedup_check_and_mark (ex_id 0) dedup_init))))"
proof -
  have n: "fst (dedup_check_and_mark (ex_id 0) dedup_init) = False"
    by (simp add: dedup.mark_seen)
  have "ex_id 0 \<notin> set [ex_id 1, ex_id 2]" by simp
  from dedup_window [OF dedup_ok_init n this] show ?thesis by simp
qed

end
