(* ===== verification/SlotTable.thy ===== *)
theory SlotTable
  imports Prelude
begin

text \<open>
  The two neighbour tables of the mesh (the rate limiter of \<open>mesh.c\<close> and the presence table of
  \<open>presence.c\<close>) share one shape: a fixed array of slots, one linear scan that finds the slot of
  a node or the first free slot, and, when the array is full, a second scan for the slot with
  the oldest time stamp. The two loops are defined here once. The contract that clients rely on
  is the locale \<open>bounded_table\<close>, a partial map that never tracks more than \<open>cap\<close> keys; the
  locale \<open>slot_array\<close> is the array implementation, and a \<open>sublocale\<close> shows that it meets the
  contract.
\<close>

section \<open>The two loops\<close>

text \<open>\<open>Inl i\<close>: slot \<open>i\<close> is the first used slot that matches. \<open>Inr fs\<close>: there is none, and
  \<open>fs\<close> is the first free slot, if any (the \<open>free_slot\<close> variable, \<open>-1\<close> being \<open>None\<close>).\<close>

fun slot_scan :: "('e \<Rightarrow> bool) \<Rightarrow> ('e \<Rightarrow> bool) \<Rightarrow> nat \<Rightarrow> nat option \<Rightarrow> 'e list \<Rightarrow> nat + nat option" where
  "slot_scan hit used i free [] = Inr free"
| "slot_scan hit used i free (e # es) =
     (if used e \<and> hit e then Inl i
      else slot_scan hit used (Suc i) (if \<not> used e \<and> free = None then Some i else free) es)"

text \<open>The index of the smallest stamp, the first one among equals.\<close>

definition oldest_slot :: "('e \<Rightarrow> int) \<Rightarrow> 'e list \<Rightarrow> nat" where
  "oldest_slot stamp t =
     fold (\<lambda>i oldest. if stamp (t ! i) < stamp (t ! oldest) then i else oldest) [1..<length t] 0"

text \<open>The whole update: refresh the key's slot, or take a free slot, or evict the oldest.\<close>

definition slot_touch :: "('e \<Rightarrow> 'k) \<Rightarrow> ('e \<Rightarrow> bool) \<Rightarrow> ('e \<Rightarrow> int) \<Rightarrow> (int \<Rightarrow> 'e \<Rightarrow> 'e) \<Rightarrow> ('k \<Rightarrow> int \<Rightarrow> 'e)
    \<Rightarrow> 'k \<Rightarrow> int \<Rightarrow> 'e list \<Rightarrow> 'e list" where
  "slot_touch key used stamp refresh fresh k now t =
     (case slot_scan (\<lambda>e. key e = k) used 0 None t of
        Inl i \<Rightarrow> t[i := refresh now (t ! i)]
      | Inr (Some i) \<Rightarrow> t[i := fresh k now]
      | Inr None \<Rightarrow> t[oldest_slot stamp t := fresh k now])"

text \<open>The entry of a key, and the array invariant: no key occupies two slots.\<close>

definition slot_find :: "('e \<Rightarrow> 'k) \<Rightarrow> ('e \<Rightarrow> bool) \<Rightarrow> 'e list \<Rightarrow> 'k \<Rightarrow> 'e option" where
  "slot_find key used t k = find (\<lambda>e. used e \<and> key e = k) t"

definition slot_inv :: "('e \<Rightarrow> 'k) \<Rightarrow> ('e \<Rightarrow> bool) \<Rightarrow> nat \<Rightarrow> 'e list \<Rightarrow> bool" where
  "slot_inv key used n t \<longleftrightarrow> length t = n \<and>
     (\<forall>i<n. \<forall>j<n. used (t ! i) \<and> used (t ! j) \<and> key (t ! i) = key (t ! j) \<longrightarrow> i = j)"

text \<open>Facts about the loops.\<close>

lemma slot_scan_Inl:
  "slot_scan hit used i fs t = Inl j \<Longrightarrow> \<exists>n<length t. j = i + n \<and> used (t ! n) \<and> hit (t ! n)"
proof (induction t arbitrary: i fs)
  case (Cons e es)
  show ?case
  proof (cases "used e \<and> hit e")
    case True
    with Cons.prems show ?thesis by auto
  next
    case False
    then have "slot_scan hit used (Suc i) (if \<not> used e \<and> fs = None then Some i else fs) es = Inl j"
      using Cons.prems by (simp only: slot_scan.simps if_False)
    from Cons.IH [OF this] obtain n where
      "n < length es" "j = Suc i + n" "used (es ! n)" "hit (es ! n)" by blast
    then show ?thesis by (intro exI [of _ "Suc n"]) simp
  qed
qed simp

lemma slot_scan_Inr:
  "slot_scan hit used i fs t = Inr r \<Longrightarrow> (\<forall>e\<in>set t. \<not> (used e \<and> hit e)) \<and>
     (case r of None \<Rightarrow> fs = None \<and> (\<forall>e\<in>set t. used e)
      | Some j \<Rightarrow> fs = Some j \<or> (\<exists>n<length t. j = i + n \<and> \<not> used (t ! n)))"
proof (induction t arbitrary: i fs)
  case Nil
  then show ?case by (simp split: option.splits)
next
  case (Cons e es)
  have ne: "\<not> (used e \<and> hit e)" using Cons.prems by auto
  let ?fs = "if \<not> used e \<and> fs = None then Some i else fs"
  have "slot_scan hit used (Suc i) ?fs es = Inr r"
    using Cons.prems ne by (simp only: slot_scan.simps if_False)
  note IH = Cons.IH [OF this]
  show ?case
  proof (cases r)
    case None
    with IH ne show ?thesis by (auto split: if_splits)
  next
    case (Some j)
    with IH have "?fs = Some j \<or> (\<exists>n<length es. j = Suc i + n \<and> \<not> used (es ! n))" by simp
    then have "fs = Some j \<or> (\<exists>n<length (e # es). j = i + n \<and> \<not> used ((e # es) ! n))"
    proof
      assume "?fs = Some j"
      then show ?thesis by (cases "\<not> used e \<and> fs = None") auto
    next
      assume "\<exists>n<length es. j = Suc i + n \<and> \<not> used (es ! n)"
      then obtain n where "n < length es" "j = Suc i + n" "\<not> used (es ! n)" by blast
      then have "Suc n < length (e # es) \<and> j = i + Suc n \<and> \<not> used ((e # es) ! Suc n)" by simp
      then show ?thesis by blast
    qed
    with IH ne Some show ?thesis by simp
  qed
qed

lemma oldest_slot_fold:
  "a < length t \<Longrightarrow> m \<le> length t \<Longrightarrow>
     let r = fold (\<lambda>i b. if (stamp (t ! i) :: int) < stamp (t ! b) then i else b) [1..<m] a
     in r < length t \<and> stamp (t ! r) \<le> stamp (t ! a) \<and> (\<forall>i. 1 \<le> i \<and> i < m \<longrightarrow> stamp (t ! r) \<le> stamp (t ! i))"
proof (induction m)
  case (Suc m)
  then show ?case
    by (cases "m = 0") (force simp: Let_def less_Suc_eq)+
qed simp

lemma oldest_slot_min:
  assumes "t \<noteq> []"
  shows "oldest_slot stamp t < length t" "i < length t \<Longrightarrow> stamp (t ! oldest_slot stamp t) \<le> stamp (t ! i)"
proof -
  have "0 < length t" using assms by simp
  from oldest_slot_fold [OF this order_refl, of stamp] show
    "oldest_slot stamp t < length t" "i < length t \<Longrightarrow> stamp (t ! oldest_slot stamp t) \<le> stamp (t ! i)"
    by (cases i; auto simp: oldest_slot_def Let_def)+
qed

text \<open>The slots that the loops name are slots of the array.\<close>

lemma slot_stores:
  "slot_scan hit used 0 None t = Inl i \<Longrightarrow> c_store t i v = t[i := v]"
  "slot_scan hit used 0 None t = Inr (Some i) \<Longrightarrow> c_store t i v = t[i := v]"
  "c_store t (oldest_slot stamp t) v = t[oldest_slot stamp t := v]"
proof -
  show "slot_scan hit used 0 None t = Inl i \<Longrightarrow> c_store t i v = t[i := v]"
    using slot_scan_Inl [of hit used 0 None t i] by auto
  show "slot_scan hit used 0 None t = Inr (Some i) \<Longrightarrow> c_store t i v = t[i := v]"
    using slot_scan_Inr [of hit used 0 None t "Some i"] by auto
  show "c_store t (oldest_slot stamp t) v = t[oldest_slot stamp t := v]"
    using oldest_slot_min(1) [of t stamp] by (cases "t = []") (simp_all add: c_store_def)
qed

lemma slot_find_iff:
  assumes "slot_inv key used n t"
  shows "slot_find key used t k = Some e \<longleftrightarrow> (\<exists>i<n. t ! i = e \<and> used e \<and> key e = k)"
proof
  assume "slot_find key used t k = Some e"
  with assms show "\<exists>i<n. t ! i = e \<and> used e \<and> key e = k"
    by (auto simp: slot_find_def slot_inv_def find_Some_iff)
next
  assume "\<exists>i<n. t ! i = e \<and> used e \<and> key e = k"
  then obtain i where i: "i < n" "t ! i = e" "used e" "key e = k" by blast
  have "\<not> (used (t ! j) \<and> key (t ! j) = k)" if "j < i" for j
    using assms i that unfolding slot_inv_def by (metis less_trans nat_neq_iff)
  with assms i show "slot_find key used t k = Some e"
    by (auto simp: slot_find_def slot_inv_def find_Some_iff)
qed

lemma slot_find_update:
  assumes inv: "slot_inv key used n t" and i: "i < n" and e: "used e"
    and new: "\<And>j. j < n \<Longrightarrow> j \<noteq> i \<Longrightarrow> used (t ! j) \<Longrightarrow> key (t ! j) \<noteq> key e"
  shows "slot_inv key used n (t[i := e])"
    and "slot_find key used (t[i := e]) =
      (if used (t ! i) then (slot_find key used t)(key (t ! i) := None) else slot_find key used t)(key e \<mapsto> e)"
proof -
  have len: "length t = n" using inv by (simp add: slot_inv_def)
  have at: "t[i := e] ! j = (if j = i then e else t ! j)" if "j < n" for j
    using that len by simp
  show inv': "slot_inv key used n (t[i := e])"
    unfolding slot_inv_def
  proof (intro conjI allI impI)
    show "length (t[i := e]) = n" using len by simp
    fix a b
    assume "a < n" "b < n" "used (t[i := e] ! a) \<and> used (t[i := e] ! b) \<and> key (t[i := e] ! a) = key (t[i := e] ! b)"
    then show "a = b"
      using inv new [of a] new [of b] unfolding slot_inv_def by (simp add: at split: if_splits)
  qed
  show "slot_find key used (t[i := e]) =
      (if used (t ! i) then (slot_find key used t)(key (t ! i) := None) else slot_find key used t)(key e \<mapsto> e)"
    (is "?l = ?r")
  proof
    fix k
    have "?l k = Some x \<longleftrightarrow> ?r k = Some x" for x
    proof -
      have L: "?l k = Some x \<longleftrightarrow> (\<exists>j<n. t[i := e] ! j = x \<and> used x \<and> key x = k)"
        by (rule slot_find_iff [OF inv'])
      have F: "\<And>k'. slot_find key used t k' = Some x \<longleftrightarrow> (\<exists>j<n. t ! j = x \<and> used x \<and> key x = k')"
        by (rule slot_find_iff [OF inv])
      show ?thesis
      proof (cases "k = key e")
        case True
        have "?l k = Some x \<longleftrightarrow> x = e"
          unfolding L using i e new True by (auto simp: at)
        with True show ?thesis by auto
      next
        case False
        have "?l k = Some x \<longleftrightarrow> (\<exists>j<n. j \<noteq> i \<and> t ! j = x \<and> used x \<and> key x = k)"
          unfolding L using i False by (auto simp: at)
        also have "\<dots> \<longleftrightarrow> ?r k = Some x"
          using False inv i by (auto simp: F slot_inv_def)
        finally show ?thesis .
      qed
    qed
    then show "?l k = ?r k" by (cases "?l k") (metis not_None_eq)+
  qed
qed

lemma dom_slot_find:
  assumes "slot_inv key used n t"
  shows "dom (slot_find key used t) = (\<lambda>i. key (t ! i)) ` {i. i < n \<and> used (t ! i)}"
  using slot_find_iff [OF assms] by (auto simp: dom_def image_iff)

lemma card_slot_find:
  assumes "slot_inv key used n t"
  shows "finite (dom (slot_find key used t))"
    and "card (dom (slot_find key used t)) = card {i. i < n \<and> used (t ! i)}"
proof -
  have "inj_on (\<lambda>i. key (t ! i)) {i. i < n \<and> used (t ! i)}"
    using assms unfolding slot_inv_def inj_on_def by blast
  then show "card (dom (slot_find key used t)) = card {i. i < n \<and> used (t ! i)}"
    unfolding dom_slot_find [OF assms] by (rule card_image)
  show "finite (dom (slot_find key used t))"
    unfolding dom_slot_find [OF assms] by simp
qed

lemma card_slot_le:
  assumes "slot_inv key used n t"
  shows "card (dom (slot_find key used t)) \<le> n"
    and "i < n \<Longrightarrow> \<not> used (t ! i) \<Longrightarrow> card (dom (slot_find key used t)) < n"
    and "\<forall>e\<in>set t. used e \<Longrightarrow> card (dom (slot_find key used t)) = n"
proof -
  let ?U = "{i. i < n \<and> used (t ! i)}"
  have fin: "finite {..<n}" and sub: "?U \<subseteq> {..<n}" by auto
  have "card ?U \<le> card {..<n}" using fin sub by (rule card_mono)
  then show "card (dom (slot_find key used t)) \<le> n"
    by (simp add: card_slot_find(2) [OF assms])
  show "card (dom (slot_find key used t)) < n" if "i < n" "\<not> used (t ! i)"
  proof -
    have "?U \<subset> {..<n}" using that by auto
    with fin have "card ?U < card {..<n}" by (rule psubset_card_mono)
    then show ?thesis by (simp add: card_slot_find(2) [OF assms])
  qed
  show "card (dom (slot_find key used t)) = n" if "\<forall>e\<in>set t. used e"
  proof -
    have "length t = n" using assms by (simp add: slot_inv_def)
    with that have "?U = {..<n}" by auto
    then show ?thesis by (simp add: card_slot_find(2) [OF assms])
  qed
qed

section \<open>The contract\<close>

text \<open>One event of a run is a key and the time of its touch.\<close>

fun touch_all :: "('k \<Rightarrow> int \<Rightarrow> 't \<Rightarrow> 't) \<Rightarrow> ('k \<times> int) list \<Rightarrow> 't \<Rightarrow> 't" where
  "touch_all touch [] t = t"
| "touch_all touch ((a, now) # evs) t = touch_all touch evs (touch a now t)"

text \<open>What the events of one key alone do to its entry.\<close>

fun entry_run :: "(int \<Rightarrow> 'v \<Rightarrow> 'v) \<Rightarrow> ('k \<Rightarrow> int \<Rightarrow> 'v) \<Rightarrow> 'k \<Rightarrow> ('k \<times> int) list \<Rightarrow> 'v option \<Rightarrow> 'v option" where
  "entry_run refresh fresh k [] v = v"
| "entry_run refresh fresh k ((a, now) # evs) v =
     entry_run refresh fresh k evs
       (if a = k then Some (case v of None \<Rightarrow> fresh k now | Some x \<Rightarrow> refresh now x) else v)"

lemma entry_run_other: "k \<notin> fst ` set evs \<Longrightarrow> entry_run refresh fresh k evs v = v"
  by (induction refresh fresh k evs v rule: entry_run.induct) auto

lemma touch_all_append: "touch_all f (xs @ ys) t = touch_all f ys (touch_all f xs t)"
  by (induction xs arbitrary: t) (simp_all add: split_paired_all)

locale bounded_table =
  fixes touch :: "'k \<Rightarrow> int \<Rightarrow> 't \<Rightarrow> 't"
    and look :: "'t \<Rightarrow> 'k \<Rightarrow> 'v option"
    and refresh :: "int \<Rightarrow> 'v \<Rightarrow> 'v"
    and fresh :: "'k \<Rightarrow> int \<Rightarrow> 'v"
    and stamp :: "'v \<Rightarrow> int"
    and ok :: "'t \<Rightarrow> bool"
    and cap :: nat
  assumes touch_ok: "ok t \<Longrightarrow> ok (touch k now t)"
    and look_finite: "ok t \<Longrightarrow> finite (dom (look t))"
    and look_card: "ok t \<Longrightarrow> card (dom (look t)) \<le> cap"
    and touch_hit: "ok t \<Longrightarrow> look t k = Some v \<Longrightarrow> look (touch k now t) = (look t)(k \<mapsto> refresh now v)"
    and touch_room: "ok t \<Longrightarrow> look t k = None \<Longrightarrow> card (dom (look t)) < cap \<Longrightarrow>
      look (touch k now t) = (look t)(k \<mapsto> fresh k now)"
    and touch_evict: "ok t \<Longrightarrow> look t k = None \<Longrightarrow> card (dom (look t)) = cap \<Longrightarrow>
      \<exists>k0 v0. look t k0 = Some v0 \<and> (\<forall>k' v'. look t k' = Some v' \<longrightarrow> stamp v0 \<le> stamp v') \<and>
        look (touch k now t) = (look t)(k0 := None, k \<mapsto> fresh k now)"
begin

lemma touched_known:
  assumes "ok t"
  shows "look (touch k now t) k = Some (case look t k of None \<Rightarrow> fresh k now | Some v \<Rightarrow> refresh now v)"
proof (cases "look t k")
  case None
  show ?thesis
  proof (cases "card (dom (look t)) = cap")
    case True
    from touch_evict [OF assms None this, of now] None show ?thesis by auto
  next
    case False
    with look_card [OF assms] have "card (dom (look t)) < cap" by simp
    from touch_room [OF assms None this, of now] None show ?thesis by simp
  qed
next
  case (Some v)
  with touch_hit [OF assms Some, of now] show ?thesis by simp
qed

text \<open>A touch never changes the entry of another key; at most it removes it.\<close>

lemma others_kept:
  assumes "ok t" "k' \<noteq> k" "look (touch k now t) k' = Some v"
  shows "look t k' = Some v"
proof (cases "look t k")
  case None
  show ?thesis
  proof (cases "card (dom (look t)) = cap")
    case True
    from touch_evict [OF assms(1) None this, of now] assms(2,3) show ?thesis by (auto split: if_splits)
  next
    case False
    with look_card [OF assms(1)] have "card (dom (look t)) < cap" by simp
    from touch_room [OF assms(1) None this, of now] assms(2,3) show ?thesis by simp
  qed
next
  case (Some w)
  from touch_hit [OF assms(1) Some, of now] assms(2,3) show ?thesis by simp
qed

text \<open>An entry that is not the oldest survives the touch of any other key.\<close>

lemma newer_survives:
  assumes "ok t" "look t k = Some v" "k' \<noteq> k" "look t k2 = Some w" "stamp w < stamp v"
  shows "look (touch k' now t) k = Some v"
proof (cases "look t k'")
  case None
  show ?thesis
  proof (cases "card (dom (look t)) = cap")
    case True
    from touch_evict [OF assms(1) None this, of now] obtain k0 v0 where
      v0: "look t k0 = Some v0" "\<And>k' v'. look t k' = Some v' \<Longrightarrow> stamp v0 \<le> stamp v'"
      "look (touch k' now t) = (look t)(k0 := None, k' \<mapsto> fresh k' now)" by blast
    from v0(2) [OF assms(4)] assms(5) have "stamp v0 < stamp v" by simp
    then have "k0 \<noteq> k" using v0(1) assms(2) by auto
    then show ?thesis using v0(3) assms by simp
  next
    case False
    with look_card [OF assms(1)] have "card (dom (look t)) < cap" by simp
    from touch_room [OF assms(1) None this, of now] assms show ?thesis by simp
  qed
next
  case (Some x)
  with touch_hit [OF assms(1) Some, of now] assms show ?thesis by simp
qed

text \<open>As long as at most \<open>cap\<close> keys are involved, nothing is evicted and every entry is what
  its own events make of it.\<close>

lemma touch_within:
  assumes "ok t" "insert k (dom (look t)) \<subseteq> K" "finite K" "card K \<le> cap"
  shows "look (touch k now t) =
      (look t)(k \<mapsto> case look t k of None \<Rightarrow> fresh k now | Some v \<Rightarrow> refresh now v)"
proof (cases "look t k")
  case None
  then have "k \<notin> dom (look t)" by auto
  then have "card (dom (look t)) < card K"
    using assms(2,3) by (intro psubset_card_mono) auto
  with assms(4) have "card (dom (look t)) < cap" by simp
  from touch_room [OF assms(1) None this] None show ?thesis by simp
next
  case (Some v)
  with touch_hit [OF assms(1) Some] show ?thesis by simp
qed

lemma touch_all_ok: "ok t \<Longrightarrow> ok (touch_all touch evs t)"
  by (induction evs arbitrary: t) (simp_all add: split_paired_all touch_ok)

lemma look_touch_all:
  assumes "ok t" "fst ` set evs \<union> dom (look t) \<subseteq> K" "finite K" "card K \<le> cap"
  shows "look (touch_all touch evs t) k = entry_run refresh fresh k evs (look t k)"
  using assms(1,2)
proof (induction evs arbitrary: t)
  case (Cons ev evs)
  obtain a now where ev: "ev = (a, now)" by (cases ev)
  let ?t = "touch a now t"
  have "insert a (dom (look t)) \<subseteq> K" using Cons.prems(2) by (auto simp: ev)
  note tw = touch_within [OF Cons.prems(1) this assms(3,4), of now]
  have "fst ` set evs \<union> dom (look ?t) \<subseteq> K"
    using Cons.prems(2) by (auto simp: tw ev split: if_splits)
  from Cons.IH [OF touch_ok [OF Cons.prems(1)] this] show ?case
    using tw by (cases "k = a") (simp_all add: ev)
qed simp

end

section \<open>The array implementation meets the contract\<close>

locale slot_array =
  fixes touch :: "'k \<Rightarrow> int \<Rightarrow> 'e list \<Rightarrow> 'e list"
    and key :: "'e \<Rightarrow> 'k"
    and used :: "'e \<Rightarrow> bool"
    and stamp :: "'e \<Rightarrow> int"
    and refresh :: "int \<Rightarrow> 'e \<Rightarrow> 'e"
    and fresh :: "'k \<Rightarrow> int \<Rightarrow> 'e"
    and n :: nat
  assumes touch_loops: "touch k now t = slot_touch key used stamp refresh fresh k now t"
    and refresh_key: "key (refresh now e) = key e"
    and refresh_used: "used (refresh now e) = used e"
    and fresh_key: "key (fresh k now) = k"
    and fresh_used: "used (fresh k now)"
    and n_pos: "0 < n"
begin

lemma not_found:
  assumes "slot_inv key used n t" "slot_find key used t k = None"
  shows "\<And>j. j < n \<Longrightarrow> used (t ! j) \<Longrightarrow> key (t ! j) \<noteq> k"
  using assms slot_find_iff [OF assms(1)] by (metis option.distinct(1))

lemma touch_cases:
  assumes inv: "slot_inv key used n t"
  obtains (hit) i where "i < n" "used (t ! i)" "key (t ! i) = k" "touch k now t = t[i := refresh now (t ! i)]"
  | (room) i where "i < n" "\<not> used (t ! i)" "slot_find key used t k = None" "touch k now t = t[i := fresh k now]"
  | (evict) "\<forall>e\<in>set t. used e" "slot_find key used t k = None"
      "touch k now t = t[oldest_slot stamp t := fresh k now]"
proof -
  have len: "length t = n" using inv by (simp add: slot_inv_def)
  consider i where "slot_scan (\<lambda>e. key e = k) used 0 None t = Inl i"
    | i where "slot_scan (\<lambda>e. key e = k) used 0 None t = Inr (Some i)"
    | "slot_scan (\<lambda>e. key e = k) used 0 None t = Inr None"
  proof (cases "slot_scan (\<lambda>e. key e = k) used 0 None t")
    case (Inr r)
    with that show ?thesis by (cases r) simp_all
  qed (use that in simp)
  then show thesis
  proof cases
    case (1 i)
    with slot_scan_Inl [OF 1] len show thesis
      by (intro hit [of i]) (auto simp: touch_loops slot_touch_def)
  next
    case (2 i)
    from slot_scan_Inr [OF 2] have "slot_find key used t k = None"
      by (auto simp: slot_find_def find_None_iff)
    with 2 slot_scan_Inr [OF 2] len show thesis
      by (intro room [of i]) (auto simp: touch_loops slot_touch_def)
  next
    case 3
    from slot_scan_Inr [OF 3] have "slot_find key used t k = None"
      by (auto simp: slot_find_def find_None_iff)
    with 3 slot_scan_Inr [OF 3] show thesis
      by (intro evict) (auto simp: touch_loops slot_touch_def)
  qed
qed

lemma oldest_slot_less:
  assumes "slot_inv key used n t" shows "oldest_slot stamp t < n"
proof -
  have "t \<noteq> []" using assms n_pos by (auto simp: slot_inv_def)
  from oldest_slot_min(1) [OF this] assms show ?thesis by (simp add: slot_inv_def)
qed

lemma touch_inv: "slot_inv key used n t \<Longrightarrow> slot_inv key used n (touch k now t)"
proof -
  assume inv: "slot_inv key used n t"
  from inv show ?thesis
  proof (cases rule: touch_cases [of t k now])
    case (hit i)
    from inv hit have "\<And>j. j < n \<Longrightarrow> j \<noteq> i \<Longrightarrow> used (t ! j) \<Longrightarrow> key (t ! j) \<noteq> key (refresh now (t ! i))"
      unfolding refresh_key slot_inv_def by blast
    from slot_find_update(1) [OF inv hit(1) _ this] hit show ?thesis
      by (simp add: refresh_used)
  next
    case (room i)
    with not_found [OF inv room(3)] show ?thesis
      by (auto intro!: slot_find_update(1) [OF inv] simp: fresh_key fresh_used)
  next
    case evict
    with not_found [OF inv evict(2)] show ?thesis
      by (auto intro!: slot_find_update(1) [OF inv] oldest_slot_less [OF inv] simp: fresh_key fresh_used)
  qed
qed

lemma find_hit:
  assumes inv: "slot_inv key used n t" and v: "slot_find key used t k = Some v"
  shows "slot_find key used (touch k now t) = (slot_find key used t)(k \<mapsto> refresh now v)"
  using inv
proof (cases rule: touch_cases [of t k now])
  case (hit i)
  have "t ! i = v" using hit v slot_find_iff [OF inv] inv unfolding slot_inv_def by metis
  moreover have "slot_find key used (t[i := refresh now (t ! i)]) =
      (if used (t ! i) then (slot_find key used t)(key (t ! i) := None) else slot_find key used t)
        (key (refresh now (t ! i)) \<mapsto> refresh now (t ! i))"
    using inv hit
    by (intro slot_find_update(2) [OF inv]) (auto simp: refresh_key refresh_used slot_inv_def)
  ultimately show ?thesis using hit by (simp add: refresh_key)
qed (use v in auto)

lemma find_room:
  assumes inv: "slot_inv key used n t" and v: "slot_find key used t k = None"
    and c: "card (dom (slot_find key used t)) < n"
  shows "slot_find key used (touch k now t) = (slot_find key used t)(k \<mapsto> fresh k now)"
  using inv
proof (cases rule: touch_cases [of t k now])
  case (hit i)
  with not_found [OF inv v] show ?thesis by auto
next
  case (room i)
  have "slot_find key used (t[i := fresh k now]) =
      (if used (t ! i) then (slot_find key used t)(key (t ! i) := None) else slot_find key used t)
        (key (fresh k now) \<mapsto> fresh k now)"
    using room not_found [OF inv v]
    by (intro slot_find_update(2) [OF inv]) (auto simp: fresh_key fresh_used)
  with room show ?thesis by (simp add: fresh_key)
next
  case evict
  with card_slot_le(3) [OF inv evict(1)] c show ?thesis by simp
qed

lemma find_evict:
  assumes inv: "slot_inv key used n t" and v: "slot_find key used t k = None"
    and c: "card (dom (slot_find key used t)) = n"
  shows "\<exists>k0 v0. slot_find key used t k0 = Some v0 \<and>
      (\<forall>k' v'. slot_find key used t k' = Some v' \<longrightarrow> stamp v0 \<le> stamp v') \<and>
      slot_find key used (touch k now t) = (slot_find key used t)(k0 := None, k \<mapsto> fresh k now)"
  using inv
proof (cases rule: touch_cases [of t k now])
  case (hit i)
  with not_found [OF inv v] show ?thesis by auto
next
  case (room i)
  with card_slot_le(2) [OF inv room(1,2)] c show ?thesis by simp
next
  case evict
  let ?o = "oldest_slot stamp t"
  have len: "length t = n" "t \<noteq> []" using inv n_pos by (auto simp: slot_inv_def)
  have o: "?o < n" by (rule oldest_slot_less [OF inv])
  have used_o: "used (t ! ?o)" using evict(1) o len by simp
  have "slot_find key used (t[?o := fresh k now]) =
      (if used (t ! ?o) then (slot_find key used t)(key (t ! ?o) := None) else slot_find key used t)
        (key (fresh k now) \<mapsto> fresh k now)"
    using not_found [OF inv v] by (intro slot_find_update(2) [OF inv o]) (auto simp: fresh_key fresh_used)
  moreover have "slot_find key used t (key (t ! ?o)) = Some (t ! ?o)"
    using slot_find_iff [OF inv] o used_o by blast
  moreover have "stamp (t ! ?o) \<le> stamp v'" if "slot_find key used t k' = Some v'" for k' v'
    using that slot_find_iff [OF inv] oldest_slot_min(2) [OF len(2)] len(1) by metis
  ultimately show ?thesis
    using evict(3) used_o by (intro exI [of _ "key (t ! ?o)"] exI [of _ "t ! ?o"]) (auto simp: fresh_key)
qed

end

sublocale slot_array \<subseteq> bounded_table touch "slot_find key used" refresh fresh stamp "slot_inv key used n" n
  by unfold_locales
    (simp_all add: touch_inv card_slot_find(1) card_slot_le(1) find_hit find_room find_evict)

end
