(* ===== verification/RateLimit.thy ===== *)
theory RateLimit
  imports Pkt SlotTable
begin

text \<open>
  The per-sender rate limiter of \<open>firmware/components/mesh/mesh.c\<close> (\<open>rate_limited\<close> and the
  static table \<open>s_rate_table\<close>): 32 slots, a window of 60 seconds, at most 20 packets per
  window. The argument \<open>now\<close> is the value of \<open>esp_timer_get_time()\<close> at the call.
\<close>

section \<open>State and operation\<close>

definition RATE_LIMIT_WINDOW_US :: int where "RATE_LIMIT_WINDOW_US = 60 * 1000000"
definition RATE_LIMIT_MAX_PER_WIN :: int where "RATE_LIMIT_MAX_PER_WIN = 20"
definition RATE_TABLE_SIZE :: nat where "RATE_TABLE_SIZE = 32"

lemmas rate_consts = RATE_LIMIT_WINDOW_US_def RATE_LIMIT_MAX_PER_WIN_def RATE_TABLE_SIZE_def

record rate_entry =
  re_node_id :: bytes
  window_start_us :: int
  re_count :: int
  re_used :: bool

type_synonym rate_table = "rate_entry list"

definition rate_table_init :: rate_table where
  "rate_table_init = replicate RATE_TABLE_SIZE
     \<lparr>re_node_id = replicate PKT_NODE_ID_LEN 0, window_start_us = 0, re_count = 0, re_used = False\<rparr>"

definition rate_limited :: "bytes \<Rightarrow> int \<Rightarrow> rate_table \<Rightarrow> bool \<times> rate_table" where
  "rate_limited node_id now tbl =
     (case slot_scan (\<lambda>e. re_node_id e = node_id) re_used 0 None tbl of
        Inl i \<Rightarrow>
          let e = tbl ! i;
              e1 = (if now - window_start_us e > RATE_LIMIT_WINDOW_US
                    then e\<lparr>window_start_us := now, re_count := 0\<rparr> else e);
              e2 = e1\<lparr>re_count := re_count e1 + 1\<rparr>
          in (re_count e2 > RATE_LIMIT_MAX_PER_WIN, c_store tbl i e2)
      | Inr free_slot \<Rightarrow>
          let slot = (case free_slot of None \<Rightarrow> oldest_slot window_start_us tbl | Some i \<Rightarrow> i)
          in (False, c_store tbl slot \<lparr>re_node_id = node_id, window_start_us = now, re_count = 1, re_used = True\<rparr>))"

text \<open>A run of the limiter over a sequence of packets (sender, time): the verdicts.\<close>

fun rate_run :: "(bytes \<times> int) list \<Rightarrow> rate_table \<Rightarrow> bool list" where
  "rate_run [] tbl = []"
| "rate_run ((nid, now) # evs) tbl =
     (case rate_limited nid now tbl of (lim, tbl') \<Rightarrow> lim # rate_run evs tbl')"

text \<open>How many packets of sender \<open>k\<close> pass.\<close>

definition passed :: "bytes \<Rightarrow> (bytes \<times> int) list \<Rightarrow> bool list \<Rightarrow> nat" where
  "passed k evs lims = length (filter (\<lambda>(ev, lim). fst ev = k \<and> \<not> lim) (zip evs lims))"

section \<open>The table as a bounded map\<close>

definition rate_refresh :: "int \<Rightarrow> rate_entry \<Rightarrow> rate_entry" where
  "rate_refresh now e =
     (if now - window_start_us e > RATE_LIMIT_WINDOW_US
      then e\<lparr>window_start_us := now, re_count := 1\<rparr> else e\<lparr>re_count := re_count e + 1\<rparr>)"

definition rate_fresh :: "bytes \<Rightarrow> int \<Rightarrow> rate_entry" where
  "rate_fresh nid now = \<lparr>re_node_id = nid, window_start_us = now, re_count = 1, re_used = True\<rparr>"

definition rate_step :: "bytes \<Rightarrow> int \<Rightarrow> rate_table \<Rightarrow> rate_table" where
  "rate_step nid now tbl = snd (rate_limited nid now tbl)"

definition rate_look :: "rate_table \<Rightarrow> bytes \<Rightarrow> rate_entry option" where
  "rate_look = slot_find re_node_id re_used"

definition rate_ok :: "rate_table \<Rightarrow> bool" where
  "rate_ok = slot_inv re_node_id re_used RATE_TABLE_SIZE"

interpretation rate_slots: slot_array rate_step re_node_id re_used window_start_us rate_refresh rate_fresh
    RATE_TABLE_SIZE
  by unfold_locales
    (auto simp: rate_step_def rate_limited_def slot_touch_def rate_refresh_def rate_fresh_def
        RATE_TABLE_SIZE_def Let_def slot_stores split: sum.splits option.splits)

interpretation rate: bounded_table rate_step rate_look rate_refresh rate_fresh window_start_us rate_ok
    RATE_TABLE_SIZE
  unfolding rate_look_def rate_ok_def by (rule rate_slots.bounded_table_axioms)

lemma rate_ok_init [simp]: "rate_ok rate_table_init"
  by (simp add: rate_ok_def slot_inv_def rate_table_init_def)

lemma rate_look_init [simp]: "rate_look rate_table_init = Map.empty"
  by (auto simp: rate_look_def slot_find_def rate_table_init_def find_None_iff)

lemma rate_verdict:
  assumes "rate_ok tbl"
  shows "fst (rate_limited nid now tbl) =
    (case rate_look tbl nid of None \<Rightarrow> False
     | Some e \<Rightarrow> re_count (rate_refresh now e) > RATE_LIMIT_MAX_PER_WIN)"
proof (cases "slot_scan (\<lambda>e. re_node_id e = nid) re_used 0 None tbl")
  case (Inl i)
  from slot_scan_Inl [OF Inl] have i: "i < length tbl" "re_used (tbl ! i)" "re_node_id (tbl ! i) = nid" by auto
  then have "rate_look tbl nid = Some (tbl ! i)"
    using assms slot_find_iff [of re_node_id re_used RATE_TABLE_SIZE tbl nid "tbl ! i"]
    by (auto simp: rate_look_def rate_ok_def slot_inv_def)
  then show ?thesis using Inl by (simp add: rate_limited_def rate_refresh_def Let_def rate_consts)
next
  case (Inr r)
  from slot_scan_Inr [OF Inr] have "rate_look tbl nid = None"
    by (auto simp: rate_look_def slot_find_def find_None_iff)
  then show ?thesis using Inr by (simp add: rate_limited_def Let_def)
qed

section \<open>One sender's view\<close>

text \<open>The packets of one sender that pass, computed from its own entry alone.\<close>

fun entry_passes :: "bytes \<Rightarrow> (bytes \<times> int) list \<Rightarrow> rate_entry option \<Rightarrow> nat" where
  "entry_passes k [] v = 0"
| "entry_passes k ((a, now) # evs) v =
     (if a = k
      then let e = (case v of None \<Rightarrow> rate_fresh k now | Some e \<Rightarrow> rate_refresh now e)
           in (if re_count e > RATE_LIMIT_MAX_PER_WIN then 0 else 1) + entry_passes k evs (Some e)
      else entry_passes k evs v)"

text \<open>The packets of \<open>k\<close> that arrived at time \<open>s\<close> or later.\<close>

definition arrived :: "bytes \<Rightarrow> (bytes \<times> int) list \<Rightarrow> int \<Rightarrow> nat" where
  "arrived k evs s = length (filter (\<lambda>ev. fst ev = k \<and> s \<le> snd ev) evs)"

lemma passed_entry:
  assumes "rate_ok tbl" "fst ` set evs \<union> dom (rate_look tbl) \<subseteq> K" "finite K" "card K \<le> RATE_TABLE_SIZE"
  shows "passed k evs (rate_run evs tbl) = entry_passes k evs (rate_look tbl k)"
  using assms(1,2)
proof (induction evs arbitrary: tbl)
  case Nil
  then show ?case by (simp add: passed_def)
next
  case (Cons ev evs)
  obtain a now where ev: "ev = (a, now)" by (cases ev)
  let ?t = "rate_step a now tbl"
  have "insert a (dom (rate_look tbl)) \<subseteq> K" using Cons.prems(2) by (auto simp: ev)
  note tw = rate.touch_within [OF Cons.prems(1) this assms(3,4), of now]
  have "fst ` set evs \<union> dom (rate_look ?t) \<subseteq> K"
    using Cons.prems(2) by (auto simp: tw ev split: if_splits)
  note IH = Cons.IH [OF rate.touch_ok [OF Cons.prems(1)] this]
  obtain lim where lim: "rate_limited a now tbl = (lim, ?t)"
    by (metis prod.collapse rate_step_def)
  have v: "lim = (case rate_look tbl a of None \<Rightarrow> False
     | Some e \<Rightarrow> re_count (rate_refresh now e) > RATE_LIMIT_MAX_PER_WIN)"
    using rate_verdict [OF Cons.prems(1), of a now] lim by simp
  have "passed k (ev # evs) (rate_run (ev # evs) tbl) =
      (if a = k \<and> \<not> lim then 1 else 0) + passed k evs (rate_run evs ?t)"
    by (simp add: ev lim passed_def)
  also have "\<dots> = entry_passes k (ev # evs) (rate_look tbl k)"
    unfolding IH using tw v
    by (cases "k = a"; cases "rate_look tbl a")
       (simp_all add: ev Let_def rate_fresh_def rate_consts)
  finally show ?case .
qed

lemma entry_passes_one_window:
  assumes "\<forall>(a, now) \<in> set evs. now \<le> window_start_us e + RATE_LIMIT_WINDOW_US" "0 \<le> re_count e"
  shows "entry_passes k evs (Some e) \<le> nat (RATE_LIMIT_MAX_PER_WIN - re_count e)"
  using assms
proof (induction evs arbitrary: e)
  case (Cons ev evs)
  obtain a now where ev: "ev = (a, now)" by (cases ev)
  show ?case
  proof (cases "a = k")
    case True
    have r: "rate_refresh now e = e\<lparr>re_count := re_count e + 1\<rparr>"
      using Cons.prems(1) by (auto simp: ev rate_refresh_def)
    have "entry_passes k evs (Some (rate_refresh now e)) \<le> nat (RATE_LIMIT_MAX_PER_WIN - (re_count e + 1))"
      using Cons.IH [of "rate_refresh now e"] Cons.prems by (simp add: r)
    then show ?thesis using True Cons.prems(2) by (auto simp: ev r Let_def)
  next
    case False
    with Cons show ?thesis by (simp add: ev)
  qed
qed simp

lemma entry_passes_span:
  assumes "\<forall>(a, now) \<in> set evs. t0 \<le> now \<and> now \<le> t0 + RATE_LIMIT_WINDOW_US"
    "\<And>e. v = Some e \<Longrightarrow> 0 \<le> re_count e"
  shows "entry_passes k evs v \<le> 20 + (case v of None \<Rightarrow> 0 | Some e \<Rightarrow> nat (RATE_LIMIT_MAX_PER_WIN - re_count e))"
  using assms
proof (induction evs arbitrary: v)
  case (Cons ev evs)
  obtain a now where ev: "ev = (a, now)" by (cases ev)
  have t: "t0 \<le> now" using Cons.prems(1) by (auto simp: ev)
  have rest: "\<forall>(a, now) \<in> set evs. t0 \<le> now \<and> now \<le> t0 + RATE_LIMIT_WINDOW_US"
    using Cons.prems(1) by simp
  have new: "entry_passes k evs (Some e) \<le> 19" if "window_start_us e = now" "re_count e = 1" for e
    using entry_passes_one_window [of evs e k] rest t that by (fastforce simp: rate_consts)
  show ?case
  proof (cases "a = k")
    case True
    show ?thesis
    proof (cases v)
      case None
      with True new [of "rate_fresh k now"] show ?thesis
        by (simp add: ev Let_def rate_fresh_def rate_consts)
    next
      case (Some e)
      show ?thesis
      proof (cases "now - window_start_us e > RATE_LIMIT_WINDOW_US")
        case True
        with Some \<open>a = k\<close> new [of "rate_refresh now e"] show ?thesis
          by (simp add: ev Let_def rate_refresh_def rate_consts)
      next
        case False
        then have r: "rate_refresh now e = e\<lparr>re_count := re_count e + 1\<rparr>" by (simp add: rate_refresh_def)
        have c: "0 \<le> re_count e" using Cons.prems(2) Some by simp
        then have "entry_passes k evs (Some (rate_refresh now e)) \<le> 20 + nat (RATE_LIMIT_MAX_PER_WIN - (re_count e + 1))"
          using Cons.IH [of "Some (rate_refresh now e)"] rest by (simp add: r)
        with c Some \<open>a = k\<close> show ?thesis by (auto simp: ev r Let_def)
      qed
    qed
  next
    case False
    with Cons.IH [OF rest Cons.prems(2)] show ?thesis by (simp add: ev)
  qed
qed simp

lemma entry_run_count:
  assumes "\<And>e. v = Some e \<Longrightarrow> 1 \<le> re_count e" "entry_run rate_refresh rate_fresh k evs v = Some e"
  shows "1 \<le> re_count e"
  using assms
proof (induction evs arbitrary: v)
  case (Cons ev evs)
  obtain a now where ev: "ev = (a, now)" by (cases ev)
  show ?case
    using Cons.prems by (intro Cons.IH) (auto simp: ev rate_fresh_def rate_refresh_def split: option.splits if_splits)
qed simp

text \<open>What every table reached from the initial one satisfies, evictions included: an entry never
  counts a packet that did not arrive since its window started.\<close>

definition rate_counts_arrivals :: "(bytes \<times> int) list \<Rightarrow> rate_table \<Rightarrow> bool" where
  "rate_counts_arrivals evs tbl \<longleftrightarrow> (\<forall>k e. rate_look tbl k = Some e \<longrightarrow>
     re_count e \<le> int (arrived k evs (window_start_us e)) \<and>
     window_start_us e \<in> snd ` set evs)"

lemma arrived_snoc: "arrived k (evs @ [(a, now)]) s = arrived k evs s + (if a = k \<and> s \<le> now then 1 else 0)"
  by (simp add: arrived_def)

lemma arrived_antimono: "s' \<le> s \<Longrightarrow> arrived k evs s \<le> arrived k evs s'"
  by (induction evs) (auto simp: arrived_def)

lemma rate_counts_step:
  assumes "rate_ok tbl" "rate_counts_arrivals evs tbl" "\<forall>ev \<in> set evs. snd ev \<le> now"
  shows "rate_counts_arrivals (evs @ [(a, now)]) (rate_step a now tbl)"
  unfolding rate_counts_arrivals_def
proof (intro allI impI)
  fix k e
  assume e: "rate_look (rate_step a now tbl) k = Some e"
  let ?G = "re_count e \<le> int (arrived k (evs @ [(a, now)]) (window_start_us e)) \<and>
    window_start_us e \<in> snd ` set (evs @ [(a, now)])"
  show ?G
  proof (cases "k = a")
    case False
    from rate.others_kept [OF assms(1) False e] assms(2)
    have "re_count e \<le> int (arrived k evs (window_start_us e))" "window_start_us e \<in> snd ` set evs"
      by (auto simp: rate_counts_arrivals_def)
    then show ?thesis by (auto simp: arrived_snoc)
  next
    case True
    have e': "e = (case rate_look tbl a of None \<Rightarrow> rate_fresh a now | Some v \<Rightarrow> rate_refresh now v)"
      using rate.touched_known [OF assms(1), of a now] e True by simp
    show ?thesis
    proof (cases "rate_look tbl a")
      case None
      with e' True show ?thesis by (simp add: arrived_snoc rate_fresh_def)
    next
      case (Some v)
      with assms(2) have v: "re_count v \<le> int (arrived a evs (window_start_us v))"
        "window_start_us v \<in> snd ` set evs" by (auto simp: rate_counts_arrivals_def)
      then have "window_start_us v \<le> now" using assms(3) by auto
      with v e' Some True show ?thesis
        by (auto simp: arrived_snoc rate_refresh_def)
    qed
  qed
qed

lemma rate_counts_run:
  assumes "sorted (map snd evs)"
  shows "rate_counts_arrivals evs (touch_all rate_step evs rate_table_init)"
  using assms
proof (induction evs rule: rev_induct)
  case Nil
  then show ?case by (simp add: rate_counts_arrivals_def)
next
  case (snoc ev evs)
  obtain a now where ev: "ev = (a, now)" by (cases ev)
  have "\<forall>ev \<in> set evs. snd ev \<le> now" "sorted (map snd evs)"
    using snoc.prems by (auto simp: ev sorted_append)
  with snoc.IH show ?case
    by (simp add: ev touch_all_append rate_counts_step rate.touch_all_ok)
qed

section \<open>Properties\<close>

text \<open>Property C29: the limit. Whatever was received before, as long as no more than 32 senders are
  heard (so no slot is recycled), no sender gets more than 40 packets through in any 60
  seconds: at most 20 in the window that is open when the interval starts and at most 20 in
  the one that starts within it.\<close>
theorem rate_limit_bound:
  assumes "card (fst ` set (pre @ evs)) \<le> RATE_TABLE_SIZE"
    and "\<forall>(a, now) \<in> set evs. t0 \<le> now \<and> now \<le> t0 + RATE_LIMIT_WINDOW_US"
  shows "passed k evs (rate_run evs (touch_all rate_step pre rate_table_init)) \<le> 40"
proof -
  let ?K = "fst ` set (pre @ evs)" and ?t = "touch_all rate_step pre rate_table_init"
  have ok: "rate_ok ?t" by (simp add: rate.touch_all_ok)
  have run: "rate_look ?t k' = entry_run rate_refresh rate_fresh k' pre None" for k'
    using rate.look_touch_all [of rate_table_init pre ?K k'] assms(1) by auto
  have "entry_run rate_refresh rate_fresh k' pre None = None" if "k' \<notin> fst ` set pre" for k'
    using that by (rule entry_run_other)
  then have "dom (rate_look ?t) \<subseteq> fst ` set pre"
    by (force simp: run dom_def)
  then have "passed k evs (rate_run evs ?t) = entry_passes k evs (rate_look ?t k)"
    using assms(1) by (intro passed_entry [OF ok, of evs ?K]) auto
  moreover have cnt: "1 \<le> re_count e" if "rate_look ?t k = Some e" for e
    using that entry_run_count [of None k pre e] by (simp add: run)
  have "entry_passes k evs (rate_look ?t k) \<le>
      20 + (case rate_look ?t k of None \<Rightarrow> 0 | Some e \<Rightarrow> nat (RATE_LIMIT_MAX_PER_WIN - re_count e))"
    using cnt by (intro entry_passes_span [OF assms(2)]) fastforce
  then have "entry_passes k evs (rate_look ?t k) \<le> 40"
    using cnt by (cases "rate_look ?t k") (fastforce simp: rate_consts)+
  ultimately show ?thesis by simp
qed

theorem rate_limit_bound_witness:
  "passed [1] [([1], 5), ([2], 6)] (rate_run [([1], 5), ([2], 6)]
     (touch_all rate_step [([3], 1)] rate_table_init)) \<le> 40"
  by (rule rate_limit_bound [of _ _ 0]) (simp_all add: rate_consts)

text \<open>No false alarm. A packet is refused only if its sender really did send at least
  20 other packets within the last 60 seconds: whatever else is received, from however many
  senders, a sender that stays within 20 packets per minute is never limited.\<close>
theorem rate_limit_no_false_alarm:
  assumes "sorted (map snd evs)" and "\<forall>ev \<in> set evs. snd ev \<le> now"
    and "fst (rate_limited k now (touch_all rate_step evs rate_table_init))"
  shows "20 \<le> arrived k evs (now - RATE_LIMIT_WINDOW_US)"
proof -
  let ?t = "touch_all rate_step evs rate_table_init"
  have ok: "rate_ok ?t" by (simp add: rate.touch_all_ok)
  obtain e where e: "rate_look ?t k = Some e" and c: "re_count (rate_refresh now e) > 20"
    using assms(3) by (auto simp: rate_verdict [OF ok] rate_consts split: option.splits)
  then have w: "now - RATE_LIMIT_WINDOW_US \<le> window_start_us e" and c20: "20 \<le> re_count e"
    by (auto simp: rate_refresh_def split: if_splits)
  have "re_count e \<le> int (arrived k evs (window_start_us e))"
    using rate_counts_run [OF assms(1)] e by (simp add: rate_counts_arrivals_def)
  with c20 arrived_antimono [OF w, of k evs] show ?thesis by linarith
qed

text \<open>Twenty packets of one sender in a row, then a twenty-first.\<close>

theorem rate_limit_no_false_alarm_witness:
  "fst (rate_limited [1] 100 (touch_all rate_step (replicate 20 ([1], 5)) rate_table_init)) \<and>
   20 \<le> arrived [1] (replicate 20 ([1], 5)) (100 - RATE_LIMIT_WINDOW_US)"
proof -
  let ?evs = "replicate 20 ([1 :: byte], 5 :: int)"
  let ?t = "touch_all rate_step ?evs rate_table_init"
  have "rate_look ?t [1] = entry_run rate_refresh rate_fresh [1] ?evs None"
    using rate.look_touch_all [of rate_table_init ?evs "{[1]}" "[1]"] by (simp add: rate_consts)
  also have "\<dots> = Some \<lparr>re_node_id = [1], window_start_us = 5, re_count = 20, re_used = True\<rparr>"
    by (simp add: numeral_eq_Suc rate_fresh_def rate_refresh_def rate_consts)
  finally have l: "fst (rate_limited [1] 100 ?t)"
    by (simp add: rate_verdict rate.touch_all_ok rate_refresh_def rate_consts)
  have s: "sorted (map snd ?evs)" by (simp add: sorted_replicate)
  have "\<forall>ev \<in> set ?evs. snd ev \<le> 100" by simp
  from rate_limit_no_false_alarm [OF s this l] l show ?thesis by simp
qed

text \<open>What a full table forgives. When all 32 slots are taken and one sender's window is
  the oldest, a single packet that names a new sender evicts it: that sender's next packet
  passes, however far it was over the limit.\<close>
theorem rate_evict_forgives:
  assumes "rate_ok tbl" and "card (dom (rate_look tbl)) = RATE_TABLE_SIZE"
    and "rate_look tbl k = Some e" and "rate_look tbl k' = None"
    and "\<forall>a v. rate_look tbl a = Some v \<and> a \<noteq> k \<longrightarrow> window_start_us e < window_start_us v"
  shows "\<not> fst (rate_limited k later (rate_step k' now tbl))"
proof -
  from rate.touch_evict [OF assms(1,4,2), of now] obtain k0 v0 where
    v0: "rate_look tbl k0 = Some v0" "\<And>a v. rate_look tbl a = Some v \<Longrightarrow> window_start_us v0 \<le> window_start_us v"
      "rate_look (rate_step k' now tbl) = (rate_look tbl)(k0 := None, k' \<mapsto> rate_fresh k' now)" by blast
  have "k0 = k"
  proof (rule ccontr)
    assume "k0 \<noteq> k"
    with assms(5) v0(1) have "window_start_us e < window_start_us v0" by blast
    with v0(2) [OF assms(3)] show False by simp
  qed
  then have "rate_look (rate_step k' now tbl) k = None"
    using v0(3) assms(3,4) by auto
  then show ?thesis by (simp add: rate_verdict rate.touch_ok assms(1))
qed

definition ex_full_table :: rate_table where
  "ex_full_table = map (\<lambda>i. \<lparr>re_node_id = [of_nat i], window_start_us = int i, re_count = 90, re_used = True\<rparr>) [0..<32]"

lemma ex_full_table_nth: "i < 32 \<Longrightarrow> ex_full_table ! i =
    \<lparr>re_node_id = [of_nat i], window_start_us = int i, re_count = 90, re_used = True\<rparr>"
  by (simp add: ex_full_table_def)

lemma of_nat_byte_inj: "i < 256 \<Longrightarrow> j < 256 \<Longrightarrow> (of_nat i :: byte) = of_nat j \<longleftrightarrow> i = j"
  by (metis unat_of_nat_byte)

lemma ex_full_table_ok: "rate_ok ex_full_table"
  by (auto simp: rate_ok_def slot_inv_def rate_consts ex_full_table_nth of_nat_byte_inj)
     (simp add: ex_full_table_def)

lemma ex_full_table_look: "rate_look ex_full_table k = Some e \<longleftrightarrow> (\<exists>i<32. ex_full_table ! i = e \<and> k = [of_nat i])"
  using slot_find_iff [OF ex_full_table_ok [unfolded rate_ok_def], of k e]
  by (auto simp: rate_look_def rate_consts ex_full_table_nth)

theorem rate_evict_forgives_witness:
  "fst (rate_limited [0] 50 ex_full_table) \<and>
   \<not> fst (rate_limited [0] 50 (rate_step [100] 49 ex_full_table))"
proof -
  have c: "card (dom (rate_look ex_full_table)) = RATE_TABLE_SIZE"
    unfolding rate_look_def
    by (rule card_slot_le(3) [OF ex_full_table_ok [unfolded rate_ok_def]]) (simp add: ex_full_table_def)
  have k: "rate_look ex_full_table [0] = Some (ex_full_table ! 0)"
    unfolding ex_full_table_look by (auto intro: exI [of _ 0])
  have "\<not> (\<exists>e. rate_look ex_full_table [100] = Some e)"
  proof
    assume "\<exists>e. rate_look ex_full_table [100] = Some e"
    then obtain i :: nat where "i < 32" "(100 :: byte) = of_nat i" by (auto simp: ex_full_table_look)
    with of_nat_byte_inj [of 100 i] show False by simp
  qed
  then have k': "rate_look ex_full_table [100] = None" by simp
  have old: "\<forall>a v. rate_look ex_full_table a = Some v \<and> a \<noteq> [0] \<longrightarrow>
      window_start_us (ex_full_table ! 0) < window_start_us v"
  proof (intro allI impI, elim conjE)
    fix a v
    assume "rate_look ex_full_table a = Some v" "a \<noteq> [0]"
    then obtain i where "i < 32" "ex_full_table ! i = v" "a = [of_nat i]" by (auto simp: ex_full_table_look)
    moreover from this \<open>a \<noteq> [0]\<close> have "i \<noteq> 0" by (cases i) auto
    ultimately show "window_start_us (ex_full_table ! 0) < window_start_us v"
      by (auto simp: ex_full_table_nth)
  qed
  have "fst (rate_limited [0] 50 ex_full_table)"
    by (simp add: rate_verdict [OF ex_full_table_ok] k ex_full_table_nth rate_refresh_def rate_consts)
  with rate_evict_forgives [OF ex_full_table_ok c k k' old] show ?thesis by blast
qed

end
