(* ===== verification/Presence.thy ===== *)
theory Presence
  imports Pkt SlotTable Platform
begin

text \<open>
  The presence table and the beacon timer, \<open>firmware/components/mesh/presence.c\<close>: the 32 nodes
  heard most recently, and the time of the next presence beacon. Arguments named \<open>now\<close> are the
  value of \<open>esp_timer_get_time()\<close> at the call, \<open>r\<close> the value of \<open>esp_random()\<close>.
\<close>

section \<open>State and operations\<close>

definition PRESENCE_TABLE_SIZE :: nat where "PRESENCE_TABLE_SIZE = 32"
definition BEACON_INTERVAL_MIN_US :: int where "BEACON_INTERVAL_MIN_US = 60 * 1000000"
definition BEACON_INTERVAL_MAX_US :: int where "BEACON_INTERVAL_MAX_US = 120 * 1000000"

lemmas presence_consts = PRESENCE_TABLE_SIZE_def BEACON_INTERVAL_MIN_US_def BEACON_INTERVAL_MAX_US_def

record presence_entry =
  pe_node_id :: bytes
  last_seen_us :: int
  pe_used :: bool

type_synonym presence_table = "presence_entry list"

record presence =
  s_table :: presence_table
  s_next_beacon_us :: int

definition next_beacon_delay_us :: "u32 \<Rightarrow> int" where
  "next_beacon_delay_us r =
     (let span = BEACON_INTERVAL_MAX_US - BEACON_INTERVAL_MIN_US
      in BEACON_INTERVAL_MIN_US + uint r mod span)"

definition presence_init :: "int \<Rightarrow> u32 \<Rightarrow> presence" where
  "presence_init now r = \<lparr>
     s_table = replicate PRESENCE_TABLE_SIZE
       \<lparr>pe_node_id = replicate PKT_NODE_ID_LEN 0, last_seen_us = 0, pe_used = False\<rparr>,
     s_next_beacon_us = now + next_beacon_delay_us r\<rparr>"

definition presence_touch_table :: "bytes \<Rightarrow> int \<Rightarrow> presence_table \<Rightarrow> presence_table" where
  "presence_touch_table node_id now tbl =
     (case slot_scan (\<lambda>e. pe_node_id e = node_id) pe_used 0 None tbl of
        Inl i \<Rightarrow> c_store tbl i ((tbl ! i)\<lparr>last_seen_us := now\<rparr>)
      | Inr free_slot \<Rightarrow>
          let slot = (case free_slot of None \<Rightarrow> oldest_slot last_seen_us tbl | Some i \<Rightarrow> i)
          in c_store tbl slot \<lparr>pe_node_id = node_id, last_seen_us = now, pe_used = True\<rparr>)"

definition presence_touch :: "bytes \<Rightarrow> int \<Rightarrow> presence \<Rightarrow> presence" where
  "presence_touch node_id now s = s\<lparr>s_table := presence_touch_table node_id now (s_table s)\<rparr>"

definition presence_seen_recently :: "bytes \<Rightarrow> u32 \<Rightarrow> int \<Rightarrow> presence \<Rightarrow> bool" where
  "presence_seen_recently node_id max_age_ms now s =
     (case find (\<lambda>e. pe_used e \<and> pe_node_id e = node_id) (s_table s) of
        None \<Rightarrow> False
      | Some e \<Rightarrow> now - last_seen_us e \<le> uint max_age_ms * 1000)"

definition presence_beacon_due :: "int \<Rightarrow> presence \<Rightarrow> bool" where
  "presence_beacon_due now s \<longleftrightarrow> now \<ge> s_next_beacon_us s"

definition presence_beacon_reset_timer :: "int \<Rightarrow> u32 \<Rightarrow> presence \<Rightarrow> presence" where
  "presence_beacon_reset_timer now r s = s\<lparr>s_next_beacon_us := now + next_beacon_delay_us r\<rparr>"

section \<open>The table as a bounded map\<close>

definition presence_fresh :: "bytes \<Rightarrow> int \<Rightarrow> presence_entry" where
  "presence_fresh nid now = \<lparr>pe_node_id = nid, last_seen_us = now, pe_used = True\<rparr>"

definition presence_refresh :: "int \<Rightarrow> presence_entry \<Rightarrow> presence_entry" where
  "presence_refresh now e = e\<lparr>last_seen_us := now\<rparr>"

definition presence_look :: "presence_table \<Rightarrow> bytes \<Rightarrow> presence_entry option" where
  "presence_look = slot_find pe_node_id pe_used"

definition presence_ok :: "presence_table \<Rightarrow> bool" where
  "presence_ok = slot_inv pe_node_id pe_used PRESENCE_TABLE_SIZE"

interpretation presence_slots: slot_array presence_touch_table pe_node_id pe_used last_seen_us
    presence_refresh presence_fresh PRESENCE_TABLE_SIZE
  by unfold_locales
    (auto simp: presence_touch_table_def slot_touch_def presence_refresh_def presence_fresh_def
        PRESENCE_TABLE_SIZE_def Let_def slot_stores split: sum.splits option.splits)

interpretation presence: bounded_table presence_touch_table presence_look presence_refresh presence_fresh
    last_seen_us presence_ok PRESENCE_TABLE_SIZE
  unfolding presence_look_def presence_ok_def by (rule presence_slots.bounded_table_axioms)

lemma presence_ok_init [simp]: "presence_ok (s_table (presence_init now r))"
  by (simp add: presence_ok_def slot_inv_def presence_init_def)

lemma presence_look_init [simp]: "presence_look (s_table (presence_init now r)) = Map.empty"
  by (auto simp: presence_look_def slot_find_def presence_init_def find_None_iff)

lemma presence_seen_look:
  "presence_seen_recently nid age now s =
     (case presence_look (s_table s) nid of None \<Rightarrow> False | Some e \<Rightarrow> now - last_seen_us e \<le> uint age * 1000)"
  by (simp add: presence_seen_recently_def presence_look_def slot_find_def)

lemma uint_u32_lt [simp]: "uint (r :: u32) < 4294967296"
  using uint_lt2p [of r] by simp

lemma next_beacon_delay_bounds:
  "BEACON_INTERVAL_MIN_US \<le> next_beacon_delay_us r" "next_beacon_delay_us r < BEACON_INTERVAL_MAX_US"
  by (auto simp: next_beacon_delay_us_def presence_consts)

section \<open>The abstract specification: a least-recently-seen list\<close>

text \<open>Nodes with the time they were last heard, newest first, at most \<open>cap\<close> of them.\<close>

definition lru_touch :: "nat \<Rightarrow> 'k \<Rightarrow> int \<Rightarrow> ('k \<times> int) list \<Rightarrow> ('k \<times> int) list" where
  "lru_touch cap k now xs = take cap ((k, now) # filter (\<lambda>p. fst p \<noteq> k) xs)"

definition lru_rel :: "presence_table \<Rightarrow> (bytes \<times> int) list \<Rightarrow> bool" where
  "lru_rel tbl xs \<longleftrightarrow> presence_ok tbl \<and> distinct (map fst xs) \<and> sorted_wrt (\<lambda>p q. snd q < snd p) xs \<and>
     (\<forall>k. map_option last_seen_us (presence_look tbl k) = map_of xs k)"

lemma lru_rel_dom: "lru_rel tbl xs \<Longrightarrow> dom (presence_look tbl) = fst ` set xs"
proof -
  assume "lru_rel tbl xs"
  then have "presence_look tbl k = None \<longleftrightarrow> map_of xs k = None" for k
    unfolding lru_rel_def by (metis map_option_is_None)
  then show ?thesis by (force simp: dom_def map_of_eq_None_iff)
qed

lemma lru_rel_length: "lru_rel tbl xs \<Longrightarrow> length xs = card (dom (presence_look tbl))"
  by (simp add: lru_rel_dom) (metis distinct_card length_map lru_rel_def set_map)

lemma map_of_filter_neq:
  "map_of (filter (\<lambda>p. fst p \<noteq> k) xs) = (map_of xs)(k := None)"
  by (induction xs) (auto simp: fun_eq_iff)

lemma lru_touch_sorted:
  assumes "sorted_wrt (\<lambda>p q. snd q < snd p) xs" "distinct (map fst xs)" "\<forall>p\<in>set xs. snd p < now"
  shows "sorted_wrt (\<lambda>p q. snd q < snd p) (lru_touch cap k now xs) \<and> distinct (map fst (lru_touch cap k now xs))"
proof -
  let ?f = "filter (\<lambda>p. fst p \<noteq> k) xs"
  have s: "sorted_wrt (\<lambda>p q. snd q < snd p) ((k, now) # ?f)"
    using assms(1,3) by (simp add: sorted_wrt_filter)
  have "distinct (map fst ?f)" using assms(2) by (rule distinct_map_filter)
  then have "distinct (map fst ((k, now) # ?f))" by auto
  then have "distinct (map fst (take cap ((k, now) # ?f)))"
    unfolding take_map [symmetric] by (rule distinct_take)
  with sorted_wrt_take [OF s, of cap] show ?thesis
    unfolding lru_touch_def by blast
qed

lemma lru_rel_last:
  assumes "lru_rel tbl xs" "xs \<noteq> []" "presence_look tbl k0 = Some v0"
    "\<And>a v. presence_look tbl a = Some v \<Longrightarrow> last_seen_us v0 \<le> last_seen_us v"
  shows "k0 = fst (last xs)"
proof (rule ccontr)
  assume ne: "k0 \<noteq> fst (last xs)"
  from assms(1) have d: "distinct (map fst xs)" and so: "sorted_wrt (\<lambda>p q. snd q < snd p) xs"
    and m: "\<And>k. map_option last_seen_us (presence_look tbl k) = map_of xs k"
    by (auto simp: lru_rel_def)
  have bl: "xs = butlast xs @ [last xs]" using assms(2) by simp
  have "map_of xs k0 = Some (last_seen_us v0)" using m [of k0] assms(3) by simp
  then have "(k0, last_seen_us v0) \<in> set xs" by (rule map_of_SomeD)
  then have "(k0, last_seen_us v0) \<in> set (butlast xs @ [last xs])" using bl by simp
  moreover have "(k0, last_seen_us v0) \<noteq> last xs" using ne by (metis fst_conv)
  ultimately have "(k0, last_seen_us v0) \<in> set (butlast xs)" by auto
  moreover have "sorted_wrt (\<lambda>p q. snd q < snd p) (butlast xs @ [last xs])" using so bl by simp
  ultimately have lt: "snd (last xs) < last_seen_us v0" by (auto simp: sorted_wrt_append)
  have "map_of xs (fst (last xs)) = Some (snd (last xs))"
    using d assms(2) by (simp add: map_of_is_SomeI)
  with m [of "fst (last xs)"] obtain v where "presence_look tbl (fst (last xs)) = Some v"
    "last_seen_us v = snd (last xs)" by auto
  with assms(4) lt show False by fastforce
qed

lemma map_of_butlast:
  assumes "distinct (map fst xs)" "xs \<noteq> []"
  shows "map_of (butlast xs) = (map_of xs)(fst (last xs) := None)"
proof -
  obtain ys y where xs: "xs = ys @ [y]" using assms(2) by (metis append_butlast_last_id)
  then have "map_of ys (fst y) = None" using assms(1) by (force simp: map_of_eq_None_iff)
  then show ?thesis by (auto simp: xs fun_eq_iff map_add_def split: option.splits)
qed

lemma lru_rel_touch:
  assumes rel: "lru_rel tbl xs" and old: "\<forall>p\<in>set xs. snd p < now"
  shows "lru_rel (presence_touch_table k now tbl) (lru_touch PRESENCE_TABLE_SIZE k now xs)"
proof -
  from rel have ok: "presence_ok tbl" and d: "distinct (map fst xs)"
    and so: "sorted_wrt (\<lambda>p q. snd q < snd p) xs"
    and m: "\<And>k. map_option last_seen_us (presence_look tbl k) = map_of xs k"
    by (auto simp: lru_rel_def)
  let ?t = "presence_touch_table k now tbl" and ?ys = "lru_touch PRESENCE_TABLE_SIZE k now xs"
  let ?f = "filter (\<lambda>p. fst p \<noteq> k) xs"
  have len: "length xs \<le> PRESENCE_TABLE_SIZE"
    using lru_rel_length [OF rel] presence.look_card [OF ok] by simp
  have "map_option last_seen_us (presence_look ?t a) = map_of ?ys a" for a
  proof (cases "presence_look tbl k")
    case (Some v)
    then have "k \<in> fst ` set xs" using lru_rel_dom [OF rel] by auto
    then have "length ?f < length xs" by (auto intro: length_filter_less)
    with len have "?ys = (k, now) # ?f" by (simp add: lru_touch_def)
    then show ?thesis
      using presence.touch_hit [OF ok Some, of now] m
      by (simp add: map_of_filter_neq presence_refresh_def)
  next
    case None
    then have k: "k \<notin> fst ` set xs" using lru_rel_dom [OF rel] by auto
    then have f: "?f = xs" by (force simp: filter_id_conv)
    show ?thesis
    proof (cases "card (dom (presence_look tbl)) = PRESENCE_TABLE_SIZE")
      case False
      then have c: "card (dom (presence_look tbl)) < PRESENCE_TABLE_SIZE"
        using presence.look_card [OF ok] by simp
      then have "?ys = (k, now) # xs"
        using lru_rel_length [OF rel] by (simp add: lru_touch_def f)
      then show ?thesis
        using presence.touch_room [OF ok None c, of now] m by (simp add: presence_fresh_def)
    next
      case True
      from presence.touch_evict [OF ok None True, of now] obtain k0 v0 where
        v0: "presence_look tbl k0 = Some v0"
          "\<And>a v. presence_look tbl a = Some v \<Longrightarrow> last_seen_us v0 \<le> last_seen_us v"
          "presence_look ?t = (presence_look tbl)(k0 := None, k \<mapsto> presence_fresh k now)" by blast
      have l32: "length xs = 32" using lru_rel_length [OF rel] True by (simp add: presence_consts)
      then have ne: "xs \<noteq> []" by auto
      note k0 = lru_rel_last [OF rel ne v0(1,2)]
      have "?ys = (k, now) # butlast xs"
        using l32 by (simp add: lru_touch_def f presence_consts butlast_conv_take)
      then show ?thesis
        using v0(3) m k0 by (simp add: map_of_butlast [OF d ne] presence_fresh_def)
    qed
  qed
  then show ?thesis
    using presence.touch_ok [OF ok] lru_touch_sorted [OF so d old] by (simp add: lru_rel_def)
qed

lemma lru_rel_init: "lru_rel (s_table (presence_init now r)) []"
  by (simp add: lru_rel_def)

lemma lru_rel_seen:
  assumes "lru_rel (s_table s) xs"
  shows "presence_seen_recently a age now s \<longleftrightarrow> (\<exists>t. map_of xs a = Some t \<and> now - t \<le> uint age * 1000)"
proof -
  have "map_option last_seen_us (presence_look (s_table s) a) = map_of xs a"
    using assms by (simp add: lru_rel_def)
  then show ?thesis by (cases "presence_look (s_table s) a") (auto simp: presence_seen_look dest: sym)
qed

section \<open>Properties\<close>

text \<open>Property C30: the presence table is a least-recently-seen list of 32 nodes. Touching a node
  moves it to the front with the current time, and when a 33rd node is heard exactly the node
  heard longest ago drops out; and \<open>presence_seen_recently\<close> answers from that list: the node is
  in it and its last packet is at most \<open>max_age_ms\<close> old.\<close>
theorem presence_refines_lru:
  assumes "lru_rel (s_table s) xs" and "\<forall>p \<in> set xs. snd p < now"
  shows "lru_rel (s_table (presence_touch k now s)) (lru_touch PRESENCE_TABLE_SIZE k now xs) \<and>
    (presence_seen_recently a max_age_ms later (presence_touch k now s) \<longleftrightarrow>
      (\<exists>t. map_of (lru_touch PRESENCE_TABLE_SIZE k now xs) a = Some t \<and> later - t \<le> uint max_age_ms * 1000))"
proof -
  have "lru_rel (s_table (presence_touch k now s)) (lru_touch PRESENCE_TABLE_SIZE k now xs)"
    using lru_rel_touch [OF assms] by (simp add: presence_touch_def)
  with lru_rel_seen [OF this] show ?thesis by blast
qed

theorem presence_refines_lru_witness:
  "presence_seen_recently [7] 2 3000 (presence_touch [7] 1000 (presence_init 0 0)) \<and>
   \<not> presence_seen_recently [7] 1 3000 (presence_touch [7] 1000 (presence_init 0 0))"
  using presence_refines_lru [OF lru_rel_init [of 0 0], of 1000 "[7]" "[7]" 2 3000]
    presence_refines_lru [OF lru_rel_init [of 0 0], of 1000 "[7]" "[7]" 1 3000]
  by (simp add: lru_touch_def presence_consts)

text \<open>The beacon timer. Whatever the random generator returns and whatever is heard in
  between, a beacon is not due during the 60 seconds after the timer was set (by
  \<open>presence_init\<close> or by \<open>presence_beacon_reset_timer\<close>) and is due from 120 seconds on.\<close>
theorem presence_beacon_schedule:
  assumes "s = presence_init t0 r \<or> s = presence_beacon_reset_timer t0 r s0"
  shows "(now < t0 + BEACON_INTERVAL_MIN_US \<longrightarrow> \<not> presence_beacon_due now s) \<and>
    (t0 + BEACON_INTERVAL_MAX_US \<le> now \<longrightarrow> presence_beacon_due now s) \<and>
    presence_beacon_due now (presence_touch k t1 s) = presence_beacon_due now s"
proof -
  have "s_next_beacon_us s = t0 + next_beacon_delay_us r"
    using assms by (auto simp: presence_init_def presence_beacon_reset_timer_def)
  with next_beacon_delay_bounds [of r] show ?thesis
    by (simp add: presence_beacon_due_def presence_touch_def)
qed

theorem presence_beacon_schedule_witness:
  "\<not> presence_beacon_due 59999999 (presence_init 0 12345) \<and> presence_beacon_due 120000000 (presence_init 0 12345)"
  using presence_beacon_schedule [of "presence_init 0 12345" 0 12345 undefined 59999999 undefined undefined]
    presence_beacon_schedule [of "presence_init 0 12345" 0 12345 undefined 120000000 undefined undefined]
  by (simp add: presence_consts)

end
