(* ===== verification/Sx1262.thy ===== *)
theory Sx1262
  imports Prelude
begin

text \<open>
  The LoRa radio driver, \<open>firmware/components/radio/sx1262.c\<close>. The chip is outside the
  repository: what it answers on SPI (\<open>miso\<close>), the level of its BUSY pin at each poll
  (\<open>busy_pin\<close>) and whether the TxDone semaphore is given before a blocking wait times out
  (\<open>tx_wait\<close>) are streams in the driver's state record. Everything the driver sends to the
  chip is recorded in \<open>spi_log\<close>, one byte list per SPI transaction.
\<close>

unbundle bit_operations_syntax

section \<open>Command codes and configuration\<close>

definition SX1262_OP_SET_STANDBY :: byte where "SX1262_OP_SET_STANDBY = 0x80"
definition SX1262_OP_SET_TX :: byte where "SX1262_OP_SET_TX = 0x83"
definition SX1262_OP_SET_RX :: byte where "SX1262_OP_SET_RX = 0x82"
definition SX1262_OP_SET_REGULATOR_MODE :: byte where "SX1262_OP_SET_REGULATOR_MODE = 0x96"
definition SX1262_OP_CALIBRATE :: byte where "SX1262_OP_CALIBRATE = 0x89"
definition SX1262_OP_SET_PA_CONFIG :: byte where "SX1262_OP_SET_PA_CONFIG = 0x95"
definition SX1262_OP_WRITE_BUFFER :: byte where "SX1262_OP_WRITE_BUFFER = 0x0E"
definition SX1262_OP_READ_BUFFER :: byte where "SX1262_OP_READ_BUFFER = 0x1E"
definition SX1262_OP_SET_DIO_IRQ_PARAMS :: byte where "SX1262_OP_SET_DIO_IRQ_PARAMS = 0x08"
definition SX1262_OP_GET_IRQ_STATUS :: byte where "SX1262_OP_GET_IRQ_STATUS = 0x12"
definition SX1262_OP_CLEAR_IRQ_STATUS :: byte where "SX1262_OP_CLEAR_IRQ_STATUS = 0x02"
definition SX1262_OP_SET_RF_FREQUENCY :: byte where "SX1262_OP_SET_RF_FREQUENCY = 0x86"
definition SX1262_OP_SET_PACKET_TYPE :: byte where "SX1262_OP_SET_PACKET_TYPE = 0x8A"
definition SX1262_OP_SET_TX_PARAMS :: byte where "SX1262_OP_SET_TX_PARAMS = 0x8E"
definition SX1262_OP_SET_MODULATION_PARAMS :: byte where "SX1262_OP_SET_MODULATION_PARAMS = 0x8B"
definition SX1262_OP_SET_PACKET_PARAMS :: byte where "SX1262_OP_SET_PACKET_PARAMS = 0x8C"
definition SX1262_OP_SET_BUFFER_BASE_ADDR :: byte where "SX1262_OP_SET_BUFFER_BASE_ADDR = 0x8F"
definition SX1262_OP_GET_RX_BUFFER_STATUS :: byte where "SX1262_OP_GET_RX_BUFFER_STATUS = 0x13"
definition SX1262_OP_GET_PACKET_STATUS :: byte where "SX1262_OP_GET_PACKET_STATUS = 0x14"
definition SX1262_PACKET_TYPE_LORA :: byte where "SX1262_PACKET_TYPE_LORA = 0x01"

definition SX1262_IRQ_TX_DONE :: u16 where "SX1262_IRQ_TX_DONE = push_bit 0 1"
definition SX1262_IRQ_RX_DONE :: u16 where "SX1262_IRQ_RX_DONE = push_bit 1 1"
definition SX1262_IRQ_CRC_ERR :: u16 where "SX1262_IRQ_CRC_ERR = push_bit 6 1"

definition SX1262_BW_125 :: byte where "SX1262_BW_125 = 0x04"
definition SX1262_CR_4_5 :: byte where "SX1262_CR_4_5 = 0x01"

lemmas sx_ops = SX1262_OP_SET_STANDBY_def SX1262_OP_SET_TX_def SX1262_OP_SET_RX_def
  SX1262_OP_SET_REGULATOR_MODE_def SX1262_OP_CALIBRATE_def SX1262_OP_SET_PA_CONFIG_def
  SX1262_OP_WRITE_BUFFER_def SX1262_OP_READ_BUFFER_def SX1262_OP_SET_DIO_IRQ_PARAMS_def
  SX1262_OP_GET_IRQ_STATUS_def SX1262_OP_CLEAR_IRQ_STATUS_def SX1262_OP_SET_RF_FREQUENCY_def
  SX1262_OP_SET_PACKET_TYPE_def SX1262_OP_SET_TX_PARAMS_def SX1262_OP_SET_MODULATION_PARAMS_def
  SX1262_OP_SET_PACKET_PARAMS_def SX1262_OP_SET_BUFFER_BASE_ADDR_def
  SX1262_OP_GET_RX_BUFFER_STATUS_def SX1262_OP_GET_PACKET_STATUS_def SX1262_PACKET_TYPE_LORA_def

lemmas sx_irqs = SX1262_IRQ_TX_DONE_def SX1262_IRQ_RX_DONE_def SX1262_IRQ_CRC_ERR_def

record sx1262_config =
  freq_hz :: u32
  sf :: byte
  bw :: byte
  cr :: byte
  tx_power_dbm :: byte

section \<open>Driver state and SPI access\<close>

record radio =
  spi_log :: "bytes list"
  miso :: "nat \<Rightarrow> nat \<Rightarrow> byte"
  busy_pin :: "nat \<Rightarrow> bool"
  busy_polls :: nat
  rx_cb_set :: bool
  rx_enabled :: bool
  tx_done_sem :: bool
  tx_wait :: "nat \<Rightarrow> bool"
  tx_waits :: nat

text \<open>The BUSY loop from poll \<open>n\<close> with \<open>guard\<close> delays spent: the number of polls made so far and
  of delays spent when the loop is left.\<close>

function wait_busy_loop :: "(nat \<Rightarrow> bool) \<Rightarrow> nat \<Rightarrow> nat \<Rightarrow> nat \<times> nat" where
  "wait_busy_loop pin n guard =
     (if \<not> pin n then (Suc n, guard)
      else if Suc guard > 100000 then (Suc n, Suc guard)
      else wait_busy_loop pin (Suc n) (Suc guard))"
  by pat_completeness auto
termination by (relation "measure (\<lambda>(pin, n, guard). 100001 - guard)") auto

declare wait_busy_loop.simps [simp del]

definition wait_busy :: "radio \<Rightarrow> radio" where
  "wait_busy r = r\<lparr>busy_polls := fst (wait_busy_loop (busy_pin r) (busy_polls r) 0)\<rparr>"

definition spi_device_transmit :: "bytes \<Rightarrow> radio \<Rightarrow> radio" where
  "spi_device_transmit tx r = r\<lparr>spi_log := spi_log r @ [tx]\<rparr>"

definition sx1262_write :: "byte \<Rightarrow> bytes \<Rightarrow> radio \<Rightarrow> radio" where
  "sx1262_write opcode data r = wait_busy (spi_device_transmit (opcode # data) (wait_busy r))"

definition sx1262_read :: "byte \<Rightarrow> bytes \<Rightarrow> nat \<Rightarrow> radio \<Rightarrow> bytes \<times> radio" where
  "sx1262_read opcode addr out_len r =
     (let r1 = wait_busy r;
          k = length (spi_log r1);
          r2 = spi_device_transmit (opcode # addr @ replicate (1 + out_len) 0) r1;
          out = map (\<lambda>i. miso r2 k (1 + length addr + 1 + i)) [0..<out_len]
      in (out, wait_busy r2))"

section \<open>Commands\<close>

definition hi_byte :: "u16 \<Rightarrow> byte" where "hi_byte w = ucast (drop_bit 8 w)"
definition lo_byte :: "u16 \<Rightarrow> byte" where "lo_byte w = ucast (w AND 0xFF)"

definition set_dio_irq_params :: "u16 \<Rightarrow> u16 \<Rightarrow> radio \<Rightarrow> radio" where
  "set_dio_irq_params irq_mask dio1_mask =
     sx1262_write SX1262_OP_SET_DIO_IRQ_PARAMS
       [hi_byte irq_mask, lo_byte irq_mask, hi_byte dio1_mask, lo_byte dio1_mask, 0, 0, 0, 0]"

definition rf_freq_reg :: "u32 \<Rightarrow> u32" where
  "rf_freq_reg f = ucast (push_bit 25 (ucast f :: 64 word) div 32000000)"

definition set_rf_frequency :: "u32 \<Rightarrow> radio \<Rightarrow> radio" where
  "set_rf_frequency f =
     (let reg = rf_freq_reg f
      in sx1262_write SX1262_OP_SET_RF_FREQUENCY
           [ucast (drop_bit 24 reg AND 0xFF), ucast (drop_bit 16 reg AND 0xFF),
            ucast (drop_bit 8 reg AND 0xFF), ucast (reg AND 0xFF)])"

definition set_modulation_params :: "byte \<Rightarrow> byte \<Rightarrow> byte \<Rightarrow> radio \<Rightarrow> radio" where
  "set_modulation_params s b c =
     (let ldro = (if s \<ge> 11 \<and> b = SX1262_BW_125 then 1 else 0)
      in sx1262_write SX1262_OP_SET_MODULATION_PARAMS [s, b, c, ldro])"

definition set_packet_params :: "byte \<Rightarrow> radio \<Rightarrow> radio" where
  "set_packet_params plen =
     (let preamble = 8 :: u16
      in sx1262_write SX1262_OP_SET_PACKET_PARAMS
           [hi_byte preamble, lo_byte preamble, 0x00, plen, 0x01, 0x00])"

definition enter_continuous_rx :: "radio \<Rightarrow> radio" where
  "enter_continuous_rx r =
     sx1262_write SX1262_OP_SET_RX [0xFF, 0xFF, 0xFF] (set_packet_params 255 r)"

text \<open>A packet handed to the receive callback.\<close>

record rx_packet =
  rx_data :: bytes
  rx_rssi :: int
  rx_snr :: int

text \<open>Integer division as C has it: it truncates towards zero.\<close>

definition c_div :: "int \<Rightarrow> int \<Rightarrow> int" where
  "c_div a b = sgn a * sgn b * (\<bar>a\<bar> div \<bar>b\<bar>)"

text \<open>
  The interrupt handler. The call of the receive callback is its last action; the packet it is
  called with is returned, so that the caller can run the callback on the state returned.
\<close>

definition handle_irq :: "radio \<Rightarrow> rx_packet option \<times> radio" where
  "handle_irq r =
     (let (irq_raw, r1) = sx1262_read SX1262_OP_GET_IRQ_STATUS [] 2 r;
          irq = (push_bit 8 (ucast (irq_raw ! 0)) :: u16) OR ucast (irq_raw ! 1);
          r2 = sx1262_write SX1262_OP_CLEAR_IRQ_STATUS [irq_raw ! 0, irq_raw ! 1] r1;
          r3 = (if irq AND SX1262_IRQ_TX_DONE \<noteq> 0
                then let r' = r2\<lparr>tx_done_sem := True\<rparr>
                     in if rx_enabled r' then enter_continuous_rx r' else r'
                else r2)
      in if irq AND SX1262_IRQ_RX_DONE \<noteq> 0
         then if irq AND SX1262_IRQ_CRC_ERR \<noteq> 0 then (None, r3)
         else let (buf_status, r4) = sx1262_read SX1262_OP_GET_RX_BUFFER_STATUS [] 2 r3;
                  plen = buf_status ! 0;
                  start_offset = buf_status ! 1;
                  (rx_buf, r5) = sx1262_read SX1262_OP_READ_BUFFER [start_offset] (unat plen) r4;
                  (status3, r6) = sx1262_read SX1262_OP_GET_PACKET_STATUS [] 3 r5;
                  rssi = - (c_div (uint (status3 ! 0)) 2);
                  snr = c_div (sint (status3 ! 1)) 4
              in (if rx_cb_set r6 then Some \<lparr>rx_data = rx_buf, rx_rssi = rssi, rx_snr = snr\<rparr> else None, r6)
         else (None, r3))"

definition sx1262_init :: "sx1262_config \<Rightarrow> radio \<Rightarrow> esp_err \<times> radio" where
  "sx1262_init cfg r0 =
     (let r = wait_busy (r0\<lparr>tx_done_sem := False\<rparr>);
          r = sx1262_write SX1262_OP_SET_STANDBY [0x00] r;
          r = sx1262_write SX1262_OP_SET_REGULATOR_MODE [0x01] r;
          r = sx1262_write SX1262_OP_CALIBRATE [0x7F] r;
          r = sx1262_write SX1262_OP_SET_PACKET_TYPE [SX1262_PACKET_TYPE_LORA] r;
          r = set_rf_frequency (freq_hz cfg) r;
          r = set_modulation_params (sf cfg) (bw cfg) (cr cfg) r;
          r = set_packet_params 255 r;
          r = sx1262_write SX1262_OP_SET_PA_CONFIG [0x04, 0x07, 0x00, 0x01] r;
          r = sx1262_write SX1262_OP_SET_TX_PARAMS [tx_power_dbm cfg, 0x04] r;
          r = sx1262_write SX1262_OP_SET_BUFFER_BASE_ADDR [0x00, 0x00] r;
          m = SX1262_IRQ_TX_DONE OR SX1262_IRQ_RX_DONE OR SX1262_IRQ_CRC_ERR;
          r = set_dio_irq_params m m r
      in (ESP_OK, r))"

text \<open>
  Sending blocks on the TxDone semaphore; whether the interrupt task gives it in time is the next
  value of the stream \<open>tx_wait\<close>.
\<close>

definition sx1262_send :: "bytes \<Rightarrow> radio \<Rightarrow> esp_err \<times> radio" where
  "sx1262_send buf r =
     (if length buf > 255 then (ESP_ERR_INVALID_SIZE, r)
      else let r1 = sx1262_write SX1262_OP_WRITE_BUFFER (0x00 # buf) r;
               r2 = set_packet_params (of_nat (length buf)) r1;
               r3 = r2\<lparr>tx_done_sem := False\<rparr>;
               r4 = sx1262_write SX1262_OP_SET_TX [0x00, 0x00, 0x00] r3;
               given = tx_wait r4 (tx_waits r4);
               r5 = r4\<lparr>tx_waits := Suc (tx_waits r4), tx_done_sem := False\<rparr>
           in if given then (ESP_OK, r5) else (ESP_ERR_TIMEOUT, r5))"

definition sx1262_start_rx :: "radio \<Rightarrow> esp_err \<times> radio" where
  "sx1262_start_rx r = (ESP_OK, enter_continuous_rx (r\<lparr>rx_cb_set := True, rx_enabled := True\<rparr>))"

section \<open>What an operation leaves alone\<close>

lemma wait_busy_fields [simp, frame_simps]:
  "spi_log (wait_busy r) = spi_log r" "miso (wait_busy r) = miso r" "busy_pin (wait_busy r) = busy_pin r"
  "rx_cb_set (wait_busy r) = rx_cb_set r" "rx_enabled (wait_busy r) = rx_enabled r"
  "tx_done_sem (wait_busy r) = tx_done_sem r" "tx_wait (wait_busy r) = tx_wait r"
  "tx_waits (wait_busy r) = tx_waits r"
  by (simp_all add: wait_busy_def)

lemma sx1262_write_fields [simp, frame_simps]:
  "spi_log (sx1262_write op d r) = spi_log r @ [op # d]" "miso (sx1262_write op d r) = miso r"
  "busy_pin (sx1262_write op d r) = busy_pin r"
  "rx_cb_set (sx1262_write op d r) = rx_cb_set r" "rx_enabled (sx1262_write op d r) = rx_enabled r"
  "tx_done_sem (sx1262_write op d r) = tx_done_sem r" "tx_wait (sx1262_write op d r) = tx_wait r"
  "tx_waits (sx1262_write op d r) = tx_waits r"
  by (simp_all add: sx1262_write_def spi_device_transmit_def)

lemma sx1262_read_fields [simp, frame_simps]:
  "spi_log (snd (sx1262_read op a n r)) = spi_log r @ [op # a @ replicate (1 + n) 0]"
  "miso (snd (sx1262_read op a n r)) = miso r" "rx_cb_set (snd (sx1262_read op a n r)) = rx_cb_set r"
  "rx_enabled (snd (sx1262_read op a n r)) = rx_enabled r"
  "tx_done_sem (snd (sx1262_read op a n r)) = tx_done_sem r"
  "tx_wait (snd (sx1262_read op a n r)) = tx_wait r" "tx_waits (snd (sx1262_read op a n r)) = tx_waits r"
  by (simp_all add: sx1262_read_def Let_def spi_device_transmit_def)

lemma sx1262_read_data [simp]:
  "fst (sx1262_read op a n r) = map (\<lambda>i. miso r (length (spi_log r)) (Suc (length a) + 1 + i)) [0..<n]"
  by (simp add: sx1262_read_def Let_def spi_device_transmit_def)

lemma length_sx1262_read [simp, len_simps]: "length (fst (sx1262_read op a n r)) = n"
  by simp

lemma command_log [simp]:
  "spi_log (set_packet_params n r) = spi_log r @ [[0x8C, 0, 8, 0, n, 1, 0]]"
  "spi_log (enter_continuous_rx r) = spi_log r @ [[0x8C, 0, 8, 0, 255, 1, 0], [0x82, 0xFF, 0xFF, 0xFF]]"
  by (simp_all add: set_packet_params_def enter_continuous_rx_def Let_def sx_ops hi_byte_def lo_byte_def)

lemma command_fields [simp, frame_simps]:
  "miso (set_packet_params n r) = miso r" "rx_cb_set (set_packet_params n r) = rx_cb_set r"
  "rx_enabled (set_packet_params n r) = rx_enabled r" "tx_done_sem (set_packet_params n r) = tx_done_sem r"
  "tx_wait (set_packet_params n r) = tx_wait r" "tx_waits (set_packet_params n r) = tx_waits r"
  "miso (enter_continuous_rx r) = miso r" "rx_cb_set (enter_continuous_rx r) = rx_cb_set r"
  "rx_enabled (enter_continuous_rx r) = rx_enabled r" "tx_done_sem (enter_continuous_rx r) = tx_done_sem r"
  "tx_wait (enter_continuous_rx r) = tx_wait r" "tx_waits (enter_continuous_rx r) = tx_waits r"
  by (simp_all add: set_packet_params_def enter_continuous_rx_def Let_def)

text \<open>The three transactions of one transmission.\<close>

definition tx_commands :: "bytes \<Rightarrow> bytes list" where
  "tx_commands buf = [[SX1262_OP_WRITE_BUFFER, 0] @ buf,
     [SX1262_OP_SET_PACKET_PARAMS, 0, 8, 0, of_nat (length buf), 1, 0],
     [SX1262_OP_SET_TX, 0, 0, 0]]"

lemma sx1262_send_log [simp]:
  "spi_log (snd (sx1262_send buf r)) = (if length buf > 255 then spi_log r else spi_log r @ tx_commands buf)"
  by (simp add: sx1262_send_def Let_def tx_commands_def sx_ops)

lemma sx1262_send_fields [simp, frame_simps]:
  "rx_cb_set (snd (sx1262_send buf r)) = rx_cb_set r" "rx_enabled (snd (sx1262_send buf r)) = rx_enabled r"
  "miso (snd (sx1262_send buf r)) = miso r" "tx_wait (snd (sx1262_send buf r)) = tx_wait r"
  by (simp_all add: sx1262_send_def Let_def)

lemma sx1262_send_result:
  "fst (sx1262_send buf r) = (if length buf > 255 then ESP_ERR_INVALID_SIZE
     else if tx_wait r (tx_waits r) then ESP_OK else ESP_ERR_TIMEOUT)"
  by (simp add: sx1262_send_def Let_def)

section \<open>The BUSY loop\<close>

lemma wait_busy_loop_bounds:
  assumes "g \<le> 100000"
  shows "case wait_busy_loop pin n g of (n', g') \<Rightarrow>
     n < n' \<and> g' \<le> 100001 \<and> g' - g \<le> n' - n \<and> n' - n \<le> Suc (g' - g) \<and> g \<le> g' \<and>
     (if g' \<le> 100000 then \<not> pin (n' - 1) else (\<forall>i. n \<le> i \<and> i < n' \<longrightarrow> pin i))"
  using assms
proof (induction pin n g rule: wait_busy_loop.induct)
  case (1 pin n g)
  consider "\<not> pin n" | "pin n" "Suc g > 100000" | "pin n" "Suc g \<le> 100000" by linarith
  then show ?case
  proof cases
    case 3
    obtain n' g' where r: "wait_busy_loop pin (Suc n) (Suc g) = (n', g')" by (cases "wait_busy_loop pin (Suc n) (Suc g)")
    have IH: "Suc n < n' \<and> g' \<le> 100001 \<and> g' - Suc g \<le> n' - Suc n \<and> n' - Suc n \<le> Suc (g' - Suc g) \<and> Suc g \<le> g' \<and>
       (if g' \<le> 100000 then \<not> pin (n' - 1) else (\<forall>i. Suc n \<le> i \<and> i < n' \<longrightarrow> pin i))"
      using 1 3 r by auto
    have "wait_busy_loop pin n g = (n', g')" using 3 r by (subst wait_busy_loop.simps) simp
    moreover have "pin i" if "\<not> g' \<le> 100000" "n \<le> i" "i < n'" for i
      using IH that 3(1) by (cases "i = n") auto
    ultimately show ?thesis using IH by auto
  next
    case 2
    have "\<forall>i. n \<le> i \<and> i < Suc n \<longrightarrow> pin i" using 2(1) by (metis le_antisym less_Suc_eq_le)
    with 1 2 show ?thesis by (simp add: wait_busy_loop.simps [of pin n g])
  qed (use 1 in \<open>auto simp: wait_busy_loop.simps [of pin n g]\<close>)
qed

section \<open>Properties\<close>

text \<open>Waiting for the chip never hangs the driver. The BUSY loop ends after at most
  100001 delays of 10 microseconds, and it gives up only if the pin was high at every single
  poll; otherwise the last poll saw it low.\<close>
theorem wait_busy_terminates:
  "\<exists>n g. wait_busy_loop (busy_pin r) (busy_polls r) 0 = (n, g) \<and> g \<le> 100001 \<and>
     busy_polls (wait_busy r) = n \<and> n \<le> busy_polls r + 100002 \<and>
     (if g \<le> 100000 then \<not> busy_pin r (n - 1)
      else list_all (busy_pin r) [busy_polls r..<n])"
  using wait_busy_loop_bounds [of 0 "busy_polls r" "busy_pin r"]
  by (cases "wait_busy_loop (busy_pin r) (busy_polls r) 0")
     (fastforce simp: wait_busy_def list_all_iff split: if_splits)

text \<open>The interrupt status that the chip reports at the next transaction.\<close>

definition irq_reported :: "radio \<Rightarrow> u16" where
  "irq_reported r = push_bit 8 (ucast (miso r (length (spi_log r)) 2)) OR ucast (miso r (length (spi_log r)) 3)"

definition has_irq :: "u16 \<Rightarrow> u16 \<Rightarrow> bool" where
  "has_irq irq m \<longleftrightarrow> irq AND m \<noteq> 0"

text \<open>The commands of the interrupt handler before the packet is read: status, acknowledgement of
  exactly the bits read, and the return to reception after a transmission.\<close>

definition irq_prefix :: "radio \<Rightarrow> bytes list" where
  "irq_prefix r = [[SX1262_OP_GET_IRQ_STATUS, 0, 0, 0],
     [SX1262_OP_CLEAR_IRQ_STATUS, miso r (length (spi_log r)) 2, miso r (length (spi_log r)) 3]] @
     (if has_irq (irq_reported r) SX1262_IRQ_TX_DONE \<and> rx_enabled r
      then [[SX1262_OP_SET_PACKET_PARAMS, 0, 8, 0, 255, 1, 0], [SX1262_OP_SET_RX, 0xFF, 0xFF, 0xFF]] else [])"

lemma c_div_nonneg: "0 \<le> a \<Longrightarrow> 0 < b \<Longrightarrow> c_div a b = a div b"
  by (auto simp: c_div_def sgn_if)

lemma rssi_bounds: "- 127 \<le> - c_div (uint (b :: byte)) 2 \<and> - c_div (uint b) 2 \<le> 0"
proof -
  have "uint b < 256" using uint_lt2p [of b] by simp
  then show ?thesis by (simp add: c_div_nonneg)
qed

lemma snr_bounds: "- 32 \<le> c_div (sint (b :: byte)) 4 \<and> c_div (sint b) 4 \<le> 31"
proof -
  have "- 128 \<le> sint b" "sint b \<le> 127"
    using sint_greater_eq [of b] sint_less [of b] by simp_all
  then show ?thesis by (auto simp: c_div_def sgn_if)
qed

lemma handle_irq_unfold:
  obtains r3 where "spi_log r3 = spi_log r @ irq_prefix r"
    "rx_cb_set r3 = rx_cb_set r" "rx_enabled r3 = rx_enabled r" "miso r3 = miso r"
    "tx_done_sem r3 = (tx_done_sem r \<or> has_irq (irq_reported r) SX1262_IRQ_TX_DONE)"
    "handle_irq r =
      (if has_irq (irq_reported r) SX1262_IRQ_RX_DONE
       then if has_irq (irq_reported r) SX1262_IRQ_CRC_ERR then (None, r3)
       else let (buf_status, r4) = sx1262_read SX1262_OP_GET_RX_BUFFER_STATUS [] 2 r3;
                (rx_buf, r5) = sx1262_read SX1262_OP_READ_BUFFER [buf_status ! 1] (unat (buf_status ! 0)) r4;
                (status3, r6) = sx1262_read SX1262_OP_GET_PACKET_STATUS [] 3 r5
            in (if rx_cb_set r6 then Some \<lparr>rx_data = rx_buf, rx_rssi = - (c_div (uint (status3 ! 0)) 2),
                  rx_snr = c_div (sint (status3 ! 1)) 4\<rparr> else None, r6)
       else (None, r3))"
proof -
  let ?r1 = "snd (sx1262_read SX1262_OP_GET_IRQ_STATUS [] 2 r)"
  let ?raw = "fst (sx1262_read SX1262_OP_GET_IRQ_STATUS [] 2 r)"
  let ?r2 = "sx1262_write SX1262_OP_CLEAR_IRQ_STATUS [?raw ! 0, ?raw ! 1] ?r1"
  let ?r3 = "if has_irq (irq_reported r) SX1262_IRQ_TX_DONE
     then (if rx_enabled (?r2\<lparr>tx_done_sem := True\<rparr>) then enter_continuous_rx (?r2\<lparr>tx_done_sem := True\<rparr>)
           else ?r2\<lparr>tx_done_sem := True\<rparr>) else ?r2"
  have raw: "?raw ! 0 = miso r (length (spi_log r)) 2" "?raw ! 1 = miso r (length (spi_log r)) 3"
    by (simp_all add: upt_rec numeral_eq_Suc)
  have irq: "(push_bit 8 (ucast (?raw ! 0)) :: u16) OR ucast (?raw ! 1) = irq_reported r"
    unfolding irq_reported_def raw ..
  show thesis
  proof (rule that [of ?r3])
    show "spi_log ?r3 = spi_log r @ irq_prefix r"
      unfolding irq_prefix_def raw [symmetric] by (auto simp: sx_ops simp del: sx1262_read_data)
    show "handle_irq r =
      (if has_irq (irq_reported r) SX1262_IRQ_RX_DONE
       then if has_irq (irq_reported r) SX1262_IRQ_CRC_ERR then (None, ?r3)
       else let (buf_status, r4) = sx1262_read SX1262_OP_GET_RX_BUFFER_STATUS [] 2 ?r3;
                (rx_buf, r5) = sx1262_read SX1262_OP_READ_BUFFER [buf_status ! 1] (unat (buf_status ! 0)) r4;
                (status3, r6) = sx1262_read SX1262_OP_GET_PACKET_STATUS [] 3 r5
            in (if rx_cb_set r6 then Some \<lparr>rx_data = rx_buf, rx_rssi = - (c_div (uint (status3 ! 0)) 2),
                  rx_snr = c_div (sint (status3 ! 1)) 4\<rparr> else None, r6)
       else (None, ?r3))"
      unfolding handle_irq_def Let_def case_prod_beta irq has_irq_def ..
  qed auto
qed

text \<open>The interrupt handler. It acknowledges exactly the interrupt bits it has read;
  it gives the TxDone semaphore exactly when the chip reports TxDone, and then returns the radio
  to reception; it calls the receive callback exactly when a packet was received with a correct
  CRC and a callback is registered, with a packet of at most 255 bytes and signal figures in the
  range of the types that carry them.\<close>
theorem handle_irq_correct:
  "\<exists>log. spi_log (snd (handle_irq r)) = spi_log r @ irq_prefix r @ log \<and>
    tx_done_sem (snd (handle_irq r)) = (tx_done_sem r \<or> has_irq (irq_reported r) SX1262_IRQ_TX_DONE) \<and>
    (case fst (handle_irq r) of
       None \<Rightarrow> \<not> (has_irq (irq_reported r) SX1262_IRQ_RX_DONE \<and>
                 \<not> has_irq (irq_reported r) SX1262_IRQ_CRC_ERR \<and> rx_cb_set r)
     | Some p \<Rightarrow> has_irq (irq_reported r) SX1262_IRQ_RX_DONE \<and>
                 \<not> has_irq (irq_reported r) SX1262_IRQ_CRC_ERR \<and> rx_cb_set r \<and>
                 length (rx_data p) \<le> 255 \<and> - 127 \<le> rx_rssi p \<and> rx_rssi p \<le> 0 \<and>
                 - 32 \<le> rx_snr p \<and> rx_snr p \<le> 31)"
proof (rule handle_irq_unfold [of r])
  fix r3
  assume r3: "spi_log r3 = spi_log r @ irq_prefix r"
    "rx_cb_set r3 = rx_cb_set r"
    "tx_done_sem r3 = (tx_done_sem r \<or> has_irq (irq_reported r) SX1262_IRQ_TX_DONE)"
    and h: "handle_irq r =
      (if has_irq (irq_reported r) SX1262_IRQ_RX_DONE
       then if has_irq (irq_reported r) SX1262_IRQ_CRC_ERR then (None, r3)
       else let (buf_status, r4) = sx1262_read SX1262_OP_GET_RX_BUFFER_STATUS [] 2 r3;
                (rx_buf, r5) = sx1262_read SX1262_OP_READ_BUFFER [buf_status ! 1] (unat (buf_status ! 0)) r4;
                (status3, r6) = sx1262_read SX1262_OP_GET_PACKET_STATUS [] 3 r5
            in (if rx_cb_set r6 then Some \<lparr>rx_data = rx_buf, rx_rssi = - (c_div (uint (status3 ! 0)) 2),
                  rx_snr = c_div (sint (status3 ! 1)) 4\<rparr> else None, r6)
       else (None, r3))"
  show ?thesis
    unfolding h Let_def case_prod_beta
    using rssi_bounds snr_bounds by (auto simp: r3 simp del: upt_Suc)
qed

text \<open>The synthesiser word. For every carrier frequency below 4.096 GHz the register
  value is the exact floor of \<open>freq * 2^25 / 32 MHz\<close>, without truncation to 32 bits, so the
  programmed frequency is at most one register step (under 1 Hz) below the requested one.\<close>
theorem rf_freq_reg_exact:
  assumes "unat f < 4096000000"
  shows "unat (rf_freq_reg f) = unat f * 2 ^ 25 div 32000000 \<and>
    unat (rf_freq_reg f) * 32000000 \<le> unat f * 2 ^ 25 \<and>
    unat f * 2 ^ 25 < (unat (rf_freq_reg f) + 1) * 32000000"
proof -
  have "unat (push_bit 25 (ucast f :: 64 word)) = unat f * 2 ^ 25"
    unfolding unsigned_push_bit_eq unsigned_ucast_eq
    using assms by (simp add: take_bit_eq_mod push_bit_eq_mult)
  then have "unat (push_bit 25 (ucast f :: 64 word) div 32000000) = unat f * 2 ^ 25 div 32000000"
    by (simp add: unat_div_distrib)
  moreover have lt: "unat f * 2 ^ 25 div 32000000 < 2 ^ 32" using assms by simp
  ultimately have e: "unat (rf_freq_reg f) = unat f * 2 ^ 25 div 32000000"
    by (simp add: rf_freq_reg_def unsigned_ucast_eq take_bit_eq_mod)
  show ?thesis
    unfolding e by (auto simp: algebra_simps)
qed

theorem rf_freq_reg_exact_witness:
  "rf_freq_reg 868100000 = 910268825"
proof -
  have "unat (868100000 :: u32) < 4096000000" by simp
  from rf_freq_reg_exact [OF this] have "unat (rf_freq_reg 868100000) = unat (910268825 :: u32)"
    by simp
  then show ?thesis by (rule word_unat_eq_iff [THEN iffD2])
qed

text \<open>The configuration that \<open>mesh_init\<close> passes to the driver.\<close>

definition mesh_radio_cfg :: sx1262_config where
  "mesh_radio_cfg = \<lparr>freq_hz = 868100000, sf = 7, bw = SX1262_BW_125, cr = SX1262_CR_4_5, tx_power_dbm = 14\<rparr>"

text \<open>Bring-up. With the configuration of the mesh (868.1 MHz, SF7, 125 kHz, 4/5,
  14 dBm) initialisation followed by \<open>sx1262_start_rx\<close> sends exactly these thirteen SPI commands
  in this order, succeeds, and leaves the driver with reception enabled and no TxDone pending.\<close>
theorem sx1262_bring_up:
  "let (e1, r1) = sx1262_init mesh_radio_cfg r0; (e2, r2) = sx1262_start_rx r1 in
     e1 = ESP_OK \<and> e2 = ESP_OK \<and> rx_cb_set r2 \<and> rx_enabled r2 \<and> \<not> tx_done_sem r2 \<and>
     spi_log r2 = spi_log r0 @
      [[0x80, 0x00], [0x96, 0x01], [0x89, 0x7F], [0x8A, 0x01],
       [0x86, 0x36, 0x41, 0x99, 0x99], [0x8B, 7, 4, 1, 0],
       [0x8C, 0, 8, 0, 255, 1, 0], [0x95, 0x04, 0x07, 0x00, 0x01], [0x8E, 14, 0x04], [0x8F, 0, 0],
       [0x08, 0, 0x43, 0, 0x43, 0, 0, 0, 0],
       [0x8C, 0, 8, 0, 255, 1, 0], [0x82, 0xFF, 0xFF, 0xFF]]"
proof -
  have reg: "rf_freq_reg 868100000 = 910268825"
    by (simp add: rf_freq_reg_def)
  show ?thesis
    by (simp add: sx1262_init_def sx1262_start_rx_def Let_def mesh_radio_cfg_def set_rf_frequency_def reg
        set_modulation_params_def set_dio_irq_params_def sx_ops sx_irqs hi_byte_def lo_byte_def
        SX1262_BW_125_def SX1262_CR_4_5_def)
qed

text \<open>Sending. A buffer of up to 255 bytes is sent with exactly three commands: the
  buffer to address 0 of the chip's FIFO, the packet parameters with its length, and the start
  of the transmission; a stale TxDone signal is dropped before the start, and the result is
  \<open>ESP_OK\<close> or \<open>ESP_ERR_TIMEOUT\<close>. A longer buffer is refused before anything is sent.\<close>
theorem sx1262_send_correct:
  "if length buf > 255 then sx1262_send buf r = (ESP_ERR_INVALID_SIZE, r)
   else (case sx1262_send buf r of (e, r') \<Rightarrow>
     spi_log r' = spi_log r @ [[0x0E, 0] @ buf, [0x8C, 0, 8, 0, of_nat (length buf), 1, 0], [0x83, 0, 0, 0]] \<and>
     unat (of_nat (length buf) :: byte) = length buf \<and> \<not> tx_done_sem r' \<and>
     e = (if tx_wait r (tx_waits r) then ESP_OK else ESP_ERR_TIMEOUT))"
proof (cases "length buf > 255")
  case True
  then show ?thesis by (simp add: sx1262_send_def)
next
  case False
  then have "unat (of_nat (length buf) :: byte) = length buf" by (simp add: unat_of_nat_byte)
  moreover have "\<not> tx_done_sem (snd (sx1262_send buf r))"
    using False by (simp add: sx1262_send_def Let_def)
  ultimately show ?thesis
    using False sx1262_send_log [of buf r] sx1262_send_result [of buf r]
    by (auto simp: case_prod_beta tx_commands_def sx_ops)
qed

end
