(* ===== verification/PCrypto.thy ===== *)
theory PCrypto
  imports Store Platform "HOL-Library.Monad_Syntax"
begin

text \<open>
  Identity, key bundles, sessions and message framing: \<open>firmware/components/crypto/pcrypto.c\<close>.
  libsignal-protocol-c is outside the repository. A library function that works on the stores is
  a program of type \<open>sg_prog\<close>: an arbitrary (finite) tree of calls of the callbacks that
  \<open>crypto_store_register\<close> and \<open>crypto_provider_fill\<close> install, which \<open>run_sg\<close> answers with the
  code of \<open>store.c\<close>. Everything else of the library is a field of \<open>signal_lib\<close>.
\<close>

section \<open>Running the library over the store callbacks\<close>

record crypto =
  nvs :: host_fs
  plat :: platform

datatype 'a sg_prog =
    Return 'a
  | LoadSession bytes "sg_code + bytes option \<Rightarrow> 'a sg_prog"
  | GetSubDeviceSessions bytes "sg_code + int list \<Rightarrow> 'a sg_prog"
  | StoreSession bytes bytes "sg_code \<Rightarrow> 'a sg_prog"
  | ContainsSession bytes "bool \<Rightarrow> 'a sg_prog"
  | DeleteSession bytes "bool \<Rightarrow> 'a sg_prog"
  | DeleteAllSessions bytes "bool \<Rightarrow> 'a sg_prog"
  | LoadPreKey u32 "sg_code + bytes \<Rightarrow> 'a sg_prog"
  | StorePreKey u32 bytes "sg_code \<Rightarrow> 'a sg_prog"
  | ContainsPreKey u32 "bool \<Rightarrow> 'a sg_prog"
  | RemovePreKey u32 "sg_code \<Rightarrow> 'a sg_prog"
  | LoadSignedPreKey u32 "sg_code + bytes \<Rightarrow> 'a sg_prog"
  | StoreSignedPreKey u32 bytes "sg_code \<Rightarrow> 'a sg_prog"
  | ContainsSignedPreKey u32 "bool \<Rightarrow> 'a sg_prog"
  | RemoveSignedPreKey u32 "sg_code \<Rightarrow> 'a sg_prog"
  | GetIdentityKeyPair "sg_code + bytes \<times> bytes \<Rightarrow> 'a sg_prog"
  | GetLocalRegistrationId u32 "sg_code \<times> u32 \<Rightarrow> 'a sg_prog"
  | SaveIdentity bytes "bytes option" "sg_code \<Rightarrow> 'a sg_prog"
  | IsTrustedIdentity bytes bytes "bool \<Rightarrow> 'a sg_prog"
  | RandomBytes nat "bytes \<Rightarrow> 'a sg_prog"

text \<open>A callback that changes the store.\<close>

definition on_nvs :: "(host_fs \<Rightarrow> 'r \<times> host_fs) \<Rightarrow> crypto \<Rightarrow> 'r \<times> crypto" where
  "on_nvs f w = (case f (nvs w) of (r, fs) \<Rightarrow> (r, w\<lparr>nvs := fs\<rparr>))"

primrec run_sg :: "heap \<Rightarrow> 'a sg_prog \<Rightarrow> crypto \<Rightarrow> 'a \<times> crypto" where
  "run_sg h (Return x) = (\<lambda>w. (x, w))"
| "run_sg h (LoadSession a k) = (\<lambda>w. run_sg h (k (load_session_func h a (nvs w))) w)"
| "run_sg h (GetSubDeviceSessions a k) = (\<lambda>w. run_sg h (k (get_sub_device_sessions_func h a (nvs w))) w)"
| "run_sg h (StoreSession a r k) = (\<lambda>w. case on_nvs (store_session_func a r) w of (c, w') \<Rightarrow> run_sg h (k c) w')"
| "run_sg h (ContainsSession a k) = (\<lambda>w. run_sg h (k (contains_session_func a (nvs w))) w)"
| "run_sg h (DeleteSession a k) = (\<lambda>w. case on_nvs (delete_session_func a) w of (c, w') \<Rightarrow> run_sg h (k c) w')"
| "run_sg h (DeleteAllSessions a k) = (\<lambda>w. case on_nvs (delete_all_sessions_func a) w of (c, w') \<Rightarrow> run_sg h (k c) w')"
| "run_sg h (LoadPreKey i k) = (\<lambda>w. run_sg h (k (load_pre_key h i (nvs w))) w)"
| "run_sg h (StorePreKey i r k) = (\<lambda>w. case on_nvs (store_pre_key i r) w of (c, w') \<Rightarrow> run_sg h (k c) w')"
| "run_sg h (ContainsPreKey i k) = (\<lambda>w. run_sg h (k (contains_pre_key i (nvs w))) w)"
| "run_sg h (RemovePreKey i k) = (\<lambda>w. case on_nvs (remove_pre_key i) w of (c, w') \<Rightarrow> run_sg h (k c) w')"
| "run_sg h (LoadSignedPreKey i k) = (\<lambda>w. run_sg h (k (load_signed_pre_key h i (nvs w))) w)"
| "run_sg h (StoreSignedPreKey i r k) = (\<lambda>w. case on_nvs (store_signed_pre_key i r) w of (c, w') \<Rightarrow> run_sg h (k c) w')"
| "run_sg h (ContainsSignedPreKey i k) = (\<lambda>w. run_sg h (k (contains_signed_pre_key i (nvs w))) w)"
| "run_sg h (RemoveSignedPreKey i k) = (\<lambda>w. case on_nvs (remove_signed_pre_key i) w of (c, w') \<Rightarrow> run_sg h (k c) w')"
| "run_sg h (GetIdentityKeyPair k) = (\<lambda>w. run_sg h (k (get_identity_key_pair h (nvs w))) w)"
| "run_sg h (GetLocalRegistrationId old k) = (\<lambda>w. run_sg h (k (get_local_registration_id old (nvs w))) w)"
| "run_sg h (SaveIdentity a d k) = (\<lambda>w. case on_nvs (save_identity a d) w of (c, w') \<Rightarrow> run_sg h (k c) w')"
| "run_sg h (IsTrustedIdentity a d k) = (\<lambda>w. run_sg h (k (is_trusted_identity h a d (nvs w))) w)"
| "run_sg h (RandomBytes n k) = (\<lambda>w. case esp_fill_random n (plat w) of (bs, p) \<Rightarrow> run_sg h (k bs) (w\<lparr>plat := p\<rparr>))"

section \<open>The library\<close>

text \<open>The arguments of \<open>session_pre_key_bundle_create\<close>, keys as decoded points.\<close>

record prekey_bundle =
  pb_registration_id :: u32
  pb_device_id :: nat
  pb_pre_key_id :: u32
  pb_pre_key :: "bytes option"
  pb_signed_pre_key_id :: u32
  pb_signed_pre_key :: bytes
  pb_signature :: bytes
  pb_identity_key :: bytes

record signal_lib =
  lock_created :: bool
  context_created :: bool
  store_context_created :: bool
  store_set_ok :: "nat \<Rightarrow> bool"
  generate_pre_keys :: "u32 \<Rightarrow> nat \<Rightarrow> (u32 \<times> bytes) list option sg_prog"
  generate_identity_key_pair :: "(bytes \<times> bytes) option sg_prog"
  generate_registration_id :: "u32 sg_prog"
  generate_signed_pre_key :: "bytes \<times> bytes \<Rightarrow> u32 \<Rightarrow> 64 word \<Rightarrow> bytes sg_prog"
  pre_key_public :: "bytes \<Rightarrow> bytes option"
  signed_pre_key_parts :: "bytes \<Rightarrow> (u32 \<times> bytes \<times> bytes) option"
  curve_decode_point :: "bytes \<Rightarrow> bytes option"
  bundle_create_ok :: "prekey_bundle \<Rightarrow> bool"
  session_builder_create_ok :: "bytes \<Rightarrow> bool"
  process_pre_key_bundle :: "bytes \<Rightarrow> prekey_bundle \<Rightarrow> bool sg_prog"
  session_contains :: "bytes \<Rightarrow> int sg_prog"
  session_cipher_create_ok :: "bytes \<Rightarrow> bool"
  session_cipher_encrypt :: "bytes \<Rightarrow> bytes \<Rightarrow> (int \<times> bytes) option sg_prog"
  ciphertext_prekey_type :: byte
  ciphertext_signal_type :: byte
  pre_key_message_ok :: "bytes \<Rightarrow> bool"
  decrypt_pre_key_message :: "bytes \<Rightarrow> bytes \<Rightarrow> bytes option sg_prog"
  signal_message_ok :: "bytes \<Rightarrow> bool"
  decrypt_signal_message :: "bytes \<Rightarrow> bytes \<Rightarrow> bytes option sg_prog"

section \<open>Identity and prekeys\<close>

definition PRE_KEY_BATCH_SIZE :: nat where "PRE_KEY_BATCH_SIZE = 20"
definition SIGNED_PRE_KEY_ID :: u32 where "SIGNED_PRE_KEY_ID = 1"

fun store_batch :: "(u32 \<times> bytes) list \<Rightarrow> host_fs \<Rightarrow> host_fs" where
  "store_batch [] fs = fs"
| "store_batch ((i, r) # pks) fs = store_batch pks (snd (nvs_set_blob NVS_HANDLE (pk_key i) r fs))"

definition generate_pre_key_batch :: "signal_lib \<Rightarrow> heap \<Rightarrow> u32 \<Rightarrow> nat \<Rightarrow> crypto \<Rightarrow> esp_err \<times> crypto" where
  "generate_pre_key_batch lib h start_id count w =
     (case run_sg h (generate_pre_keys lib start_id count) w of
        (None, w1) \<Rightarrow> (ESP_FAIL, w1)
      | (Some pks, w1) \<Rightarrow>
          (let fs = store_batch pks (nvs w1);
               fs = snd (nvs_set_u32 NVS_HANDLE ''next_pk_id'' (start_id + of_nat count) fs);
               fs = snd (nvs_commit NVS_HANDLE fs)
           in (ESP_OK, w1\<lparr>nvs := fs\<rparr>)))"

definition next_pre_key_id :: "host_fs \<Rightarrow> u32" where
  "next_pre_key_id fs =
     (case nvs_get_u32 NVS_HANDLE ''next_pk_id'' 0 fs of
        (e, v) \<Rightarrow> if e \<noteq> ESP_OK then of_nat PRE_KEY_BATCH_SIZE + 1 else v)"

text \<open>The end of \<open>identity_ensure_generated\<close>: the signed prekey of the new key pair.\<close>

definition finish_identity :: "signal_lib \<Rightarrow> heap \<Rightarrow> bytes \<times> bytes \<Rightarrow> crypto \<Rightarrow> esp_err \<times> crypto" where
  "finish_identity lib h identity w =
     (let (us, p) = esp_timer_get_time (plat w);
          boot_ms = word_of_int (us div 1000);
          (spk_rec, w1) = run_sg h (generate_signed_pre_key lib identity SIGNED_PRE_KEY_ID boot_ms) (w\<lparr>plat := p\<rparr>);
          fs = snd (nvs_set_blob NVS_HANDLE (spk_key SIGNED_PRE_KEY_ID) spk_rec (nvs w1));
          fs = snd (nvs_commit NVS_HANDLE fs)
      in (ESP_OK, w1\<lparr>nvs := fs\<rparr>))"

definition identity_ensure_generated :: "signal_lib \<Rightarrow> heap \<Rightarrow> crypto \<Rightarrow> esp_err \<times> crypto" where
  "identity_ensure_generated lib h w =
     (case nvs_get_blob_len NVS_HANDLE ''id_pub'' (nvs w) of
        Inr _ \<Rightarrow> (ESP_OK, w)
      | Inl _ \<Rightarrow>
        (case run_sg h (generate_identity_key_pair lib) w of
           (None, w1) \<Rightarrow> (ESP_FAIL, w1)
         | (Some (pub, priv), w1) \<Rightarrow>
           (let fs = snd (nvs_set_blob NVS_HANDLE ''id_pub'' pub (nvs w1));
                fs = snd (nvs_set_blob NVS_HANDLE ''id_priv'' priv fs);
                (reg_id, w2) = run_sg h (generate_registration_id lib) (w1\<lparr>nvs := fs\<rparr>);
                w3 = w2\<lparr>nvs := snd (nvs_set_u32 NVS_HANDLE ''reg_id'' reg_id (nvs w2))\<rparr>
            in case generate_pre_key_batch lib h 1 PRE_KEY_BATCH_SIZE w3 of
                 (e, w4) \<Rightarrow> if e \<noteq> ESP_OK then (ESP_FAIL, w4) else finish_identity lib h (pub, priv) w4)))"

definition crypto_store_register :: "signal_lib \<Rightarrow> esp_err" where
  "crypto_store_register lib =
     (if \<not> store_set_ok lib 0 \<or> \<not> store_set_ok lib 1 \<or> \<not> store_set_ok lib 2 \<or> \<not> store_set_ok lib 3
      then ESP_FAIL else ESP_OK)"

definition pcrypto_init :: "signal_lib \<Rightarrow> heap \<Rightarrow> crypto \<Rightarrow> esp_err \<times> crypto" where
  "pcrypto_init lib h w =
     (if \<not> lock_created lib then (ESP_ERR_NO_MEM, w)
      else let w = w\<lparr>nvs := snd (nvs_open (nvs w))\<rparr>
           in if \<not> context_created lib then (ESP_FAIL, w)
              else if \<not> store_context_created lib then (ESP_FAIL, w)
              else if crypto_store_register lib \<noteq> ESP_OK then (ESP_FAIL, w)
              else identity_ensure_generated lib h w)"

section \<open>Key bundles\<close>

text \<open>One turn of the search: the public part of prekey \<open>i\<close>, unless it is used up or unusable.\<close>

definition try_pre_key :: "signal_lib \<Rightarrow> heap \<Rightarrow> nat \<Rightarrow> host_fs \<Rightarrow> u32 \<Rightarrow> bytes option" where
  "try_pre_key lib h pub_cap fs i =
     (case nvs_get_blob_len NVS_HANDLE (pk_key i) fs of
        Inl _ \<Rightarrow> None
      | Inr len \<Rightarrow>
          if \<not> malloc_ok h 0 len then None
          else (case pre_key_public lib (read_blob h (pk_key i) len fs) of
                  None \<Rightarrow> None
                | Some pub \<Rightarrow> if length pub \<le> pub_cap then Some pub else None))"

text \<open>The loop \<open>for (id = 1; id <= highest; id++)\<close>; \<open>id\<close> is a \<open>uint32_t\<close> and wraps.\<close>

partial_function (option) find_loop :: "(u32 \<Rightarrow> bytes option) \<Rightarrow> u32 \<Rightarrow> u32 \<Rightarrow> (u32 \<times> bytes) option option" where
  "find_loop attempt i highest =
     (if i \<le> highest
      then (case attempt i of Some pub \<Rightarrow> Some (Some (i, pub)) | None \<Rightarrow> find_loop attempt (i + 1) highest)
      else Some None)"

declare find_loop.simps [code]

definition find_unused_pre_key :: "signal_lib \<Rightarrow> heap \<Rightarrow> nat \<Rightarrow> host_fs \<Rightarrow> (u32 \<times> bytes) option option" where
  "find_unused_pre_key lib h pub_cap fs = find_loop (try_pre_key lib h pub_cap fs) 1 (next_pre_key_id fs - 1)"

definition PCRYPTO_BUNDLE_MAX_LEN :: nat where "PCRYPTO_BUNDLE_MAX_LEN = 199"

text \<open>The bundle under construction is the list of the \<open>off\<close> bytes written so far.\<close>

definition bundle_put_u32 :: "u32 \<Rightarrow> bytes \<Rightarrow> bytes option" where
  "bundle_put_u32 v out = (if length out + 4 > PCRYPTO_BUNDLE_MAX_LEN then None else Some (out @ le32 v))"

definition bundle_put_blob :: "bytes \<Rightarrow> bytes \<Rightarrow> bytes option" where
  "bundle_put_blob d out =
     (if length d > 255 \<or> length out + 1 + length d > PCRYPTO_BUNDLE_MAX_LEN then None
      else Some (out @ [of_nat (length d)] @ d))"

definition put_bundle :: "u32 \<Rightarrow> u32 \<Rightarrow> bytes \<Rightarrow> u32 \<Rightarrow> bytes \<Rightarrow> bytes \<Rightarrow> bytes \<Rightarrow> bytes option" where
  "put_bundle reg_id pre_key_id pre_key_pub spk_id spk_pub sig idpub = do {
     out \<leftarrow> bundle_put_u32 reg_id [];
     out \<leftarrow> bundle_put_u32 pre_key_id out;
     out \<leftarrow> bundle_put_blob pre_key_pub out;
     out \<leftarrow> bundle_put_u32 spk_id out;
     out \<leftarrow> bundle_put_blob spk_pub out;
     out \<leftarrow> bundle_put_blob sig out;
     bundle_put_blob idpub out }"

text \<open>The part of \<open>pcrypto_local_bundle\<close> after a prekey has been found.\<close>

definition finish_bundle :: "signal_lib \<Rightarrow> heap \<Rightarrow> u32 \<Rightarrow> u32 \<times> bytes \<Rightarrow> host_fs \<Rightarrow> esp_err + bytes" where
  "finish_bundle lib h reg_id pk fs =
     (case nvs_get_blob_len NVS_HANDLE (spk_key SIGNED_PRE_KEY_ID) fs of
        Inl _ \<Rightarrow> Inl ESP_ERR_INVALID_STATE
      | Inr spk_len \<Rightarrow>
        if \<not> malloc_ok h 1 spk_len then Inl ESP_ERR_NO_MEM
        else (case signed_pre_key_parts lib (read_blob h (spk_key SIGNED_PRE_KEY_ID) spk_len fs) of
          None \<Rightarrow> Inl ESP_FAIL
        | Some (spk_id, spk_pub, sig) \<Rightarrow>
          (case nvs_get_blob_len NVS_HANDLE ''id_pub'' fs of
             Inl _ \<Rightarrow> Inl ESP_ERR_INVALID_STATE
           | Inr idpub_len \<Rightarrow>
             if \<not> malloc_ok h 2 idpub_len then Inl ESP_ERR_NO_MEM
             else (case put_bundle reg_id (fst pk) (snd pk) spk_id spk_pub sig (read_blob h ''id_pub'' idpub_len fs) of
                     None \<Rightarrow> Inl ESP_ERR_INVALID_SIZE
                   | Some out \<Rightarrow> Inr out))))"

text \<open>\<open>None\<close>: the search for a prekey never returns.\<close>

definition pcrypto_local_bundle :: "signal_lib \<Rightarrow> heap \<Rightarrow> crypto \<Rightarrow> ((esp_err + bytes) \<times> crypto) option" where
  "pcrypto_local_bundle lib h w =
     (case nvs_get_u32 NVS_HANDLE ''reg_id'' 0 (nvs w) of
        (e, reg_id) \<Rightarrow>
        if e \<noteq> ESP_OK then Some (Inl ESP_ERR_INVALID_STATE, w)
        else do {
          found \<leftarrow> find_unused_pre_key lib h 64 (nvs w);
          case found of
            Some pk \<Rightarrow> Some (finish_bundle lib h reg_id pk (nvs w), w)
          | None \<Rightarrow>
              (case generate_pre_key_batch lib h (next_pre_key_id (nvs w)) PRE_KEY_BATCH_SIZE w of
                 (e, w') \<Rightarrow>
                   if e \<noteq> ESP_OK then Some (Inl ESP_ERR_NOT_FOUND, w')
                   else do {
                     found \<leftarrow> find_unused_pre_key lib h 64 (nvs w');
                     case found of
                       None \<Rightarrow> Some (Inl ESP_ERR_NOT_FOUND, w')
                     | Some pk \<Rightarrow> Some (finish_bundle lib h reg_id pk (nvs w'), w') }) })"

record bundle_fields =
  bf_reg_id :: u32
  bf_pre_key_id :: u32
  bf_pre_key_pub :: bytes
  bf_spk_id :: u32
  bf_spk_pub :: bytes
  bf_sig :: bytes
  bf_idpub :: bytes

text \<open>\<open>NEED(n)\<close> and the reads that follow it, at offset \<open>off\<close>: the value and the new offset, or
  \<open>None\<close> where the macro returns \<open>ESP_ERR_INVALID_ARG\<close>.\<close>

definition need_u32 :: "bytes \<Rightarrow> nat \<Rightarrow> (u32 \<times> nat) option" where
  "need_u32 data off =
     (if off + 4 > length data then None else Some (from_le32 (take 4 (drop off data)), off + 4))"

definition need_blob :: "bytes \<Rightarrow> nat \<Rightarrow> (bytes \<times> nat) option" where
  "need_blob data off =
     (if off + 1 > length data then None
      else let n = unat (data ! off); off = off + 1
           in if off + n > length data then None else Some (take n (drop off data), off + n))"

definition parse_bundle :: "bytes \<Rightarrow> bundle_fields option" where
  "parse_bundle data = do {
     (reg_id, off) \<leftarrow> need_u32 data 0;
     (pre_key_id, off) \<leftarrow> need_u32 data off;
     (pre_key_pub, off) \<leftarrow> need_blob data off;
     (spk_id, off) \<leftarrow> need_u32 data off;
     (spk_pub, off) \<leftarrow> need_blob data off;
     (sig, off) \<leftarrow> need_blob data off;
     (idpub, off) \<leftarrow> need_blob data off;
     Some \<lparr>bf_reg_id = reg_id, bf_pre_key_id = pre_key_id, bf_pre_key_pub = pre_key_pub, bf_spk_id = spk_id,
       bf_spk_pub = spk_pub, bf_sig = sig, bf_idpub = idpub\<rparr> }"

definition pcrypto_process_bundle :: "signal_lib \<Rightarrow> heap \<Rightarrow> bytes \<Rightarrow> bytes \<Rightarrow> crypto \<Rightarrow> esp_err \<times> crypto" where
  "pcrypto_process_bundle lib h peer_id data w =
     (case parse_bundle data of
        None \<Rightarrow> (ESP_ERR_INVALID_ARG, w)
      | Some b \<Rightarrow>
          let has_opk = bf_pre_key_pub b \<noteq> [];
              pre_key_pub = (if has_opk then curve_decode_point lib (bf_pre_key_pub b) else None);
              pre_key_id = (if has_opk then bf_pre_key_id b else 0)
          in if has_opk \<and> pre_key_pub = None then (ESP_FAIL, w)
             else (case curve_decode_point lib (bf_spk_pub b) of
                     None \<Rightarrow> (ESP_FAIL, w)
                   | Some spk_pub \<Rightarrow>
                       (case curve_decode_point lib (bf_idpub b) of
                          None \<Rightarrow> (ESP_FAIL, w)
                        | Some identity_pub \<Rightarrow>
                            let bundle = \<lparr>pb_registration_id = bf_reg_id b, pb_device_id = 1, pb_pre_key_id = pre_key_id,
                                  pb_pre_key = pre_key_pub, pb_signed_pre_key_id = bf_spk_id b, pb_signed_pre_key = spk_pub,
                                  pb_signature = bf_sig b, pb_identity_key = identity_pub\<rparr>
                            in if \<not> bundle_create_ok lib bundle then (ESP_FAIL, w)
                               else if \<not> session_builder_create_ok lib peer_id then (ESP_FAIL, w)
                               else (case run_sg h (process_pre_key_bundle lib peer_id bundle) w of
                                       (ok, w') \<Rightarrow> (if ok then ESP_OK else ESP_FAIL, w')))))"

section \<open>Sessions and messages\<close>

definition pcrypto_has_session :: "signal_lib \<Rightarrow> heap \<Rightarrow> bytes \<Rightarrow> crypto \<Rightarrow> bool \<times> crypto" where
  "pcrypto_has_session lib h peer_id w =
     (case run_sg h (session_contains lib peer_id) w of (r, w') \<Rightarrow> (r > 0, w'))"

definition pcrypto_encrypt :: "signal_lib \<Rightarrow> heap \<Rightarrow> bytes \<Rightarrow> bytes \<Rightarrow> nat \<Rightarrow> crypto \<Rightarrow> (esp_err + bytes) \<times> crypto" where
  "pcrypto_encrypt lib h peer_id plaintext out_cap w =
     (if \<not> session_cipher_create_ok lib peer_id then (Inl ESP_FAIL, w)
      else case run_sg h (session_cipher_encrypt lib peer_id plaintext) w of
             (None, w') \<Rightarrow> (Inl ESP_FAIL, w')
           | (Some (msg_type, serialized), w') \<Rightarrow>
               (if 1 + length serialized > out_cap then Inl ESP_ERR_INVALID_SIZE
                else Inr (word_of_int msg_type # serialized), w'))"

definition pcrypto_decrypt :: "signal_lib \<Rightarrow> heap \<Rightarrow> bytes \<Rightarrow> bytes \<Rightarrow> nat \<Rightarrow> crypto \<Rightarrow> (esp_err + bytes) \<times> crypto" where
  "pcrypto_decrypt lib h peer_id ciphertext out_cap w =
     (case ciphertext of
        [] \<Rightarrow> (Inl ESP_ERR_INVALID_ARG, w)
      | msg_type # body \<Rightarrow>
          if \<not> session_cipher_create_ok lib peer_id then (Inl ESP_FAIL, w)
          else let (plaintext, w') =
                 (if msg_type = ciphertext_prekey_type lib
                  then (if pre_key_message_ok lib body then run_sg h (decrypt_pre_key_message lib peer_id body) w
                        else (None, w))
                  else if msg_type = ciphertext_signal_type lib
                  then (if signal_message_ok lib body then run_sg h (decrypt_signal_message lib peer_id body) w
                        else (None, w))
                  else (None, w))
               in (case plaintext of
                     None \<Rightarrow> Inl ESP_FAIL
                   | Some pt \<Rightarrow> if length pt > out_cap then Inl ESP_ERR_INVALID_SIZE else Inr pt, w'))"

section \<open>Bundle images\<close>

definition bundle_image :: "bundle_fields \<Rightarrow> bytes" where
  "bundle_image b = le32 (bf_reg_id b) @ le32 (bf_pre_key_id b) @
     of_nat (length (bf_pre_key_pub b)) # bf_pre_key_pub b @ le32 (bf_spk_id b) @
     of_nat (length (bf_spk_pub b)) # bf_spk_pub b @ of_nat (length (bf_sig b)) # bf_sig b @
     of_nat (length (bf_idpub b)) # bf_idpub b"

definition blobs_fit :: "bundle_fields \<Rightarrow> bool" where
  "blobs_fit b \<longleftrightarrow> length (bf_pre_key_pub b) \<le> 255 \<and> length (bf_spk_pub b) \<le> 255 \<and>
     length (bf_sig b) \<le> 255 \<and> length (bf_idpub b) \<le> 255"

lemma need_u32_iff:
  "need_u32 data off = Some (v, off') \<longleftrightarrow>
     off \<le> length data \<and> off' = off + 4 \<and> (\<exists>rest. drop off data = le32 v @ rest)"
proof
  assume a: "need_u32 data off = Some (v, off')"
  then have len: "off + 4 \<le> length data" and v: "v = from_le32 (take 4 (drop off data))" "off' = off + 4"
    by (simp_all add: need_u32_def split: if_splits)
  have "le32 v = take 4 (drop off data)" using len by (simp add: v(1) le32_from_le32)
  then have "drop off data = le32 v @ drop 4 (drop off data)" by (metis append_take_drop_id)
  with len v(2) show "off \<le> length data \<and> off' = off + 4 \<and> (\<exists>rest. drop off data = le32 v @ rest)" by auto
next
  assume "off \<le> length data \<and> off' = off + 4 \<and> (\<exists>rest. drop off data = le32 v @ rest)"
  then obtain rest where r: "off \<le> length data" "off' = off + 4" "drop off data = le32 v @ rest" by auto
  then have "length (drop off data) = 4 + length rest" by simp
  then have "off + 4 \<le> length data" by simp
  with r show "need_u32 data off = Some (v, off')" by (simp add: need_u32_def)
qed

lemma need_blob_iff:
  "need_blob data off = Some (b, off') \<longleftrightarrow>
     off \<le> length data \<and> off' = off + 1 + length b \<and> length b \<le> 255 \<and>
     (\<exists>rest. drop off data = of_nat (length b) # b @ rest)"
proof
  assume a: "need_blob data off = Some (b, off')"
  define n where "n = unat (data ! off)"
  from a have len: "off + 1 + n \<le> length data" and b: "b = take n (drop (off + 1) data)" "off' = off + 1 + n"
    by (auto simp: need_blob_def Let_def n_def split: if_splits)
  have lb: "length b = n" using len by (simp add: b(1))
  have "drop off data = data ! off # drop (off + 1) data"
    using len by (simp add: Cons_nth_drop_Suc)
  also have "data ! off = of_nat (length b)" by (simp add: lb n_def)
  also have "drop (off + 1) data = b @ drop n (drop (off + 1) data)" unfolding b(1) by (metis append_take_drop_id)
  finally show "off \<le> length data \<and> off' = off + 1 + length b \<and> length b \<le> 255 \<and>
     (\<exists>rest. drop off data = of_nat (length b) # b @ rest)"
    using len b(2) lb by (auto simp: n_def)
next
  assume "off \<le> length data \<and> off' = off + 1 + length b \<and> length b \<le> 255 \<and>
     (\<exists>rest. drop off data = of_nat (length b) # b @ rest)"
  then obtain rest where r: "off' = off + 1 + length b" "length b \<le> 255"
    "drop off data = of_nat (length b) # b @ rest" "off \<le> length data" by auto
  have l: "length (drop off data) = 1 + length b + length rest" by (simp add: r(3))
  have nth: "data ! off = of_nat (length b)"
    using arg_cong [OF r(3), of hd] l by (simp add: hd_drop_conv_nth)
  have "drop (off + 1) data = b @ rest" using arg_cong [OF r(3), of tl] by (simp add: drop_Suc tl_drop)
  then show "need_blob data off = Some (b, off')"
    using l r(1,2) by (simp add: need_blob_def Let_def nth unat_of_nat_byte)
qed

lemma need_u32D: "need_u32 data off = Some (v, off') \<Longrightarrow> drop off data = le32 v @ drop off' data"
proof -
  assume "need_u32 data off = Some (v, off')"
  then obtain rest where r: "drop off data = le32 v @ rest" "off' = off + 4" by (auto simp: need_u32_iff)
  have "drop off' data = drop 4 (drop off data)" unfolding r(2) drop_drop by (simp add: add.commute)
  also have "\<dots> = rest" unfolding r(1) by simp
  finally show ?thesis using r(1) by simp
qed

lemma need_blobD:
  assumes "need_blob data off = Some (b, off')"
  shows "drop off data = of_nat (length b) # b @ drop off' data" "length b \<le> 255"
proof -
  from assms obtain rest where r: "drop off data = of_nat (length b) # b @ rest" "off' = off + (1 + length b)" "length b \<le> 255"
    by (auto simp: need_blob_iff)
  have "drop off' data = drop (1 + length b) (drop off data)" unfolding r(2) drop_drop by (simp add: add.commute)
  also have "\<dots> = rest" unfolding r(1) by simp
  finally show "drop off data = of_nat (length b) # b @ drop off' data" "length b \<le> 255" using r by simp_all
qed

lemma need_u32I:
  assumes "drop off data = le32 v @ rest"
  obtains off' where "need_u32 data off = Some (v, off')" "drop off' data = rest"
proof -
  have "length (drop off data) = 4 + length rest" by (simp add: assms)
  then have "off \<le> length data" by simp
  then have n: "need_u32 data off = Some (v, off + 4)" using assms by (auto simp: need_u32_iff)
  have "drop (off + 4) data = drop 4 (drop off data)" unfolding drop_drop by (simp add: add.commute)
  also have "\<dots> = rest" unfolding assms by simp
  finally show ?thesis using that n by blast
qed

lemma need_blobI:
  assumes "drop off data = of_nat (length b) # b @ rest" "length b \<le> 255"
  obtains off' where "need_blob data off = Some (b, off')" "drop off' data = rest"
proof -
  have "length (drop off data) = 1 + length b + length rest" by (simp add: assms)
  then have "off \<le> length data" by simp
  then have n: "need_blob data off = Some (b, off + (1 + length b))" using assms by (auto simp: need_blob_iff)
  have "drop (off + (1 + length b)) data = drop (1 + length b) (drop off data)"
    unfolding drop_drop by (simp add: add.commute)
  also have "\<dots> = rest" unfolding assms(1) by simp
  finally show ?thesis using that n by blast
qed

lemma parse_bundle_sound:
  assumes "parse_bundle data = Some b"
  shows "\<exists>rest. data = bundle_image b @ rest" "blobs_fit b"
proof -
  from assms obtain o1 o2 o3 o4 o5 o6 o7 where n:
    "need_u32 data 0 = Some (bf_reg_id b, o1)" "need_u32 data o1 = Some (bf_pre_key_id b, o2)"
    "need_blob data o2 = Some (bf_pre_key_pub b, o3)" "need_u32 data o3 = Some (bf_spk_id b, o4)"
    "need_blob data o4 = Some (bf_spk_pub b, o5)" "need_blob data o5 = Some (bf_sig b, o6)"
    "need_blob data o6 = Some (bf_idpub b, o7)"
    by (auto simp: parse_bundle_def bind_eq_Some_conv)
  note d = need_u32D [OF n(1)] need_u32D [OF n(2)] need_blobD(1) [OF n(3)] need_u32D [OF n(4)]
    need_blobD(1) [OF n(5)] need_blobD(1) [OF n(6)] need_blobD(1) [OF n(7)]
  have "data = drop 0 data" by simp
  also have "\<dots> = bundle_image b @ drop o7 data"
    unfolding bundle_image_def d(1) d(2) d(3) d(4) d(5) d(6) d(7) by simp
  finally show "\<exists>rest. data = bundle_image b @ rest" ..
  show "blobs_fit b"
    using need_blobD(2) [OF n(3)] need_blobD(2) [OF n(5)] need_blobD(2) [OF n(6)] need_blobD(2) [OF n(7)]
    by (simp add: blobs_fit_def)
qed

lemma parse_bundle_complete:
  assumes "data = bundle_image b @ rest" "blobs_fit b"
  shows "parse_bundle data = Some b"
proof -
  have f: "length (bf_pre_key_pub b) \<le> 255" "length (bf_spk_pub b) \<le> 255" "length (bf_sig b) \<le> 255"
    "length (bf_idpub b) \<le> 255" using assms(2) by (simp_all add: blobs_fit_def)
  have "drop 0 data = le32 (bf_reg_id b) @ le32 (bf_pre_key_id b) @
     of_nat (length (bf_pre_key_pub b)) # bf_pre_key_pub b @ le32 (bf_spk_id b) @
     of_nat (length (bf_spk_pub b)) # bf_spk_pub b @ of_nat (length (bf_sig b)) # bf_sig b @
     of_nat (length (bf_idpub b)) # bf_idpub b @ rest"
    using assms(1) by (simp add: bundle_image_def)
  then obtain o1 where n1: "need_u32 data 0 = Some (bf_reg_id b, o1)" and d: "drop o1 data = le32 (bf_pre_key_id b) @
     of_nat (length (bf_pre_key_pub b)) # bf_pre_key_pub b @ le32 (bf_spk_id b) @
     of_nat (length (bf_spk_pub b)) # bf_spk_pub b @ of_nat (length (bf_sig b)) # bf_sig b @
     of_nat (length (bf_idpub b)) # bf_idpub b @ rest" by (rule need_u32I)
  from d obtain o2 where n2: "need_u32 data o1 = Some (bf_pre_key_id b, o2)" and d: "drop o2 data =
     of_nat (length (bf_pre_key_pub b)) # bf_pre_key_pub b @ le32 (bf_spk_id b) @
     of_nat (length (bf_spk_pub b)) # bf_spk_pub b @ of_nat (length (bf_sig b)) # bf_sig b @
     of_nat (length (bf_idpub b)) # bf_idpub b @ rest" by (rule need_u32I)
  from d f(1) obtain o3 where n3: "need_blob data o2 = Some (bf_pre_key_pub b, o3)" and d: "drop o3 data = le32 (bf_spk_id b) @
     of_nat (length (bf_spk_pub b)) # bf_spk_pub b @ of_nat (length (bf_sig b)) # bf_sig b @
     of_nat (length (bf_idpub b)) # bf_idpub b @ rest" by (rule need_blobI)
  from d obtain o4 where n4: "need_u32 data o3 = Some (bf_spk_id b, o4)" and d: "drop o4 data =
     of_nat (length (bf_spk_pub b)) # bf_spk_pub b @ of_nat (length (bf_sig b)) # bf_sig b @
     of_nat (length (bf_idpub b)) # bf_idpub b @ rest" by (rule need_u32I)
  from d f(2) obtain o5 where n5: "need_blob data o4 = Some (bf_spk_pub b, o5)" and d: "drop o5 data =
     of_nat (length (bf_sig b)) # bf_sig b @ of_nat (length (bf_idpub b)) # bf_idpub b @ rest" by (rule need_blobI)
  from d f(3) obtain o6 where n6: "need_blob data o5 = Some (bf_sig b, o6)"
    and d: "drop o6 data = of_nat (length (bf_idpub b)) # bf_idpub b @ rest" by (rule need_blobI)
  from d f(4) obtain o7 where n7: "need_blob data o6 = Some (bf_idpub b, o7)" by (rule need_blobI)
  show ?thesis by (simp add: parse_bundle_def n1 n2 n3 n4 n5 n6 n7)
qed

text \<open>What the writer produces is the image of its arguments, when it fits.\<close>

lemma put_bundle_image:
  "put_bundle (bf_reg_id b) (bf_pre_key_id b) (bf_pre_key_pub b) (bf_spk_id b) (bf_spk_pub b) (bf_sig b) (bf_idpub b) = Some out
     \<longleftrightarrow> out = bundle_image b \<and> blobs_fit b \<and> length out \<le> PCRYPTO_BUNDLE_MAX_LEN"
  by (auto simp: put_bundle_def bind_eq_Some_conv bundle_put_u32_def bundle_put_blob_def bundle_image_def
    blobs_fit_def PCRYPTO_BUNDLE_MAX_LEN_def split: if_splits)

end
