(* ===== verification/Mesh.thy ===== *)
theory Mesh
  imports Dedup RateLimit Presence Sx1262 PCrypto
begin

text \<open>
  The mesh node, \<open>firmware/components/mesh/mesh.c\<close>: what it does with a frame from the radio, how
  it sends messages, beacons and key bundles. The static variables of \<open>mesh.c\<close>, \<open>dedup.c\<close>,
  \<open>presence.c\<close>, the crypto layer and the radio driver are the fields of one record. Calls of the
  receive callback are recorded in \<open>delivered\<close>, in order (plaintext and sender).
\<close>

section \<open>State\<close>

record node =
  s_local_id :: bytes
  s_rx_cb :: bool
  delivered :: "(bytes \<times> bytes) list"
  s_rate_table :: rate_table
  dedup_st :: dedup
  presence_st :: presence
  cry :: crypto
  rad :: radio

definition KEY_BUNDLE_REQUEST :: byte where "KEY_BUNDLE_REQUEST = 0x00"
definition KEY_BUNDLE_RESPONSE :: byte where "KEY_BUNDLE_RESPONSE = 0x01"

text \<open>The platform and the radio as the node calls them.\<close>

definition node_time :: "node \<Rightarrow> int \<times> node" where
  "node_time n = (case esp_timer_get_time (plat (cry n)) of (t, p) \<Rightarrow> (t, n\<lparr>cry := (cry n)\<lparr>plat := p\<rparr>\<rparr>))"

definition node_random :: "nat \<Rightarrow> node \<Rightarrow> bytes \<times> node" where
  "node_random k n = (case esp_fill_random k (plat (cry n)) of (bs, p) \<Rightarrow> (bs, n\<lparr>cry := (cry n)\<lparr>plat := p\<rparr>\<rparr>))"

definition node_random_u32 :: "node \<Rightarrow> u32 \<times> node" where
  "node_random_u32 n = (case esp_random (plat (cry n)) of (r, p) \<Rightarrow> (r, n\<lparr>cry := (cry n)\<lparr>plat := p\<rparr>\<rparr>))"

definition radio_send :: "bytes \<Rightarrow> node \<Rightarrow> esp_err \<times> node" where
  "radio_send wire n = (case sx1262_send wire (rad n) of (e, r) \<Rightarrow> (e, n\<lparr>rad := r\<rparr>))"

section \<open>Sending\<close>

definition derive_local_id :: "bytes \<Rightarrow> node \<Rightarrow> node" where
  "derive_local_id mac n = n\<lparr>s_local_id := mac_node_id mac\<rparr>"

text \<open>A frame header with a fresh message ID, as each of the senders fills it in.\<close>

definition new_hdr :: "byte \<Rightarrow> byte \<Rightarrow> bytes \<Rightarrow> node \<Rightarrow> pkt_hdr \<times> node" where
  "new_hdr ty hops dst n =
     (let (us, n) = node_time n;
          (mid, n) = node_random PKT_MSG_ID_LEN n
      in (\<lparr>pkt_type = ty, msg_id = mid, src_id = s_local_id n, dst_id = dst, ttl = hops,
           timestamp = seconds_stamp us, payload_len = 0\<rparr>, n))"

definition send_beacon :: "node \<Rightarrow> node" where
  "send_beacon n =
     (let (hdr, n) = new_hdr PKT_TYPE_BEACON 1 (replicate PKT_NODE_ID_LEN 0) n;
          n = (case pkt_encode PKT_HDR_LEN hdr [] 0 of None \<Rightarrow> n | Some wire \<Rightarrow> snd (radio_send wire n));
          (now, n) = node_time n;
          (r, n) = node_random_u32 n
      in n\<lparr>presence_st := presence_beacon_reset_timer now r (presence_st n)\<rparr>)"

definition send_key_bundle_frame :: "bytes \<Rightarrow> byte \<Rightarrow> bytes \<Rightarrow> node \<Rightarrow> node" where
  "send_key_bundle_frame dst subtype extra n =
     (let (hdr, n) = new_hdr PKT_TYPE_KEY_BUNDLE 1 dst n
      in case pkt_encode PKT_MAX_WIRE_LEN hdr (subtype # extra) (of_nat (1 + length extra)) of
           None \<Rightarrow> n
         | Some wire \<Rightarrow> snd (radio_send wire n))"

definition send_key_bundle_request :: "bytes \<Rightarrow> node \<Rightarrow> node" where
  "send_key_bundle_request dst n = send_key_bundle_frame dst KEY_BUNDLE_REQUEST [] n"

text \<open>\<open>None\<close>: the call does not return, because the search for a prekey does not.\<close>

definition send_key_bundle_response :: "signal_lib \<Rightarrow> heap \<Rightarrow> bytes \<Rightarrow> node \<Rightarrow> node option" where
  "send_key_bundle_response lib h dst n =
     (case pcrypto_local_bundle lib h (cry n) of
        None \<Rightarrow> None
      | Some (Inl e, c) \<Rightarrow> Some (n\<lparr>cry := c\<rparr>)
      | Some (Inr bundle, c) \<Rightarrow> Some (send_key_bundle_frame dst KEY_BUNDLE_RESPONSE bundle (n\<lparr>cry := c\<rparr>)))"

section \<open>Receiving\<close>

definition handle_key_bundle :: "signal_lib \<Rightarrow> heap \<Rightarrow> pkt_hdr \<Rightarrow> bytes \<Rightarrow> node \<Rightarrow> node option" where
  "handle_key_bundle lib h hdr payload n =
     (let for_us = (dst_id hdr = s_local_id n)
      in if \<not> for_us \<or> unat (payload_len hdr) < 1 then Some n
         else let subtype = payload ! 0
              in if subtype = KEY_BUNDLE_REQUEST then send_key_bundle_response lib h (src_id hdr) n
                 else if subtype = KEY_BUNDLE_RESPONSE
                 then (case pcrypto_process_bundle lib h (src_id hdr)
                              (take (unat (payload_len hdr) - 1) (drop 1 payload)) (cry n) of
                         (e, c) \<Rightarrow> Some (n\<lparr>cry := c\<rparr>))
                 else Some n)"

text \<open>The last part of \<open>on_radio_rx\<close>: delivery to the application, then flooding.\<close>

definition deliver_local :: "signal_lib \<Rightarrow> heap \<Rightarrow> pkt_hdr \<Rightarrow> bytes \<Rightarrow> node \<Rightarrow> node" where
  "deliver_local lib h hdr payload n =
     (let for_us = (dst_id hdr = s_local_id n)
      in if for_us \<and> pkt_type hdr = PKT_TYPE_DATA \<and> s_rx_cb n
         then (case pcrypto_decrypt lib h (src_id hdr) (take (unat (payload_len hdr)) payload) PKT_MAX_PAYLOAD (cry n) of
                 (Inl e, c) \<Rightarrow> n\<lparr>cry := c\<rparr>
               | (Inr plaintext, c) \<Rightarrow> n\<lparr>cry := c, delivered := delivered n @ [(plaintext, src_id hdr)]\<rparr>)
         else n)"

definition forward :: "pkt_hdr \<Rightarrow> bytes \<Rightarrow> node \<Rightarrow> node" where
  "forward hdr payload n =
     (if ttl hdr > 1
      then let hdr = hdr\<lparr>ttl := ttl hdr - 1\<rparr>
           in (case pkt_encode PKT_MAX_WIRE_LEN hdr payload (payload_len hdr) of
                 None \<Rightarrow> n
               | Some wire \<Rightarrow> snd (radio_send wire n))
      else n)"

definition on_radio_rx :: "signal_lib \<Rightarrow> heap \<Rightarrow> bytes \<Rightarrow> node \<Rightarrow> node option" where
  "on_radio_rx lib h buf n =
     (case pkt_decode buf of
        None \<Rightarrow> Some n
      | Some (hdr, payload) \<Rightarrow>
          if src_id hdr = s_local_id n then Some n
          else let (now, n) = node_time n;
                   (limited, tbl) = rate_limited (src_id hdr) now (s_rate_table n);
                   n = n\<lparr>s_rate_table := tbl\<rparr>
               in if limited then Some n
                  else let (now, n) = node_time n;
                           n = n\<lparr>presence_st := presence_touch (src_id hdr) now (presence_st n)\<rparr>
                       in if pkt_type hdr = PKT_TYPE_BEACON then Some n
                          else if pkt_type hdr = PKT_TYPE_KEY_BUNDLE then handle_key_bundle lib h hdr payload n
                          else let (seen, d) = dedup_check_and_mark (msg_id hdr) (dedup_st n);
                                   n = n\<lparr>dedup_st := d\<rparr>
                               in if seen then Some n
                                  else Some (forward hdr payload (deliver_local lib h hdr payload n)))"

section \<open>The interface of the component\<close>

definition mesh_cfg :: sx1262_config where
  "mesh_cfg = \<lparr>freq_hz = 868100000, sf = 7, bw = SX1262_BW_125, cr = SX1262_CR_4_5, tx_power_dbm = 14\<rparr>"

definition mesh_init :: "signal_lib \<Rightarrow> heap \<Rightarrow> bytes \<Rightarrow> node \<Rightarrow> esp_err \<times> node" where
  "mesh_init lib h mac n =
     (let n = derive_local_id mac n;
          n = n\<lparr>dedup_st := dedup_init\<rparr>;
          (now, n) = node_time n;
          (r, n) = node_random_u32 n;
          n = n\<lparr>presence_st := presence_init now r\<rparr>;
          n = n\<lparr>s_rate_table := rate_table_init\<rparr>;
          (crypto_err, c) = pcrypto_init lib h (cry n);
          n = n\<lparr>cry := c\<rparr>
      in if crypto_err \<noteq> ESP_OK then (crypto_err, n)
         else (case sx1262_init mesh_cfg (rad n) of
                 (err, rd) \<Rightarrow>
                   let n = n\<lparr>rad := rd\<rparr>
                   in if err \<noteq> ESP_OK then (err, n)
                      else (case sx1262_start_rx (rad n) of (e, rd) \<Rightarrow> (e, n\<lparr>rad := rd\<rparr>))))"

text \<open>The length of the plaintext is the \<open>uint8_t\<close> argument \<open>len\<close>.\<close>

definition mesh_send :: "signal_lib \<Rightarrow> heap \<Rightarrow> bytes \<Rightarrow> bytes \<Rightarrow> node \<Rightarrow> esp_err \<times> node" where
  "mesh_send lib h dst plaintext n =
     (if length plaintext > PKT_MAX_PAYLOAD then (ESP_ERR_INVALID_SIZE, n)
      else case pcrypto_has_session lib h dst (cry n) of
        (has, c) \<Rightarrow>
          let n = n\<lparr>cry := c\<rparr>
          in if \<not> has then (ESP_ERR_NOT_FOUND, send_key_bundle_request dst n)
             else (case pcrypto_encrypt lib h dst plaintext PKT_MAX_PAYLOAD (cry n) of
                     (Inl e, c) \<Rightarrow> (e, n\<lparr>cry := c\<rparr>)
                   | (Inr ciphertext, c) \<Rightarrow>
                       let (hdr, n) = new_hdr PKT_TYPE_DATA PKT_TTL_DEFAULT dst (n\<lparr>cry := c\<rparr>);
                           n = n\<lparr>dedup_st := snd (dedup_check_and_mark (msg_id hdr) (dedup_st n))\<rparr>
                       in (case pkt_encode PKT_MAX_WIRE_LEN hdr ciphertext (of_nat (length ciphertext)) of
                             None \<Rightarrow> (ESP_ERR_INVALID_SIZE, n)
                           | Some wire \<Rightarrow> radio_send wire n)))"

definition mesh_set_rx_callback :: "bool \<Rightarrow> node \<Rightarrow> node" where
  "mesh_set_rx_callback cb n = n\<lparr>s_rx_cb := cb\<rparr>"

definition mesh_poll :: "node \<Rightarrow> node" where
  "mesh_poll n =
     (case node_time n of (now, n) \<Rightarrow> if presence_beacon_due now (presence_st n) then send_beacon n else n)"

definition mesh_local_id :: "node \<Rightarrow> bytes" where
  "mesh_local_id n = s_local_id n"

section \<open>What an operation leaves alone\<close>

lemma node_time_fields [simp, frame_simps]:
  "s_local_id (snd (node_time n)) = s_local_id n" "s_rx_cb (snd (node_time n)) = s_rx_cb n"
  "delivered (snd (node_time n)) = delivered n" "s_rate_table (snd (node_time n)) = s_rate_table n"
  "dedup_st (snd (node_time n)) = dedup_st n" "presence_st (snd (node_time n)) = presence_st n"
  "rad (snd (node_time n)) = rad n" "nvs (cry (snd (node_time n))) = nvs (cry n)"
  by (simp_all add: node_time_def split: prod.split)

lemma node_random_fields [simp, frame_simps]:
  "s_local_id (snd (node_random k n)) = s_local_id n" "s_rx_cb (snd (node_random k n)) = s_rx_cb n"
  "delivered (snd (node_random k n)) = delivered n" "s_rate_table (snd (node_random k n)) = s_rate_table n"
  "dedup_st (snd (node_random k n)) = dedup_st n" "presence_st (snd (node_random k n)) = presence_st n"
  "rad (snd (node_random k n)) = rad n" "nvs (cry (snd (node_random k n))) = nvs (cry n)"
  "length (fst (node_random k n)) = k"
  by (simp_all add: node_random_def esp_fill_random_def split: prod.split)

lemma node_random_u32_fields [simp, frame_simps]:
  "s_local_id (snd (node_random_u32 n)) = s_local_id n" "s_rx_cb (snd (node_random_u32 n)) = s_rx_cb n"
  "delivered (snd (node_random_u32 n)) = delivered n" "s_rate_table (snd (node_random_u32 n)) = s_rate_table n"
  "dedup_st (snd (node_random_u32 n)) = dedup_st n" "presence_st (snd (node_random_u32 n)) = presence_st n"
  "rad (snd (node_random_u32 n)) = rad n" "nvs (cry (snd (node_random_u32 n))) = nvs (cry n)"
  by (simp_all add: node_random_u32_def split: prod.split)

lemma new_hdr_fields [simp, frame_simps]:
  "s_local_id (snd (new_hdr ty hops dst n)) = s_local_id n" "s_rx_cb (snd (new_hdr ty hops dst n)) = s_rx_cb n"
  "delivered (snd (new_hdr ty hops dst n)) = delivered n" "s_rate_table (snd (new_hdr ty hops dst n)) = s_rate_table n"
  "dedup_st (snd (new_hdr ty hops dst n)) = dedup_st n" "presence_st (snd (new_hdr ty hops dst n)) = presence_st n"
  "rad (snd (new_hdr ty hops dst n)) = rad n" "nvs (cry (snd (new_hdr ty hops dst n))) = nvs (cry n)"
  by (simp_all add: new_hdr_def case_prod_beta Let_def)

lemma new_hdr_hdr [simp]:
  "pkt_type (fst (new_hdr ty hops dst n)) = ty" "ttl (fst (new_hdr ty hops dst n)) = hops"
  "src_id (fst (new_hdr ty hops dst n)) = s_local_id n" "dst_id (fst (new_hdr ty hops dst n)) = dst"
  "length (msg_id (fst (new_hdr ty hops dst n))) = PKT_MSG_ID_LEN"
  by (simp_all add: new_hdr_def case_prod_beta Let_def)

lemma wf_new_hdr [simp]:
  "length (s_local_id n) = 8 \<Longrightarrow> length dst = 8 \<Longrightarrow> wf_hdr (fst (new_hdr ty hops dst n))"
  by (simp add: wf_hdr_def PKT_NODE_ID_LEN_def)

lemma radio_send_fields [simp, frame_simps]:
  "s_local_id (snd (radio_send w n)) = s_local_id n" "s_rx_cb (snd (radio_send w n)) = s_rx_cb n"
  "delivered (snd (radio_send w n)) = delivered n" "s_rate_table (snd (radio_send w n)) = s_rate_table n"
  "dedup_st (snd (radio_send w n)) = dedup_st n" "presence_st (snd (radio_send w n)) = presence_st n"
  "cry (snd (radio_send w n)) = cry n" "rad (snd (radio_send w n)) = snd (sx1262_send w (rad n))"
  "fst (radio_send w n) = fst (sx1262_send w (rad n))"
  by (simp_all add: radio_send_def split: prod.split)

end
