(* ===== verification/BleBridge.thy ===== *)
theory BleBridge
  imports Mesh
begin

text \<open>
  The bridge between phones and the mesh, \<open>firmware/components/ble/ble_bridge.c\<close>: a GATT server
  with one writable and one notifying characteristic. The NimBLE stack is outside the repository:
  its calls are recorded in order in \<open>ble_log\<close>, and what they answer is a parameter that may
  depend on everything called before. Events from the stack are values of a datatype.
\<close>

section \<open>The stack\<close>

datatype chr_flag = BLE_GATT_CHR_F_WRITE | BLE_GATT_CHR_F_WRITE_NO_RSP | BLE_GATT_CHR_F_WRITE_ENC | BLE_GATT_CHR_F_NOTIFY

record gatt_chr =
  chr_uuid :: bytes
  chr_flags :: "chr_flag list"

datatype adv_flag = BLE_HS_ADV_F_DISC_GEN | BLE_HS_ADV_F_BREDR_UNSUP

datatype ble_call =
    SvcGapInit
  | SvcGattInit
  | GattsCountCfg
  | GattsAddSvcs "(bytes \<times> gatt_chr list) list"
  | DeviceNameSet string
  | SetPreferredMtu nat
  | FreertosInit
  | EnsureAddr
  | InferAuto
  | AdvSetFields "adv_flag list" string
  | AdvStart byte
  | SecurityInitiate u16
  | MbufFromFlat bytes
  | NotifyCustom u16 u16 bytes

text \<open>The answers of the stack: the result of a call after the calls of the log (zero: success; for
  \<open>ble_hs_mbuf_from_flat\<close>: a buffer was allocated), the advertised name, the inferred address
  type, and the flattening of a written value into a buffer of a given size.\<close>

record nimble =
  nimble_port_init :: esp_err
  answer :: "ble_call list \<Rightarrow> ble_call \<Rightarrow> int"
  gap_device_name :: "ble_call list \<Rightarrow> string"
  inferred_addr :: "ble_call list \<Rightarrow> byte"
  mbuf_to_flat :: "bytes \<Rightarrow> nat \<Rightarrow> bytes option"

text \<open>\<open>ble_hs_mbuf_to_flat\<close> as documented: the whole value when it fits the buffer, an error
  otherwise.\<close>

definition to_flat_documented :: "nimble \<Rightarrow> bool" where
  "to_flat_documented st \<longleftrightarrow> (\<forall>om cap. mbuf_to_flat st om cap = (if length om \<le> cap then Some om else None))"

section \<open>State\<close>

datatype key_dist = BLE_SM_PAIR_KEY_DIST_ENC | BLE_SM_PAIR_KEY_DIST_ID

record hs_cfg =
  callbacks_set :: bool
  sm_bonding :: bool
  sm_mitm :: bool
  sm_sc :: bool
  sm_our_key_dist :: "key_dist list"
  sm_their_key_dist :: "key_dist list"

record ble =
  s_tx_val_handle :: u16
  s_own_addr_type :: byte
  s_subscriber_conns :: "u16 list"
  s_subscriber_count :: nat
  ble_hs_cfg :: hs_cfg
  ble_log :: "ble_call list"

definition DEVICE_NAME :: string where "DEVICE_NAME = ''pabianice-node''"
definition BLE_MAX_SUBSCRIBERS :: nat where "BLE_MAX_SUBSCRIBERS = 3"

definition SVC_UUID :: bytes where
  "SVC_UUID = [0x2b, 0x19, 0x5c, 0xc7, 0x9a, 0x84, 0x4b, 0x1a, 0x8f, 0x6e, 0x11, 0x22, 0x33, 0x44, 0x00, 0x01]"
definition CHR_RX_UUID :: bytes where
  "CHR_RX_UUID = [0x2b, 0x19, 0x5c, 0xc7, 0x9a, 0x84, 0x4b, 0x1a, 0x8f, 0x6e, 0x11, 0x22, 0x33, 0x44, 0x00, 0x02]"
definition CHR_TX_UUID :: bytes where
  "CHR_TX_UUID = [0x2b, 0x19, 0x5c, 0xc7, 0x9a, 0x84, 0x4b, 0x1a, 0x8f, 0x6e, 0x11, 0x22, 0x33, 0x44, 0x00, 0x03]"

definition gatt_svr_svcs :: "(bytes \<times> gatt_chr list) list" where
  "gatt_svr_svcs = [(SVC_UUID,
     [\<lparr>chr_uuid = CHR_RX_UUID, chr_flags = [BLE_GATT_CHR_F_WRITE, BLE_GATT_CHR_F_WRITE_NO_RSP, BLE_GATT_CHR_F_WRITE_ENC]\<rparr>,
      \<lparr>chr_uuid = CHR_TX_UUID, chr_flags = [BLE_GATT_CHR_F_NOTIFY]\<rparr>])]"

definition ble_do :: "nimble \<Rightarrow> ble_call \<Rightarrow> ble \<Rightarrow> int \<times> ble" where
  "ble_do st c b = (answer st (ble_log b) c, b\<lparr>ble_log := ble_log b @ [c]\<rparr>)"

section \<open>Subscribers\<close>

text \<open>The search loop of both functions: the first index below the count that holds the handle.\<close>

fun conn_index :: "u16 \<Rightarrow> u16 list \<Rightarrow> nat option" where
  "conn_index c [] = None"
| "conn_index c (d # ds) = (if d = c then Some 0 else map_option Suc (conn_index c ds))"

definition subscriber_add :: "u16 \<Rightarrow> ble \<Rightarrow> ble" where
  "subscriber_add c b =
     (case conn_index c (take (s_subscriber_count b) (s_subscriber_conns b)) of
        Some i \<Rightarrow> b
      | None \<Rightarrow>
          if s_subscriber_count b < BLE_MAX_SUBSCRIBERS
          then b\<lparr>s_subscriber_conns := (s_subscriber_conns b)[s_subscriber_count b := c],
                 s_subscriber_count := s_subscriber_count b + 1\<rparr>
          else b)"

definition subscriber_remove :: "u16 \<Rightarrow> ble \<Rightarrow> ble" where
  "subscriber_remove c b =
     (case conn_index c (take (s_subscriber_count b) (s_subscriber_conns b)) of
        Some i \<Rightarrow> b\<lparr>s_subscriber_conns := (s_subscriber_conns b)[i := s_subscriber_conns b ! (s_subscriber_count b - 1)],
                    s_subscriber_count := s_subscriber_count b - 1\<rparr>
      | None \<Rightarrow> b)"

section \<open>Writes of the phone\<close>

datatype att_result = ATT_OK | BLE_ATT_ERR_UNLIKELY | BLE_ATT_ERR_INVALID_ATTR_VALUE_LEN

datatype access_op = BLE_GATT_ACCESS_OP_WRITE_CHR | ACCESS_OP_OTHER

text \<open>The message length is passed on as \<open>uint8_t\<close>.\<close>

definition gatt_svr_chr_access ::
  "nimble \<Rightarrow> signal_lib \<Rightarrow> heap \<Rightarrow> access_op \<Rightarrow> bytes \<Rightarrow> node \<Rightarrow> att_result \<times> node" where
  "gatt_svr_chr_access st lib h op om n =
     (if op \<noteq> BLE_GATT_ACCESS_OP_WRITE_CHR then (BLE_ATT_ERR_UNLIKELY, n)
      else case mbuf_to_flat st om (PKT_NODE_ID_LEN + PKT_MAX_PAYLOAD) of
        None \<Rightarrow> (BLE_ATT_ERR_UNLIKELY, n)
      | Some buf \<Rightarrow>
          if length buf \<le> PKT_NODE_ID_LEN then (BLE_ATT_ERR_INVALID_ATTR_VALUE_LEN, n)
          else let dst_id = take PKT_NODE_ID_LEN buf;
                   (err, n) = mesh_send lib h dst_id
                     (take ((length buf - PKT_NODE_ID_LEN) mod 256) (drop PKT_NODE_ID_LEN buf)) n
               in (ATT_OK, n))"

section \<open>Events of the stack\<close>

definition ble_advertise :: "nimble \<Rightarrow> ble \<Rightarrow> ble" where
  "ble_advertise st b =
     (let name = gap_device_name st (ble_log b);
          name = take (length name mod 256) name;
          (rc, b) = ble_do st (AdvSetFields [BLE_HS_ADV_F_DISC_GEN, BLE_HS_ADV_F_BREDR_UNSUP] name) b
      in if rc \<noteq> 0 then b
         else snd (ble_do st (AdvStart (s_own_addr_type b)) b))"

datatype gap_event =
    BLE_GAP_EVENT_CONNECT (gap_status: int) (gap_conn: u16)
  | BLE_GAP_EVENT_DISCONNECT (gap_conn: u16)
  | BLE_GAP_EVENT_ENC_CHANGE (gap_status: int) (gap_conn: u16)
  | BLE_GAP_EVENT_SUBSCRIBE (gap_conn: u16) (gap_attr: u16) (gap_cur_notify: bool)
  | BLE_GAP_EVENT_ADV_COMPLETE
  | GAP_EVENT_OTHER

fun ble_gap_event :: "nimble \<Rightarrow> gap_event \<Rightarrow> ble \<Rightarrow> ble" where
  "ble_gap_event st (BLE_GAP_EVENT_CONNECT status conn) b =
     (if status \<noteq> 0 then ble_advertise st b
      else ble_advertise st (snd (ble_do st (SecurityInitiate conn) b)))"
| "ble_gap_event st (BLE_GAP_EVENT_DISCONNECT conn) b = ble_advertise st (subscriber_remove conn b)"
| "ble_gap_event st (BLE_GAP_EVENT_ENC_CHANGE status conn) b = b"
| "ble_gap_event st (BLE_GAP_EVENT_SUBSCRIBE conn attr cur_notify) b =
     (if attr = s_tx_val_handle b
      then if cur_notify then subscriber_add conn b else subscriber_remove conn b
      else b)"
| "ble_gap_event st BLE_GAP_EVENT_ADV_COMPLETE b = ble_advertise st b"
| "ble_gap_event st GAP_EVENT_OTHER b = b"

definition ble_app_on_sync :: "nimble \<Rightarrow> ble \<Rightarrow> ble" where
  "ble_app_on_sync st b =
     (case ble_do st EnsureAddr b of (rc, b) \<Rightarrow>
        if rc \<noteq> 0 then b
        else case ble_do st InferAuto b of (rc, b) \<Rightarrow>
          if rc \<noteq> 0 then b
          else ble_advertise st (b\<lparr>s_own_addr_type := inferred_addr st (ble_log b)\<rparr>))"

section \<open>Start\<close>

definition ble_bridge_init :: "nimble \<Rightarrow> ble \<Rightarrow> esp_err \<times> ble" where
  "ble_bridge_init st b =
     (let ret = nimble_port_init st
      in if ret \<noteq> ESP_OK then (ret, b)
         else
           let b = b\<lparr>ble_hs_cfg := \<lparr>callbacks_set = True, sm_bonding = True, sm_mitm = False, sm_sc = True,
                 sm_our_key_dist = [BLE_SM_PAIR_KEY_DIST_ENC, BLE_SM_PAIR_KEY_DIST_ID],
                 sm_their_key_dist = [BLE_SM_PAIR_KEY_DIST_ENC, BLE_SM_PAIR_KEY_DIST_ID]\<rparr>\<rparr>;
               (_, b) = ble_do st SvcGapInit b;
               (_, b) = ble_do st SvcGattInit b;
               (rc, b) = ble_do st GattsCountCfg b
           in if rc \<noteq> 0 then (ESP_FAIL, b)
              else let (rc, b) = ble_do st (GattsAddSvcs gatt_svr_svcs) b
                   in if rc \<noteq> 0 then (ESP_FAIL, b)
                      else let (rc, b) = ble_do st (DeviceNameSet DEVICE_NAME) b
                           in if rc \<noteq> 0 then (ESP_FAIL, b)
                              else let (_, b) = ble_do st (SetPreferredMtu 247) b;
                                       (_, b) = ble_do st FreertosInit b
                                   in (ESP_OK, b))"

section \<open>Messages from the mesh\<close>

text \<open>One buffer per subscriber; a subscriber whose buffer cannot be allocated is skipped.\<close>

fun notify_loop :: "nimble \<Rightarrow> bytes \<Rightarrow> u16 list \<Rightarrow> ble \<Rightarrow> ble" where
  "notify_loop st buf [] b = b"
| "notify_loop st buf (c # cs) b =
     (case ble_do st (MbufFromFlat buf) b of (rc, b) \<Rightarrow>
        notify_loop st buf cs
          (if rc \<noteq> 0 then b else snd (ble_do st (NotifyCustom c (s_tx_val_handle b) buf) b)))"

definition ble_bridge_on_mesh_rx :: "nimble \<Rightarrow> bytes \<Rightarrow> bytes \<Rightarrow> ble \<Rightarrow> ble" where
  "ble_bridge_on_mesh_rx st payload src b =
     (if s_subscriber_count b = 0 then b
      else let len = (if length payload > PKT_MAX_PAYLOAD then PKT_MAX_PAYLOAD else length payload);
               buf = src @ take len payload
           in notify_loop st buf (take (s_subscriber_count b) (s_subscriber_conns b)) b)"

end
