(* ===== verification/BoundedSet.thy ===== *)
theory BoundedSet
  imports Prelude
begin

text \<open>
  The contract of a set with a fixed number of places, as the bridge keeps its subscribers: an
  addition when all places are taken is dropped. The lemmas say who is in after any sequence of
  additions and removals.
\<close>

datatype 'k set_op = Add 'k | Remove 'k

fun run_ops :: "('k \<Rightarrow> 's \<Rightarrow> 's) \<Rightarrow> ('k \<Rightarrow> 's \<Rightarrow> 's) \<Rightarrow> 'k set_op list \<Rightarrow> 's \<Rightarrow> 's" where
  "run_ops add rem [] s = s"
| "run_ops add rem (Add k # ops) s = run_ops add rem ops (add k s)"
| "run_ops add rem (Remove k # ops) s = run_ops add rem ops (rem k s)"

text \<open>The abstract specification of the two operations.\<close>

definition bounded_insert :: "nat \<Rightarrow> 'k \<Rightarrow> 'k set \<Rightarrow> 'k set" where
  "bounded_insert cap k S = (if card S < cap then insert k S else S)"

locale bounded_set =
  fixes add :: "'k \<Rightarrow> 's \<Rightarrow> 's"
    and remove :: "'k \<Rightarrow> 's \<Rightarrow> 's"
    and members :: "'s \<Rightarrow> 'k set"
    and ok :: "'s \<Rightarrow> bool"
    and cap :: nat
  assumes add_ok: "ok s \<Longrightarrow> ok (add k s)"
    and remove_ok: "ok s \<Longrightarrow> ok (remove k s)"
    and add_members: "ok s \<Longrightarrow> members (add k s) = bounded_insert cap k (members s)"
    and remove_members: "ok s \<Longrightarrow> members (remove k s) = members s - {k}"
    and ok_card: "ok s \<Longrightarrow> finite (members s) \<and> card (members s) \<le> cap"
begin

lemma run_ok: "ok s \<Longrightarrow> ok (run_ops add remove ops s)"
proof (induction ops arbitrary: s)
  case (Cons op ops)
  then show ?case by (cases op) (simp_all add: add_ok remove_ok)
qed simp

lemma run_members: "ok s \<Longrightarrow>
    members (run_ops add remove ops s) = run_ops (bounded_insert cap) (\<lambda>k S. S - {k}) ops (members s)"
proof (induction ops arbitrary: s)
  case (Cons op ops)
  then show ?case by (cases op) (simp_all add: add_ok remove_ok add_members remove_members)
qed simp

text \<open>Somebody who leaves makes room: after a removal of a member the next addition succeeds.\<close>

lemma remove_then_add:
  assumes "ok s" "j \<in> members s"
  shows "k \<in> members (add k (remove j s))"
proof -
  have "card (members s - {j}) < cap"
    using ok_card [OF assms(1)] assms(2) by (metis card_Diff1_less order_less_le_trans)
  then show ?thesis by (simp add: add_members remove_members remove_ok assms(1) bounded_insert_def)
qed

end

end
