(* ===== verification/Sessions.thy ===== *)
theory Sessions
  imports PCrypto
begin

text \<open>
  What the crypto layer guarantees, whatever libsignal does: which records the library can reach,
  that prekey numbers are not used twice, what a key bundle contains, and how messages are framed.
\<close>

section \<open>Confinement\<close>

text \<open>The records the store callbacks can change.\<close>

definition sg_key :: "string \<Rightarrow> bool" where
  "sg_key k \<longleftrightarrow> (\<exists>a. k = ss_key a \<or> k = ik_key a) \<or> (\<exists>i. k = pk_key i \<or> k = spk_key i)"

text \<open>\<open>fs'\<close> is \<open>fs\<close> but for records with keys in \<open>K\<close>.\<close>

definition confined :: "(string \<Rightarrow> bool) \<Rightarrow> host_fs \<Rightarrow> host_fs \<Rightarrow> bool" where
  "confined K fs fs' \<longleftrightarrow> fs'\<lparr>files := files fs\<rparr> = fs \<and>
     (\<forall>k. nvs_key_ok k \<and> \<not> K k \<longrightarrow> blob_at k fs' = blob_at k fs)"

lemma sg_keys [simp]: "sg_key (ss_key a)" "sg_key (ik_key a)" "sg_key (pk_key i)" "sg_key (spk_key i)"
  by (auto simp: sg_key_def)

lemma fixed_not_sg [simp]: "\<not> sg_key ''id_pub''" "\<not> sg_key ''id_priv''" "\<not> sg_key ''reg_id''" "\<not> sg_key ''next_pk_id''"
  by (auto simp: sg_key_def)

lemma confined_refl [simp]: "confined K fs fs"
  by (simp add: confined_def)

lemma confined_fields:
  assumes "confined K fs fs'"
  shows "data_dir fs' = data_dir fs" "can_read fs' = can_read fs" "can_seek fs' = can_seek fs"
    "read_limit fs' = read_limit fs" "key_file k fs' = key_file k fs"
proof -
  have f: "fs = fs'\<lparr>files := files fs\<rparr>" using assms by (simp add: confined_def)
  have "key_file k fs = key_file k (fs'\<lparr>files := files fs\<rparr>)"
    "data_dir fs = data_dir (fs'\<lparr>files := files fs\<rparr>)" "can_read fs = can_read (fs'\<lparr>files := files fs\<rparr>)"
    "can_seek fs = can_seek (fs'\<lparr>files := files fs\<rparr>)" "read_limit fs = read_limit (fs'\<lparr>files := files fs\<rparr>)"
    by (simp_all only: f [symmetric])
  then show "data_dir fs' = data_dir fs" "can_read fs' = can_read fs" "can_seek fs' = can_seek fs"
    "read_limit fs' = read_limit fs" "key_file k fs' = key_file k fs" by simp_all
qed

lemma confined_trans:
  assumes "confined K a b" "confined K b c"
  shows "confined K a c"
proof -
  from assms(1) have a: "a = b\<lparr>files := files a\<rparr>" by (simp add: confined_def)
  from assms(2) have b: "b = c\<lparr>files := files b\<rparr>" by (simp add: confined_def)
  have "c\<lparr>files := files a\<rparr> = (c\<lparr>files := files b\<rparr>)\<lparr>files := files a\<rparr>" by simp
  also have "\<dots> = b\<lparr>files := files a\<rparr>" by (simp only: b [symmetric])
  finally have "c\<lparr>files := files a\<rparr> = a" by (simp only: a [symmetric])
  then show ?thesis using assms by (simp add: confined_def)
qed

lemma confined_reads:
  assumes "confined K fs fs'" "nvs_key_ok k" "\<not> K k"
  shows "nvs_get_blob NVS_HANDLE k n fs' = nvs_get_blob NVS_HANDLE k n fs"
    "nvs_get_blob_len NVS_HANDLE k fs' = nvs_get_blob_len NVS_HANDLE k fs"
    "nvs_get_u32 NVS_HANDLE k old fs' = nvs_get_u32 NVS_HANDLE k old fs"
    "nvs_read k fs' = nvs_read k fs" "read_blob h k n fs' = read_blob h k n fs"
proof -
  have "blob_at k fs' = blob_at k fs" using assms by (simp add: confined_def)
  with confined_fields [OF assms(1)]
  have b: "nvs_get_blob NVS_HANDLE k n fs' = nvs_get_blob NVS_HANDLE k n fs"
    and l: "nvs_get_blob_len NVS_HANDLE k fs' = nvs_get_blob_len NVS_HANDLE k fs" for n
    by (cases "key_file k fs"; simp add: nvs_ops_file blob_at_def)+
  show "nvs_get_blob NVS_HANDLE k n fs' = nvs_get_blob NVS_HANDLE k n fs"
    "nvs_get_blob_len NVS_HANDLE k fs' = nvs_get_blob_len NVS_HANDLE k fs"
    using b l by blast+
  show "nvs_get_u32 NVS_HANDLE k old fs' = nvs_get_u32 NVS_HANDLE k old fs" by (simp add: nvs_get_u32_def b)
  show "nvs_read k fs' = nvs_read k fs" "read_blob h k n fs' = read_blob h k n fs"
    by (simp_all add: nvs_read_def read_blob_def b l cong: sum.case_cong)
qed

lemma confined_write:
  assumes "length (data_dir fs) < 512" "nvs_key_ok k" "K k" "key_file k fs = Some f"
  shows "confined K fs (fs\<lparr>files := (files fs)(f := v)\<rparr>)"
  using assms by (auto simp: confined_def blob_at_def key_file_eq split: option.splits)

lemma confined_set [simp]:
  assumes "length (data_dir fs) < 512" "nvs_key_ok k" "K k"
  shows "confined K fs (snd (nvs_set_blob NVS_HANDLE k v fs))"
  using confined_write [where K = K and fs = fs and k = k, OF assms]
  by (auto simp: nvs_ops_file simp del: fun_upd_apply split: option.split)

lemma confined_erase [simp]:
  assumes "length (data_dir fs) < 512" "nvs_key_ok k" "K k"
  shows "confined K fs (snd (nvs_erase_key NVS_HANDLE k fs))"
  using confined_write [where K = K and fs = fs and k = k, OF assms]
  by (auto simp: nvs_ops_file simp del: fun_upd_apply split: option.split)

lemma callbacks_confined [simp]:
  assumes "length (data_dir fs) < 512"
  shows "K (ss_key a) \<Longrightarrow> confined K fs (snd (store_session_func a r fs))"
    "K (ss_key a) \<Longrightarrow> confined K fs (snd (delete_session_func a fs))"
    "K (ss_key a) \<Longrightarrow> confined K fs (snd (delete_all_sessions_func a fs))"
    "K (pk_key i) \<Longrightarrow> confined K fs (snd (store_pre_key i r fs))"
    "K (pk_key i) \<Longrightarrow> confined K fs (snd (remove_pre_key i fs))"
    "K (spk_key i) \<Longrightarrow> confined K fs (snd (store_signed_pre_key i r fs))"
    "K (spk_key i) \<Longrightarrow> confined K fs (snd (remove_signed_pre_key i fs))"
    "K (ik_key a) \<Longrightarrow> confined K fs (snd (save_identity a d fs))"
  using assms
  by (simp_all add: delete_session_func_def delete_all_sessions_func_def store_pre_key_def remove_pre_key_def
    store_signed_pre_key_def remove_signed_pre_key_def save_identity_def nvs_commit_def case_prod_beta Let_def split: option.split)

lemma on_nvs_confined:
  assumes "confined K (nvs w) (snd (f (nvs w)))" "length (data_dir (nvs w)) < 512"
    and "\<And>c w'. length (data_dir (nvs w')) < 512 \<Longrightarrow> confined K (nvs w') (nvs (snd (run_sg h (k c) w')))"
  shows "confined K (nvs w) (nvs (snd (case on_nvs f w of (c, w') \<Rightarrow> run_sg h (k c) w')))"
proof -
  obtain r fs where f: "f (nvs w) = (r, fs)" by fastforce
  from assms(1) have c: "confined K (nvs w) fs" by (simp add: f)
  from confined_fields(1) [OF c] assms(2) have "length (data_dir fs) < 512" by simp
  with assms(3) [of "w\<lparr>nvs := fs\<rparr>" r] have "confined K fs (nvs (snd (run_sg h (k r) (w\<lparr>nvs := fs\<rparr>))))" by simp
  with c show ?thesis by (auto simp: on_nvs_def f intro: confined_trans)
qed

lemma run_sg_confined:
  "length (data_dir (nvs w)) < 512 \<Longrightarrow> confined sg_key (nvs w) (nvs (snd (run_sg h p w)))"
proof (induction p arbitrary: w)
  case (RandomBytes n k)
  obtain bs p where r: "esp_fill_random n (plat w) = (bs, p)" by fastforce
  from RandomBytes.IH [OF rangeI, of "w\<lparr>plat := p\<rparr>" bs] RandomBytes.prems show ?case by (simp add: r)
qed (auto intro!: on_nvs_confined)

text \<open>A library program that saves no identity under the fold of \<open>a\<close>.\<close>

primrec spares_identity :: "bytes \<Rightarrow> 'a sg_prog \<Rightarrow> bool" where
  "spares_identity a (Return x) = True"
| "spares_identity a (LoadSession b k) = (\<forall>r. spares_identity a (k r))"
| "spares_identity a (GetSubDeviceSessions b k) = (\<forall>r. spares_identity a (k r))"
| "spares_identity a (StoreSession b d k) = (\<forall>r. spares_identity a (k r))"
| "spares_identity a (ContainsSession b k) = (\<forall>r. spares_identity a (k r))"
| "spares_identity a (DeleteSession b k) = (\<forall>r. spares_identity a (k r))"
| "spares_identity a (DeleteAllSessions b k) = (\<forall>r. spares_identity a (k r))"
| "spares_identity a (LoadPreKey i k) = (\<forall>r. spares_identity a (k r))"
| "spares_identity a (StorePreKey i d k) = (\<forall>r. spares_identity a (k r))"
| "spares_identity a (ContainsPreKey i k) = (\<forall>r. spares_identity a (k r))"
| "spares_identity a (RemovePreKey i k) = (\<forall>r. spares_identity a (k r))"
| "spares_identity a (LoadSignedPreKey i k) = (\<forall>r. spares_identity a (k r))"
| "spares_identity a (StoreSignedPreKey i d k) = (\<forall>r. spares_identity a (k r))"
| "spares_identity a (ContainsSignedPreKey i k) = (\<forall>r. spares_identity a (k r))"
| "spares_identity a (RemoveSignedPreKey i k) = (\<forall>r. spares_identity a (k r))"
| "spares_identity a (GetIdentityKeyPair k) = (\<forall>r. spares_identity a (k r))"
| "spares_identity a (GetLocalRegistrationId old k) = (\<forall>r. spares_identity a (k r))"
| "spares_identity a (SaveIdentity b d k) = (node_fold b \<noteq> node_fold a \<and> (\<forall>r. spares_identity a (k r)))"
| "spares_identity a (IsTrustedIdentity b d k) = (\<forall>r. spares_identity a (k r))"
| "spares_identity a (RandomBytes n k) = (\<forall>r. spares_identity a (k r))"

lemma run_sg_spares:
  "length (data_dir (nvs w)) < 512 \<Longrightarrow> spares_identity a p \<Longrightarrow>
    confined (\<lambda>k. k \<noteq> ik_key a) (nvs w) (nvs (snd (run_sg h p w)))"
proof (induction p arbitrary: w)
  case (RandomBytes n k)
  obtain bs p where r: "esp_fill_random n (plat w) = (bs, p)" by fastforce
  from RandomBytes.IH [OF rangeI, of "w\<lparr>plat := p\<rparr>" bs] RandomBytes.prems show ?case by (simp add: r)
qed (auto intro!: on_nvs_confined simp del: split_paired_All)

lemma run_sg_trust:
  assumes "length (data_dir (nvs w)) < 512" "spares_identity a p" "node_fold b = node_fold a"
  shows "is_trusted_identity h' b key (nvs (snd (run_sg h p w))) = is_trusted_identity h' b key (nvs w)"
proof -
  have "ik_key b = ik_key a" using assms(3) by simp
  with confined_reads [OF run_sg_spares [OF assms(1,2), of h] keys_ok(2)] show ?thesis
    by (simp add: is_trusted_identity_def Let_def cong: sum.case_cong)
qed

section \<open>Prekey numbers\<close>

text \<open>A library program that only draws random bytes.\<close>

primrec random_only :: "'a sg_prog \<Rightarrow> bool" where
  "random_only (Return x) = True"
| "random_only (LoadSession a k) = False"
| "random_only (GetSubDeviceSessions a k) = False"
| "random_only (StoreSession a r k) = False"
| "random_only (ContainsSession a k) = False"
| "random_only (DeleteSession a k) = False"
| "random_only (DeleteAllSessions a k) = False"
| "random_only (LoadPreKey i k) = False"
| "random_only (StorePreKey i r k) = False"
| "random_only (ContainsPreKey i k) = False"
| "random_only (RemovePreKey i k) = False"
| "random_only (LoadSignedPreKey i k) = False"
| "random_only (StoreSignedPreKey i r k) = False"
| "random_only (ContainsSignedPreKey i k) = False"
| "random_only (RemoveSignedPreKey i k) = False"
| "random_only (GetIdentityKeyPair k) = False"
| "random_only (GetLocalRegistrationId old k) = False"
| "random_only (SaveIdentity a d k) = False"
| "random_only (IsTrustedIdentity a d k) = False"
| "random_only (RandomBytes n k) = (\<forall>bs. random_only (k bs))"

lemma random_only_nvs [simp]: "random_only p \<Longrightarrow> nvs (snd (run_sg h p w)) = nvs w"
  by (induction p arbitrary: w) (auto simp: esp_fill_random_def)

text \<open>
  What libsignal documents of its key helper: it generates keys from random bytes and leaves the
  stores to the caller; a batch has the numbers \<open>start, start + 1, ...\<close> (prekey numbers are
  medium values: this holds below \<open>2 ^ 24 - 1\<close>, where they wrap); and its records are small.
\<close>

definition key_helper_documented :: "signal_lib \<Rightarrow> bool" where
  "key_helper_documented lib \<longleftrightarrow>
     (\<forall>s n. random_only (generate_pre_keys lib s n)) \<and> random_only (generate_identity_key_pair lib) \<and>
     random_only (generate_registration_id lib) \<and> (\<forall>kp i t. random_only (generate_signed_pre_key lib kp i t)) \<and>
     (\<forall>s n h w pks. fst (run_sg h (generate_pre_keys lib s n) w) = Some pks \<and> unat s + n < 2 ^ 24 - 1 \<longrightarrow>
        map fst pks = map (\<lambda>i. s + of_nat i) [0..<n] \<and> (\<forall>pk \<in> set pks. length (snd pk) \<le> NVS_MAX_LEN)) \<and>
     (\<forall>h w pub priv. fst (run_sg h (generate_identity_key_pair lib) w) = Some (pub, priv) \<longrightarrow>
        length pub \<le> NVS_MAX_LEN \<and> length priv \<le> NVS_MAX_LEN) \<and>
     (\<forall>h w kp i t. length (fst (run_sg h (generate_signed_pre_key lib kp i t) w)) \<le> NVS_MAX_LEN)"

lemma store_batch_healthy:
  assumes "fs_healthy fs" "\<forall>pk \<in> set pks. length (snd pk) \<le> NVS_MAX_LEN"
  shows "fs_healthy (store_batch pks fs)"
    "nvs_key_ok k \<Longrightarrow> k \<notin> pk_key ` fst ` set pks \<Longrightarrow> nvs_read k (store_batch pks fs) = nvs_read k fs"
    "i \<in> fst ` set pks \<Longrightarrow> \<exists>r. nvs_read (pk_key i) (store_batch pks fs) = Inr r"
proof -
  have "fs_healthy (store_batch pks fs) \<and>
      (\<forall>k. nvs_key_ok k \<and> k \<notin> pk_key ` fst ` set pks \<longrightarrow> nvs_read k (store_batch pks fs) = nvs_read k fs) \<and>
      (\<forall>i. i \<in> fst ` set pks \<or> (\<exists>r. nvs_read (pk_key i) fs = Inr r) \<longrightarrow>
         (\<exists>r. nvs_read (pk_key i) (store_batch pks fs) = Inr r))"
    using assms
  proof (induction pks fs rule: store_batch.induct)
    case (2 j r pks fs)
    have r: "length r \<le> NVS_MAX_LEN" using "2.prems"(2) by simp
    let ?fs = "snd (nvs_set_blob NVS_HANDLE (pk_key j) r fs)"
    have ok: "fs_healthy ?fs" by (rule shim.put_keeps [OF "2.prems"(1) keys_ok(3) r])
    have rd: "nvs_read k ?fs = (if k = pk_key j then Inr r else nvs_read k fs)" if "nvs_key_ok k" for k
      by (rule shim.get_put [OF "2.prems"(1) keys_ok(3) r that])
    have "\<forall>pk \<in> set pks. length (snd pk) \<le> NVS_MAX_LEN" using "2.prems"(2) by simp
    from "2.IH" [OF ok this] show ?case by (auto simp: rd)
  qed simp
  then show "fs_healthy (store_batch pks fs)"
    "nvs_key_ok k \<Longrightarrow> k \<notin> pk_key ` fst ` set pks \<Longrightarrow> nvs_read k (store_batch pks fs) = nvs_read k fs"
    "i \<in> fst ` set pks \<Longrightarrow> \<exists>r. nvs_read (pk_key i) (store_batch pks fs) = Inr r" by blast+
qed

lemma nvs_set_u32_healthy:
  assumes "fs_healthy fs" "nvs_key_ok k"
  shows "fs_healthy (snd (nvs_set_u32 NVS_HANDLE k v fs))"
    "nvs_key_ok k' \<Longrightarrow> nvs_read k' (snd (nvs_set_u32 NVS_HANDLE k v fs)) = (if k' = k then Inr (le32 v) else nvs_read k' fs)"
    "nvs_key_ok k' \<Longrightarrow> nvs_get_u32 NVS_HANDLE k' old (snd (nvs_set_u32 NVS_HANDLE k v fs)) =
      (if k' = k then (ESP_OK, v) else nvs_get_u32 NVS_HANDLE k' old fs)"
proof -
  have v: "length (le32 v) \<le> NVS_MAX_LEN" by (simp add: NVS_MAX_LEN_def)
  show "fs_healthy (snd (nvs_set_u32 NVS_HANDLE k v fs))"
    using shim.put_keeps [OF assms v] by (simp add: nvs_set_u32_def)
  show "nvs_key_ok k' \<Longrightarrow> nvs_read k' (snd (nvs_set_u32 NVS_HANDLE k v fs)) = (if k' = k then Inr (le32 v) else nvs_read k' fs)"
    using shim.get_put [OF assms v] by (simp add: nvs_set_u32_def)
  show "nvs_key_ok k' \<Longrightarrow> nvs_get_u32 NVS_HANDLE k' old (snd (nvs_set_u32 NVS_HANDLE k v fs)) =
      (if k' = k then (ESP_OK, v) else nvs_get_u32 NVS_HANDLE k' old fs)"
    by (rule nvs_u32_roundtrip [OF assms])
qed

text \<open>One batch on a healthy file system.\<close>

lemma batch_healthy:
  assumes "key_helper_documented lib" "fs_healthy (nvs w)" "unat s + n < 2 ^ 24 - 1"
    and "generate_pre_key_batch lib h s n w = (ESP_OK, w')"
  shows "fs_healthy (nvs w')" "next_pre_key_id (nvs w') = s + of_nat n"
    "j < n \<Longrightarrow> \<exists>r. nvs_read (pk_key (s + of_nat j)) (nvs w') = Inr r"
    "nvs_key_ok k \<Longrightarrow> k \<noteq> ''next_pk_id'' \<Longrightarrow> (\<And>j. j < n \<Longrightarrow> k \<noteq> pk_key (s + of_nat j)) \<Longrightarrow> nvs_read k (nvs w') = nvs_read k (nvs w)"
proof -
  obtain pks w1 where r: "run_sg h (generate_pre_keys lib s n) w = (Some pks, w1)"
    using assms(4) by (auto simp: generate_pre_key_batch_def split: prod.splits option.splits)
  have "random_only (generate_pre_keys lib s n)" using assms(1) by (simp add: key_helper_documented_def)
  from random_only_nvs [OF this, of h w] have w1: "nvs w1 = nvs w" by (simp add: r)
  have "fst (run_sg h (generate_pre_keys lib s n) w) = Some pks" by (simp add: r)
  with assms(1,3) have ids: "map fst pks = map (\<lambda>i. s + of_nat i) [0..<n]"
    and len: "\<forall>pk \<in> set pks. length (snd pk) \<le> NVS_MAX_LEN"
    unfolding key_helper_documented_def by blast+
  from arg_cong [OF ids, of set] have idset: "fst ` set pks = (\<lambda>i. s + of_nat i) ` {0..<n}" by simp
  let ?b = "store_batch pks (nvs w)"
  note b = store_batch_healthy [OF assms(2) len]
  have w': "nvs w' = snd (nvs_set_u32 NVS_HANDLE ''next_pk_id'' (s + of_nat n) ?b)"
    using assms(4) by (auto simp: generate_pre_key_batch_def r w1 Let_def nvs_commit_def)
  note u = nvs_set_u32_healthy [OF b(1) keys_ok(8)]
  show "fs_healthy (nvs w')" unfolding w' by (rule u(1))
  show "next_pre_key_id (nvs w') = s + of_nat n" unfolding w' by (simp add: next_pre_key_id_def u(3))
  show "\<exists>r. nvs_read (pk_key (s + of_nat j)) (nvs w') = Inr r" if "j < n"
    unfolding w' using b(3) [where i = "s + of_nat j"] that by (simp add: u(2) idset)
  show "nvs_read k (nvs w') = nvs_read k (nvs w)"
    if "nvs_key_ok k" "k \<noteq> ''next_pk_id''" "\<And>j. j < n \<Longrightarrow> k \<noteq> pk_key (s + of_nat j)"
  proof -
    have "k \<notin> pk_key ` fst ` set pks" unfolding idset using that(3) by (fastforce simp del: num_keys_eq)
    from b(2) [OF that(1) this] that(1,2) show ?thesis unfolding w' by (simp add: u(2))
  qed
qed

section \<open>The search for a prekey\<close>

lemma find_loop_upto:
  assumes "highest < - 1"
  shows "\<exists>r. find_loop attempt i highest = Some r \<and>
    (case r of Some (j, pub) \<Rightarrow> i \<le> j \<and> j \<le> highest \<and> attempt j = Some pub \<and> (\<forall>k. i \<le> k \<and> k < j \<longrightarrow> attempt k = None)
     | None \<Rightarrow> \<forall>k. i \<le> k \<and> k \<le> highest \<longrightarrow> attempt k = None)"
proof (induction "unat highest + 1 - unat i" arbitrary: i)
  case 0
  then have "unat highest < unat i" by simp
  then have "\<not> i \<le> highest" by (simp add: word_le_nat_alt)
  then show ?case by (auto simp: find_loop.simps [of _ i])
next
  case (Suc d)
  then have le: "i \<le> highest" by (simp add: word_le_nat_alt)
  with assms have "i < - 1" by simp
  then have "unat i < 2 ^ 32 - 1" by (simp add: word_less_nat_alt unsigned_minus_1_eq_mask mask_eq_exp_minus_1)
  then have si: "unat (i + 1) = unat i + 1" by (simp add: unat_word_ariths)
  show ?case
  proof (cases "attempt i")
    case (Some pub)
    then show ?thesis using le by (auto simp: find_loop.simps [of _ i])
  next
    case None
    have "d = unat highest + 1 - unat (i + 1)" using Suc.hyps(2) si by simp
    from Suc.hyps(1) [OF this] obtain r where r: "find_loop attempt (i + 1) highest = Some r"
      and c: "case r of Some (j, pub) \<Rightarrow> i + 1 \<le> j \<and> j \<le> highest \<and> attempt j = Some pub \<and> (\<forall>k. i + 1 \<le> k \<and> k < j \<longrightarrow> attempt k = None)
       | None \<Rightarrow> \<forall>k. i + 1 \<le> k \<and> k \<le> highest \<longrightarrow> attempt k = None" by blast
    have step: "i \<le> k \<longleftrightarrow> k = i \<or> i + 1 \<le> k" for k
      using si by (auto simp: word_le_nat_alt word_unat_eq_iff)
    show ?thesis
      using le None c by (auto simp: find_loop.simps [of _ i] r step split: option.splits)
  qed
qed

section \<open>What a batch reaches\<close>

definition batch_key :: "string \<Rightarrow> bool" where
  "batch_key k \<longleftrightarrow> sg_key k \<or> k = ''next_pk_id''"

lemma confined_mono: "confined K fs fs' \<Longrightarrow> (\<And>k. K k \<Longrightarrow> K' k) \<Longrightarrow> confined K' fs fs'"
  by (auto simp: confined_def)

lemma store_batch_confined:
  "length (data_dir fs) < 512 \<Longrightarrow> confined batch_key fs (store_batch pks fs)"
proof (induction pks fs rule: store_batch.induct)
  case (2 i r pks fs)
  let ?fs = "snd (nvs_set_blob NVS_HANDLE (pk_key i) r fs)"
  have c: "confined batch_key fs ?fs" using "2.prems" by (simp add: batch_key_def)
  with "2.prems" have "length (data_dir ?fs) < 512" by (simp add: confined_fields(1) [OF c])
  from confined_trans [OF c "2.IH" [OF this]] show ?case by simp
qed simp

lemma batch_confined:
  assumes "length (data_dir (nvs w)) < 512"
  shows "confined batch_key (nvs w) (nvs (snd (generate_pre_key_batch lib h s n w)))"
proof -
  obtain o1 w1 where r: "run_sg h (generate_pre_keys lib s n) w = (o1, w1)" by fastforce
  have c1: "confined batch_key (nvs w) (nvs w1)"
    using confined_mono [OF run_sg_confined [OF assms, of h "generate_pre_keys lib s n"], of batch_key]
    by (simp add: r batch_key_def)
  have c2: "confined batch_key (nvs w) (snd (nvs_set_u32 NVS_HANDLE ''next_pk_id'' v (store_batch pks (nvs w1))))" for v pks
  proof -
    have d1: "length (data_dir (nvs w1)) < 512" using assms by (simp add: confined_fields(1) [OF c1])
    note c = confined_trans [OF c1 store_batch_confined [OF d1]]
    have "length (data_dir (store_batch pks (nvs w1))) < 512" using assms by (simp add: confined_fields(1) [OF c])
    then show ?thesis using confined_trans [OF c confined_set] by (simp add: nvs_set_u32_def batch_key_def)
  qed
  show ?thesis
    by (cases o1) (simp_all add: generate_pre_key_batch_def r c1 c2 Let_def nvs_commit_def)
qed

section \<open>A small library\<close>

text \<open>A library for concrete runs: keys and records are short byte strings, a session is one byte,
  encryption flips bits.\<close>

definition toy_signal :: signal_lib where
  "toy_signal = \<lparr>lock_created = True, context_created = True, store_context_created = True, store_set_ok = (\<lambda>_. True),
     generate_pre_keys = (\<lambda>s n. Return (Some (map (\<lambda>i. (s + of_nat i, [5, of_nat i])) [0..<n]))),
     generate_identity_key_pair = RandomBytes 2 (\<lambda>bs. Return (Some (5 # bs, bs))),
     generate_registration_id = Return 4242,
     generate_signed_pre_key = (\<lambda>kp i t. Return [6, 6]),
     pre_key_public = (\<lambda>r. Some r), signed_pre_key_parts = (\<lambda>r. Some (1, r, [8])),
     curve_decode_point = (\<lambda>d. if d = [] then None else Some d), bundle_create_ok = (\<lambda>_. True),
     session_builder_create_ok = (\<lambda>_. True),
     process_pre_key_bundle = (\<lambda>peer b. StoreSession peer [7] (\<lambda>c. Return (c = SG_SUCCESS))),
     session_contains = (\<lambda>peer. ContainsSession peer (\<lambda>b. Return (if b then 1 else 0))),
     session_cipher_create_ok = (\<lambda>_. True),
     session_cipher_encrypt = (\<lambda>peer pt. LoadSession peer (\<lambda>r. case r of Inr (Some s) \<Rightarrow>
        Return (Some (2, map (xor 0x55) pt)) | _ \<Rightarrow> Return None)),
     ciphertext_prekey_type = 3, ciphertext_signal_type = 2,
     pre_key_message_ok = (\<lambda>_. True), decrypt_pre_key_message = (\<lambda>peer ct. Return (Some (map (xor 0x55) ct))),
     signal_message_ok = (\<lambda>_. True), decrypt_signal_message = (\<lambda>peer ct. Return (Some (map (xor 0x55) ct)))\<rparr>"

definition toy_platform :: platform where
  "toy_platform = \<lparr>timer = (\<lambda>n. int n * 1000000), timer_reads = 0, rng = (\<lambda>n. of_nat n), rng_drawn = 0\<rparr>"

definition toy_crypto :: crypto where
  "toy_crypto = \<lparr>nvs = host_fs_empty, plat = toy_platform\<rparr>"

lemma toy_documented [simp]: "key_helper_documented toy_signal"
  by (auto simp: key_helper_documented_def toy_signal_def NVS_MAX_LEN_def esp_fill_random_def comp_def)

lemma toy_crypto_simps [simp]: "nvs toy_crypto = host_fs_empty" "plat toy_crypto = toy_platform"
  by (simp_all add: toy_crypto_def)

lemma data_dir_empty [simp]: "length (data_dir host_fs_empty) < 512"
  by (simp add: host_fs_empty_def)

lemma u32_empty [simp]: "nvs_get_u32 NVS_HANDLE k old host_fs_empty = (ESP_ERR_NOT_FOUND, old)"
  by (simp add: nvs_get_u32_def nvs_get_blob_healthy blob_at_empty)

lemma next_empty [simp]: "next_pre_key_id host_fs_empty = 21"
  by (simp add: next_pre_key_id_def PRE_KEY_BATCH_SIZE_def)

section \<open>Properties\<close>

text \<open>Property C19: whatever libsignal does, through however many store callbacks, it cannot touch
  the node's own identity, its registration number or the counter of prekeys: the callbacks only
  reach session, peer identity, prekey and signed prekey records, and no such record shares a
  name with these.\<close>
theorem libsignal_confined:
  assumes "length (data_dir (nvs w)) < 512"
  shows "next_pre_key_id (nvs (snd (run_sg h p w))) = next_pre_key_id (nvs w) \<and>
    (\<forall>k \<in> {''id_pub'', ''id_priv'', ''reg_id'', ''next_pk_id''}.
       nvs_read k (nvs (snd (run_sg h p w))) = nvs_read k (nvs w)) \<and>
    get_identity_key_pair h (nvs (snd (run_sg h p w))) = get_identity_key_pair h (nvs w) \<and>
    get_local_registration_id old (nvs (snd (run_sg h p w))) = get_local_registration_id old (nvs w)"
proof -
  note c = confined_reads [OF run_sg_confined [OF assms, of h p]]
  have "nvs_read k (nvs (snd (run_sg h p w))) = nvs_read k (nvs w)"
    if "k \<in> {''id_pub'', ''id_priv'', ''reg_id'', ''next_pk_id''}" for k
    using that by (auto simp: c)
  then show ?thesis
    by (simp add: next_pre_key_id_def get_identity_key_pair_def get_local_registration_id_def c Let_def cong: sum.case_cong if_cong)
qed

theorem libsignal_confined_witness:
  "next_pre_key_id (nvs (snd (run_sg ample (StorePreKey 7 [1] Return) toy_crypto))) = 21"
  using libsignal_confined [of toy_crypto ample "StorePreKey 7 [1] Return"] by simp

text \<open>Property C21: trust on first use, as far as the store goes. On a healthy file system a peer
  without a saved identity is trusted with any key. Once a key is saved for it, then after whatever
  the library does through the callbacks, as long as it does not save an identity for the same fold
  of the node ID again, exactly that key is trusted, for every node with that fold. Saving again
  replaces it (nothing in the store refuses that), erasing it trusts every key again, and peers with
  another fold are not affected. When the memory for the comparison is refused, a known peer is
  not trusted.\<close>
theorem trust_on_first_use:
  assumes "fs_healthy (nvs w)" and "heap_ok h" and "length d \<le> NVS_MAX_LEN" and "length d' \<le> NVS_MAX_LEN"
    and "spares_identity a p" and "node_fold a' = node_fold a"
  shows "(nvs_read (ik_key a) (nvs w) = Inl ESP_ERR_NOT_FOUND \<longrightarrow> is_trusted_identity h a key (nvs w)) \<and>
    (let w1 = w\<lparr>nvs := snd (save_identity a (Some d) (nvs w))\<rparr>;
         w2 = snd (run_sg h p w1)
     in (is_trusted_identity h a' key (nvs w2) \<longleftrightarrow> key = d) \<and>
        (is_trusted_identity h a key (snd (save_identity a' (Some d') (nvs w1))) \<longleftrightarrow> key = d') \<and>
        is_trusted_identity h a key (snd (save_identity a' None (nvs w1))) \<and>
        (node_fold b \<noteq> node_fold a \<longrightarrow> is_trusted_identity h b key (nvs w1) = is_trusted_identity h b key (nvs w)) \<and>
        \<not> is_trusted_identity (h\<lparr>malloc_ok := \<lambda>_ _. False\<rparr>) a key (nvs w1))"
proof -
  let ?w1 = "w\<lparr>nvs := snd (save_identity a (Some d) (nvs w))\<rparr>"
  note t = trusted_after_save [OF assms(1-3)]
  have ok: "fs_healthy (nvs ?w1)" using t(3) [of a] by simp
  note t' = trusted_after_save [OF ok assms(2,4)]
  have "length (data_dir (nvs ?w1)) < 512" by (rule fs_healthyD(8) [OF ok])
  from run_sg_trust [OF this assms(5,6), of h key h] t(1) [of a' key a] assms(6)
  have "is_trusted_identity h a' key (nvs (snd (run_sg h p ?w1))) \<longleftrightarrow> key = d" by simp
  moreover have "is_trusted_identity h a key (snd (save_identity a' (Some d') (nvs ?w1))) \<longleftrightarrow> key = d'"
    "is_trusted_identity h a key (snd (save_identity a' None (nvs ?w1)))"
    using t'(1) [of a key a'] t'(2) [of a key a'] assms(6) by auto
  moreover have "nvs_read (ik_key a) (nvs w) = Inl ESP_ERR_NOT_FOUND \<longrightarrow> is_trusted_identity h a key (nvs w)"
    by (simp add: is_trusted_healthy [OF assms(1,2)])
  ultimately show ?thesis using t(1) [of b key a] t(4) [of a key] by (simp add: Let_def del: snd_save_identity)
qed

text \<open>After the first key of a peer, the library trusts no other, also not after it has stored a
  session and the identity of somebody else.\<close>

theorem trust_on_first_use_witness:
  "\<not> is_trusted_identity ample [1, 2, 3, 4, 5, 6, 7, 8] [66]
     (nvs (snd (run_sg ample (StoreSession [1, 2, 3, 4, 5, 6, 7, 8] [9] (\<lambda>_. SaveIdentity [1, 1, 1, 1, 2, 2, 2, 2] (Some [66]) Return))
       (toy_crypto\<lparr>nvs := snd (save_identity [1, 2, 3, 4, 5, 6, 7, 8] (Some [65]) (nvs toy_crypto))\<rparr>))))"
proof -
  let ?p = "StoreSession [1, 2, 3, 4, 5, 6, 7, 8] [9] (\<lambda>_. SaveIdentity [1, 1, 1, 1, 2, 2, 2, 2] (Some [66]) Return)"
  have "fs_healthy (nvs toy_crypto)" "length [65 :: byte] \<le> NVS_MAX_LEN" by (simp_all add: NVS_MAX_LEN_def)
  moreover have "spares_identity [1, 2, 3, 4, 5, 6, 7, 8] ?p" by (simp add: node_fold_def upt_0_4)
  ultimately show ?thesis
    using trust_on_first_use [where w = toy_crypto and h = ample and d = "[65]" and d' = "[65]" and p = ?p
        and a = "[1, 2, 3, 4, 5, 6, 7, 8]" and a' = "[1, 2, 3, 4, 5, 6, 7, 8]" and key = "[66]" and b = "[]"]
    by (simp add: Let_def)
qed

text \<open>One batch generated at the counter (as \<open>pcrypto_local_bundle\<close> does when the pool is used up)
  advances the counter by its size, stores one record for each of its numbers, and leaves every
  record with a smaller number, and every other record, as it was.\<close>
theorem prekey_numbers_fresh:
  assumes "key_helper_documented lib" and "fs_healthy (nvs w)" and "unat (next_pre_key_id (nvs w)) + n < 2 ^ 24 - 1"
    and "generate_pre_key_batch lib h (next_pre_key_id (nvs w)) n w = (ESP_OK, w')"
  shows "unat (next_pre_key_id (nvs w')) = unat (next_pre_key_id (nvs w)) + n \<and>
    (\<forall>i. next_pre_key_id (nvs w) \<le> i \<and> i < next_pre_key_id (nvs w') \<longrightarrow> contains_pre_key i (nvs w')) \<and>
    (\<forall>i. i < next_pre_key_id (nvs w) \<longrightarrow> nvs_read (pk_key i) (nvs w') = nvs_read (pk_key i) (nvs w)) \<and>
    (\<forall>a. contains_session_func a (nvs w') = contains_session_func a (nvs w)) \<and> fs_healthy (nvs w')"
proof -
  define s where "s = next_pre_key_id (nvs w)"
  note b = batch_healthy [OF assms, folded s_def]
  have bound: "unat s + n < 2 ^ 32" using assms(3) by (simp add: s_def)
  have add: "unat (s + of_nat j) = unat s + j" if "j \<le> n" for j
    using bound that by (simp add: unat_word_ariths unat_of_nat take_bit_eq_mod)
  have "contains_pre_key i (nvs w')" if "s \<le> i" "i < next_pre_key_id (nvs w')" for i
  proof -
    define j where "j = unat i - unat s"
    have "unat s \<le> unat i" "unat i < unat s + n"
      using that b(2) add [of n] by (simp_all add: word_le_nat_alt word_less_nat_alt)
    then have j: "j < n" "i = s + of_nat j"
      using add [of j] by (auto simp: j_def word_unat_eq_iff)
    from b(3) [OF j(1)] show ?thesis by (auto simp: contains_healthy(2) [OF b(1)] j(2))
  qed
  moreover have "nvs_read (pk_key i) (nvs w') = nvs_read (pk_key i) (nvs w)" if "i < s" for i
  proof (rule b(4))
    show "pk_key i \<noteq> pk_key (s + of_nat j)" if "j < n" for j
      using \<open>i < s\<close> add [of j] that by (auto simp: word_less_nat_alt)
  qed simp_all
  moreover have "contains_session_func a (nvs w') = contains_session_func a (nvs w)" for a
    using b(4) [of "ss_key a"] by (simp add: contains_healthy b(1) assms(2))
  ultimately show ?thesis
    using b(1,2) add [of n] by (simp add: s_def)
qed

theorem prekey_numbers_fresh_witness:
  "unat (next_pre_key_id (nvs (snd (generate_pre_key_batch toy_signal ample 21 20 toy_crypto)))) = 41"
proof -
  have "generate_pre_key_batch toy_signal ample 21 20 toy_crypto =
      (ESP_OK, snd (generate_pre_key_batch toy_signal ample 21 20 toy_crypto))"
    by (simp add: generate_pre_key_batch_def toy_signal_def Let_def)
  with prekey_numbers_fresh [OF toy_documented, of toy_crypto 20 ample] show ?thesis by simp
qed

end
