(* ===== verification/Routing.thy ===== *)
theory Routing
  imports Mesh Sessions
begin

text \<open>
  What a node does with the frames it receives and sends (on the definitions of \<open>Mesh\<close>): the
  node's invariant, relaying, dropping, the key exchange, and sending.
\<close>

section \<open>The invariant of a node\<close>

definition node_ok :: "node \<Rightarrow> bool" where
  "node_ok n \<longleftrightarrow> length (s_local_id n) = PKT_NODE_ID_LEN \<and> rate_ok (s_rate_table n) \<and>
     presence_ok (s_table (presence_st n)) \<and> dedup_ok (dedup_st n) \<and>
     (\<forall>(pt, src) \<in> set (delivered n). length pt \<le> PKT_MAX_PAYLOAD \<and> length src = PKT_NODE_ID_LEN \<and> src \<noteq> s_local_id n)"

text \<open>The fields of a node that the crypto layer, the platform and the radio do not touch.\<close>

definition same_tables :: "node \<Rightarrow> node \<Rightarrow> bool" where
  "same_tables n n' \<longleftrightarrow> s_local_id n' = s_local_id n \<and> s_rx_cb n' = s_rx_cb n \<and> delivered n' = delivered n \<and>
     s_rate_table n' = s_rate_table n \<and> dedup_st n' = dedup_st n \<and> presence_st n' = presence_st n"

lemma same_tables_refl [simp]: "same_tables n n"
  by (simp add: same_tables_def)

lemma same_tables_trans: "same_tables a b \<Longrightarrow> same_tables b c \<Longrightarrow> same_tables a c"
  by (simp add: same_tables_def)

lemma same_tables_ok: "same_tables n n' \<Longrightarrow> node_ok n \<Longrightarrow> node_ok n'"
  by (simp add: same_tables_def node_ok_def)

lemma same_tables_simps [simp]:
  "same_tables n (n'\<lparr>cry := c\<rparr>) = same_tables n n'" "same_tables n (n'\<lparr>rad := r\<rparr>) = same_tables n n'"
  "same_tables n (snd (node_time n)) = True" "same_tables n (snd (node_random k n)) = True"
  "same_tables n (snd (new_hdr ty hops dst n)) = True" "same_tables n (snd (radio_send w n)) = True"
  by (simp_all add: same_tables_def)

lemma key_bundle_frame_tables: "same_tables n (send_key_bundle_frame dst st extra n)"
  by (auto simp: send_key_bundle_frame_def case_prod_beta Let_def same_tables_def split: option.splits)

lemma forward_tables: "same_tables n (forward hdr p n)"
  by (auto simp: forward_def Let_def same_tables_def split: option.splits)

lemma handle_key_bundle_tables:
  assumes "handle_key_bundle lib h hdr p n = Some n'"
  shows "same_tables n n'"
proof -
  have "same_tables n (n\<lparr>cry := c\<rparr>)" for c by simp
  from same_tables_trans [OF this key_bundle_frame_tables] assms show ?thesis
    by (auto simp: handle_key_bundle_def send_key_bundle_response_def Let_def
      split: if_splits option.splits prod.splits sum.splits)
qed

lemma presence_st_touch [simp]: "s_table (presence_touch a now p) = presence_touch_table a now (s_table p)"
  by (simp add: presence_touch_def)

lemma rate_limited_ok: "rate_ok tbl \<Longrightarrow> rate_ok (snd (rate_limited a now tbl))"
  using rate.touch_ok [of tbl a now] by (simp add: rate_step_def)

lemma node_ok_fields [intro]:
  "node_ok n \<Longrightarrow> rate_ok t \<Longrightarrow> node_ok (n\<lparr>s_rate_table := t\<rparr>)"
  "node_ok n \<Longrightarrow> presence_ok (s_table p) \<Longrightarrow> node_ok (n\<lparr>presence_st := p\<rparr>)"
  "node_ok n \<Longrightarrow> dedup_ok d \<Longrightarrow> node_ok (n\<lparr>dedup_st := d\<rparr>)"
  by (auto simp: node_ok_def)

lemma pcrypto_decrypt_cap:
  "pcrypto_decrypt lib h peer ct cap w = (Inr pt, w') \<Longrightarrow> length pt \<le> cap"
  by (auto simp: pcrypto_decrypt_def Let_def split: list.splits if_splits prod.splits option.splits)

lemma deliver_local_ok:
  assumes "node_ok n" "wf_hdr hdr" "src_id hdr \<noteq> s_local_id n"
  shows "node_ok (deliver_local lib h hdr p n)"
proof (cases "dst_id hdr = s_local_id n \<and> pkt_type hdr = PKT_TYPE_DATA \<and> s_rx_cb n")
  case True
  obtain r c where d: "pcrypto_decrypt lib h (src_id hdr) (take (unat (payload_len hdr)) p) PKT_MAX_PAYLOAD (cry n) = (r, c)"
    by fastforce
  with assms True pcrypto_decrypt_cap [of lib h "src_id hdr" _ PKT_MAX_PAYLOAD "cry n" _ c] show ?thesis
    by (cases r) (auto simp: deliver_local_def node_ok_def wf_hdr_def)
next
  case False
  then have "deliver_local lib h hdr p n = n" by (auto simp: deliver_local_def)
  with assms show ?thesis by simp
qed

section \<open>Stages of reception\<close>

text \<open>The node after the rate limiter has been asked, and after the presence table is updated.\<close>

definition after_limiter :: "pkt_hdr \<Rightarrow> node \<Rightarrow> node" where
  "after_limiter hdr n = (snd (node_time n))\<lparr>s_rate_table := snd (rate_limited (src_id hdr) (fst (node_time n)) (s_rate_table n))\<rparr>"

definition after_presence :: "pkt_hdr \<Rightarrow> node \<Rightarrow> node" where
  "after_presence hdr n =
     (snd (node_time n))\<lparr>presence_st := presence_touch (src_id hdr) (fst (node_time n)) (presence_st n)\<rparr>"

definition limited_now :: "pkt_hdr \<Rightarrow> node \<Rightarrow> bool" where
  "limited_now hdr n \<longleftrightarrow> fst (rate_limited (src_id hdr) (fst (node_time n)) (s_rate_table n))"

lemma on_radio_rx_stages:
  "on_radio_rx lib h buf n =
     (case pkt_decode buf of
        None \<Rightarrow> Some n
      | Some (hdr, payload) \<Rightarrow>
          if src_id hdr = s_local_id n then Some n
          else if limited_now hdr n then Some (after_limiter hdr n)
          else let m = after_presence hdr (after_limiter hdr n) in
            if pkt_type hdr = PKT_TYPE_BEACON then Some m
            else if pkt_type hdr = PKT_TYPE_KEY_BUNDLE then handle_key_bundle lib h hdr payload m
            else if fst (dedup_check_and_mark (msg_id hdr) (dedup_st n))
            then Some (m\<lparr>dedup_st := snd (dedup_check_and_mark (msg_id hdr) (dedup_st n))\<rparr>)
            else Some (forward hdr payload (deliver_local lib h hdr payload
                   (m\<lparr>dedup_st := snd (dedup_check_and_mark (msg_id hdr) (dedup_st n))\<rparr>))))"
  by (simp add: on_radio_rx_def after_limiter_def after_presence_def limited_now_def case_prod_beta Let_def
    split: option.split)

lemma stage_fields [simp, frame_simps]:
  "s_local_id (after_limiter hdr n) = s_local_id n" "s_rx_cb (after_limiter hdr n) = s_rx_cb n"
  "delivered (after_limiter hdr n) = delivered n" "dedup_st (after_limiter hdr n) = dedup_st n"
  "presence_st (after_limiter hdr n) = presence_st n" "rad (after_limiter hdr n) = rad n"
  "nvs (cry (after_limiter hdr n)) = nvs (cry n)"
  "s_local_id (after_presence hdr n) = s_local_id n" "s_rx_cb (after_presence hdr n) = s_rx_cb n"
  "delivered (after_presence hdr n) = delivered n" "dedup_st (after_presence hdr n) = dedup_st n"
  "s_rate_table (after_presence hdr n) = s_rate_table n" "rad (after_presence hdr n) = rad n"
  "nvs (cry (after_presence hdr n)) = nvs (cry n)"
  by (simp_all add: after_limiter_def after_presence_def)

lemma stages_ok:
  assumes "node_ok n"
  shows "node_ok (after_limiter hdr n)" "node_ok (after_presence hdr n)"
  using assms
  by (auto simp: after_limiter_def after_presence_def node_ok_def presence.touch_ok rate_limited_ok)

lemma on_radio_rx_ok:
  assumes "node_ok n" "on_radio_rx lib h buf n = Some n'"
  shows "node_ok n'"
proof (cases "pkt_decode buf")
  case (Some hp)
  obtain hdr p where hp: "hp = (hdr, p)" by fastforce
  from Some hp have wf: "wf_hdr hdr" by (intro pkt_decode_wf) simp
  let ?m = "after_presence hdr (after_limiter hdr n)"
  have m: "node_ok ?m" by (intro stages_ok assms)
  show ?thesis
  proof (cases "src_id hdr = s_local_id n \<or> limited_now hdr n \<or> pkt_type hdr = PKT_TYPE_BEACON")
    case True
    with assms Some hp m stages_ok show ?thesis by (auto simp: on_radio_rx_stages split: if_splits)
  next
    case nd: False
    show ?thesis
    proof (cases "pkt_type hdr = PKT_TYPE_KEY_BUNDLE")
      case True
      with nd assms(2) Some hp have "handle_key_bundle lib h hdr p ?m = Some n'"
        by (auto simp: on_radio_rx_stages)
      from same_tables_ok [OF handle_key_bundle_tables [OF this] m] show ?thesis .
    next
      case False
      let ?m2 = "?m\<lparr>dedup_st := snd (dedup_check_and_mark (msg_id hdr) (dedup_st n))\<rparr>"
      have "dedup_ok (dedup_st n)" using assms(1) by (simp add: node_ok_def)
      then have m2: "node_ok ?m2" using m dedup.mark_ok by blast
      then have "node_ok (forward hdr p (deliver_local lib h hdr p ?m2))"
        using nd wf by (intro same_tables_ok [OF forward_tables] deliver_local_ok) auto
      with m2 nd False assms(2) Some hp show ?thesis
        by (auto simp: on_radio_rx_stages Let_def split: if_splits)
    qed
  qed
qed (use assms in \<open>simp add: on_radio_rx_def\<close>)

lemma send_beacon_ok: "node_ok n \<Longrightarrow> node_ok (send_beacon n)"
  by (auto simp: send_beacon_def case_prod_beta Let_def node_ok_def presence_beacon_reset_timer_def split: option.split)

lemma mesh_poll_ok: "node_ok n \<Longrightarrow> node_ok (mesh_poll n)"
  using same_tables_ok [of n "snd (node_time n)"] by (simp add: mesh_poll_def case_prod_beta send_beacon_ok)

lemma mesh_send_ok:
  assumes "node_ok n"
  shows "node_ok (snd (mesh_send lib h dst pt n))"
proof -
  have cry: "node_ok (m\<lparr>cry := c\<rparr>)" if "node_ok m" for m c
    using that by (simp add: node_ok_def)
  have req: "node_ok (send_key_bundle_request dst (n\<lparr>cry := c\<rparr>))" for c
    unfolding send_key_bundle_request_def
    by (rule same_tables_ok [OF key_bundle_frame_tables cry [OF assms]])
  have data: "node_ok (snd (radio_send w (m\<lparr>dedup_st := snd (dedup_check_and_mark i (dedup_st m))\<rparr>)))"
    "node_ok (m\<lparr>dedup_st := snd (dedup_check_and_mark i (dedup_st m))\<rparr>)" if "node_ok m" for m w i
    using that dedup.mark_ok by (auto simp: node_ok_def)
  have hdr: "node_ok (snd (new_hdr ty hops dst (m\<lparr>cry := c\<rparr>)))" if "node_ok m" for m c ty hops
    using that by (simp add: node_ok_def)
  show ?thesis
    using assms cry req data [OF hdr [OF assms]] hdr
    by (auto simp: mesh_send_def case_prod_beta Let_def split: sum.split option.split)
qed

lemma mesh_init_ok:
  assumes "length mac = 6" "delivered n = []"
  shows "node_ok (snd (mesh_init lib h mac n))"
  using assms
  by (simp add: mesh_init_def derive_local_id_def mac_node_id_def case_prod_beta Let_def node_ok_def PKT_NODE_ID_LEN_def)

section \<open>Relaying\<close>

text \<open>What a node puts on air for a received frame: the same frame with one hop less, cut to the
  announced payload, with the signature space zeroed.\<close>

definition relay_frame :: "bytes \<Rightarrow> bytes" where
  "relay_frame buf = (take (PKT_HDR_LEN + unat (buf ! 38)) buf)[33 := buf ! 33 - 1] @ replicate (sig_len (buf ! 0)) 0"

lemma hdr_bytes_ttl: "wf_hdr h \<Longrightarrow> hdr_bytes (h\<lparr>ttl := t\<rparr>) = (hdr_bytes h)[33 := t]"
  by (simp add: hdr_bytes_def wf_hdr_def pkt_consts list_update_append)

lemma decoded_fields:
  assumes "pkt_decode buf = Some (h, p)"
  shows "pkt_type h = buf ! 0" "ttl h = buf ! 33" "payload_len h = buf ! 38" "buf = hdr_bytes h @ p"
    "PKT_HDR_LEN + unat (payload_len h) + sig_len (pkt_type h) \<le> length buf"
proof -
  from assms have l: "PKT_HDR_LEN \<le> length buf" and h: "h = hdr_of_bytes (take PKT_HDR_LEN buf)"
    and p: "p = drop PKT_HDR_LEN buf"
    and fit: "PKT_HDR_LEN + unat (payload_len h) + sig_len (pkt_type h) \<le> length buf"
    by (auto simp: pkt_decode_Some_iff)
  have "hdr_bytes h = take PKT_HDR_LEN buf" unfolding h using l by (intro hdr_bytes_of_bytes) simp
  then show "buf = hdr_bytes h @ p" by (simp add: p)
  show "pkt_type h = buf ! 0" "ttl h = buf ! 33" "payload_len h = buf ! 38"
    by (simp_all add: h hdr_of_bytes_def PKT_HDR_LEN_39)
qed (use assms in \<open>auto simp: pkt_decode_Some_iff\<close>)

lemma relay_encode:
  assumes "pkt_decode buf = Some (h, p)" "length buf \<le> 255"
  shows "pkt_encode PKT_MAX_WIRE_LEN (h\<lparr>ttl := ttl h - 1\<rparr>) p (payload_len h) = Some (relay_frame buf)"
    "length (relay_frame buf) \<le> 255"
proof -
  note d = decoded_fields [OF assms(1)]
  have wf: "wf_hdr h" by (rule pkt_decode_wf [OF assms(1)])
  have l: "length (hdr_bytes h) = 39" using wf by (simp add: len_simps PKT_HDR_LEN_39)
  have pl: "39 + unat (payload_len h) + sig_len (pkt_type h) \<le> length buf"
    using d(5) by (simp add: PKT_HDR_LEN_39)
  have same: "h\<lparr>ttl := t, payload_len := payload_len h\<rparr> = h\<lparr>ttl := t\<rparr>" for t by simp
  have "relay_frame buf = (take (39 + unat (payload_len h)) (hdr_bytes h @ p))[33 := ttl h - 1] @ replicate (sig_len (pkt_type h)) 0"
    unfolding relay_frame_def PKT_HDR_LEN_39 using d(1-4) by simp
  also have "take (39 + unat (payload_len h)) (hdr_bytes h @ p) = hdr_bytes h @ take (unat (payload_len h)) p"
    using l by simp
  also have "(hdr_bytes h @ take (unat (payload_len h)) p)[33 := ttl h - 1] =
      (hdr_bytes h)[33 := ttl h - 1] @ take (unat (payload_len h)) p"
    using l by (simp add: list_update_append)
  finally have r: "relay_frame buf = (hdr_bytes h)[33 := ttl h - 1] @ take (unat (payload_len h)) p @ replicate (sig_len (pkt_type h)) 0"
    by simp
  then show "length (relay_frame buf) \<le> 255"
    using l pl assms(2) by simp
  show "pkt_encode PKT_MAX_WIRE_LEN (h\<lparr>ttl := ttl h - 1\<rparr>) p (payload_len h) = Some (relay_frame buf)"
    using pl assms(2) wf by (simp add: pkt_encode_Some_iff pkt_lens same hdr_bytes_ttl r)
qed

lemma forward_relays:
  assumes "pkt_decode buf = Some (h, p)" "length buf \<le> 255"
  shows "forward h p n = (if ttl h > 1 then snd (radio_send (relay_frame buf) n) else n)"
  by (simp add: forward_def relay_encode [OF assms])

lemma relay_frame_decodes:
  assumes "pkt_decode buf = Some (h, p)" "length buf \<le> 255"
  shows "pkt_decode (relay_frame buf) =
    Some (h\<lparr>ttl := ttl h - 1\<rparr>, take (unat (payload_len h)) p @ replicate (sig_len (pkt_type h)) 0)"
proof -
  have wf: "wf_hdr h" by (rule pkt_decode_wf [OF assms(1)])
  note relay_encode(1) [OF assms]
  moreover have "unat (payload_len h) \<le> length p"
    using pkt_decode_wf(2) [OF assms(1)] by simp
  ultimately have "pkt_decode (relay_frame buf @ []) = Some (h\<lparr>ttl := ttl h - 1, payload_len := payload_len h\<rparr>,
      take (unat (payload_len h)) p @ replicate (sig_len (pkt_type h)) 0 @ [])"
    using pkt_decode_encoded [of "h\<lparr>ttl := ttl h - 1\<rparr>" "payload_len h" p PKT_MAX_WIRE_LEN "relay_frame buf" "[]"] wf by simp
  then show ?thesis by simp
qed

lemma deliver_local_fields [simp, frame_simps]:
  "rad (deliver_local lib h hdr p n) = rad n" "dedup_st (deliver_local lib h hdr p n) = dedup_st n"
  "s_local_id (deliver_local lib h hdr p n) = s_local_id n"
  by (simp_all add: deliver_local_def Let_def split: prod.split sum.split)

lemma delivered_deliver_local:
  "delivered (deliver_local lib h hdr p n) = delivered n @
     (if dst_id hdr = s_local_id n \<and> pkt_type hdr = PKT_TYPE_DATA \<and> s_rx_cb n
      then case fst (pcrypto_decrypt lib h (src_id hdr) (take (unat (payload_len hdr)) p) PKT_MAX_PAYLOAD (cry n)) of
             Inl _ \<Rightarrow> [] | Inr pt \<Rightarrow> [(pt, src_id hdr)]
      else [])"
  by (simp add: deliver_local_def Let_def split: prod.split sum.split)

section \<open>Frames a node originates\<close>

text \<open>A frame built from \<open>new_hdr\<close> that fits: what goes on air and how a receiver reads it.\<close>

lemma new_frame:
  assumes "length (s_local_id n) = 8" "length dst = 8" "length payload \<le> 200" "cap \<le> 255"
    and "PKT_HDR_LEN + length payload + sig_len ty \<le> cap"
  obtains wire where
    "pkt_encode cap (fst (new_hdr ty hops dst n)) payload (of_nat (length payload)) = Some wire" "length wire \<le> 255"
    "pkt_decode wire = Some ((fst (new_hdr ty hops dst n))\<lparr>payload_len := of_nat (length payload)\<rparr>,
       payload @ replicate (sig_len ty) 0)"
proof -
  let ?h = "fst (new_hdr ty hops dst n)"
  have wf: "wf_hdr ?h" using assms(1,2) by simp
  have u: "unat (of_nat (length payload) :: byte) = length payload" using assms(3) by (simp add: unat_of_nat_byte)
  then obtain wire where e: "pkt_encode cap ?h payload (of_nat (length payload)) = Some wire"
    using assms(5) by (simp add: pkt_encode_def Let_def)
  have "length wire \<le> 255"
    using length_pkt_encode [OF wf _ e] u assms(4,5) by simp
  moreover have "pkt_decode (wire @ []) = Some (?h\<lparr>payload_len := of_nat (length payload)\<rparr>,
      payload @ replicate (sig_len ty) 0)"
    using pkt_decode_encoded [OF wf _ e, of "[]"] u by simp
  ultimately show thesis using that [OF e] by simp
qed

lemma key_bundle_frame_sent:
  assumes "length (s_local_id n) = 8" "length dst = 8" "length extra \<le> 199"
  obtains wire where
    "spi_log (rad (send_key_bundle_frame dst st extra n)) = spi_log (rad n) @ tx_commands wire" "length wire \<le> 255"
    "pkt_decode wire = Some ((fst (new_hdr PKT_TYPE_KEY_BUNDLE 1 dst n))\<lparr>payload_len := of_nat (1 + length extra)\<rparr>, st # extra)"
proof -
  have t: "sig_len PKT_TYPE_KEY_BUNDLE = 0" by (simp add: sig_len_def pkt_consts)
  have l: "length (st # extra) \<le> 200" "PKT_HDR_LEN + length (st # extra) + sig_len PKT_TYPE_KEY_BUNDLE \<le> PKT_MAX_WIRE_LEN"
    "PKT_MAX_WIRE_LEN \<le> 255"
    using assms(3) by (simp_all add: t pkt_lens)
  from new_frame [OF assms(1,2) l(1) l(3) l(2), where hops = 1] obtain wire where
    "pkt_encode PKT_MAX_WIRE_LEN (fst (new_hdr PKT_TYPE_KEY_BUNDLE 1 dst n)) (st # extra) (of_nat (length (st # extra))) = Some wire"
    "length wire \<le> 255"
    "pkt_decode wire = Some ((fst (new_hdr PKT_TYPE_KEY_BUNDLE 1 dst n))\<lparr>payload_len := of_nat (length (st # extra))\<rparr>,
       (st # extra) @ replicate (sig_len PKT_TYPE_KEY_BUNDLE) 0)" .
  with that [of wire] show thesis
    by (simp add: send_key_bundle_frame_def case_prod_beta Let_def t)
qed

text \<open>The frame of a key exchange, in terms of its fields.\<close>

lemma key_bundle_frame_on_air:
  assumes "length (s_local_id n) = 8" "length dst = 8" "length extra \<le> 199"
  shows "\<exists>wire a. spi_log (rad (send_key_bundle_frame dst st extra n)) = spi_log (rad n) @ tx_commands wire \<and>
    pkt_decode wire = Some (a, st # extra) \<and> pkt_type a = PKT_TYPE_KEY_BUNDLE \<and> ttl a = 1 \<and>
    src_id a = s_local_id n \<and> dst_id a = dst \<and> unat (payload_len a) = 1 + length extra"
proof (rule key_bundle_frame_sent [OF assms, of st])
  fix wire
  let ?a = "(fst (new_hdr PKT_TYPE_KEY_BUNDLE 1 dst n))\<lparr>payload_len := of_nat (1 + length extra)\<rparr>"
  assume w: "spi_log (rad (send_key_bundle_frame dst st extra n)) = spi_log (rad n) @ tx_commands wire"
    "pkt_decode wire = Some (?a, st # extra)"
  have "unat (1 + of_nat (length extra) :: byte) = 1 + length extra"
    using unat_of_nat_byte [of "1 + length extra"] assms(3) by simp
  with w show ?thesis by (intro exI [of _ wire] exI [of _ ?a]) simp
qed

text \<open>A data frame: built, entered into the duplicate window, and sent.\<close>

definition send_data :: "bytes \<Rightarrow> bytes \<Rightarrow> node \<Rightarrow> esp_err \<times> node" where
  "send_data dst ct n =
     (let (hdr, m) = new_hdr PKT_TYPE_DATA PKT_TTL_DEFAULT dst n;
          m = m\<lparr>dedup_st := snd (dedup_check_and_mark (msg_id hdr) (dedup_st m))\<rparr>
      in (case pkt_encode PKT_MAX_WIRE_LEN hdr ct (of_nat (length ct)) of
            None \<Rightarrow> (ESP_ERR_INVALID_SIZE, m) | Some wire \<Rightarrow> radio_send wire m))"

lemma send_data_frame:
  assumes "length (s_local_id n) = 8" "length dst = 8" "length ct \<le> 200" "dedup_ok (dedup_st n)"
  shows "\<exists>wire a. length wire \<le> 255 \<and> spi_log (rad (snd (send_data dst ct n))) = spi_log (rad n) @ tx_commands wire \<and>
    pkt_decode wire = Some (a, ct @ replicate PKT_SIG_LEN 0) \<and> pkt_type a = PKT_TYPE_DATA \<and> ttl a = PKT_TTL_DEFAULT \<and>
    src_id a = s_local_id n \<and> dst_id a = dst \<and> unat (payload_len a) = length ct \<and>
    msg_id a \<in> set (dedup_recent (dedup_st (snd (send_data dst ct n)))) \<and>
    fst (send_data dst ct n) = (if tx_wait (rad n) (tx_waits (rad n)) then ESP_OK else ESP_ERR_TIMEOUT)"
proof -
  let ?h = "fst (new_hdr PKT_TYPE_DATA PKT_TTL_DEFAULT dst n)"
  let ?a = "?h\<lparr>payload_len := of_nat (length ct)\<rparr>"
  have sl: "sig_len PKT_TYPE_DATA = PKT_SIG_LEN" by (simp add: sig_len_def)
  have fit: "PKT_HDR_LEN + length ct + sig_len PKT_TYPE_DATA \<le> PKT_MAX_WIRE_LEN" "PKT_MAX_WIRE_LEN \<le> 255"
    using assms(3) by (simp_all add: sl pkt_lens PKT_SIG_LEN_def)
  from new_frame [OF assms(1-3) fit(2) fit(1), where hops = PKT_TTL_DEFAULT] obtain wire where
    w: "pkt_encode PKT_MAX_WIRE_LEN ?h ct (of_nat (length ct)) = Some wire" "length wire \<le> 255"
    "pkt_decode wire = Some (?a, ct @ replicate (sig_len PKT_TYPE_DATA) 0)" .
  have u: "unat (of_nat (length ct) :: byte) = length ct" using assms(3) by (simp add: unat_of_nat_byte)
  have "msg_id ?h \<in> set (dedup_recent (snd (dedup_check_and_mark (msg_id ?h) (dedup_st n))))"
    using dedup.marked_is_seen [OF assms(4)] dedup.mark_seen [OF dedup.mark_ok [OF assms(4)]] by blast
  with w u show ?thesis
    by (intro exI [of _ wire] exI [of _ ?a])
       (simp add: send_data_def case_prod_beta Let_def sl sx1262_send_result PKT_SIG_LEN_def)
qed

lemma send_data_on_air:
  assumes "length (s_local_id n) = 8" "length dst = 8" "length ct \<le> 200" "dedup_ok (dedup_st n)"
  shows "\<exists>wire a. spi_log (rad (snd (send_data dst ct n))) = spi_log (rad n) @ tx_commands wire \<and>
    pkt_decode wire = Some (a, ct @ replicate PKT_SIG_LEN 0) \<and> pkt_type a = PKT_TYPE_DATA \<and> ttl a = PKT_TTL_DEFAULT \<and>
    src_id a = s_local_id n \<and> dst_id a = dst \<and> unat (payload_len a) = length ct \<and>
    msg_id a \<in> set (dedup_recent (dedup_st (snd (send_data dst ct n)))) \<and>
    fst (send_data dst ct n) = (if tx_wait (rad n) (tx_waits (rad n)) then ESP_OK else ESP_ERR_TIMEOUT)"
  using send_data_frame [OF assms] by (elim exE conjE) (intro exI conjI)

lemma mesh_send_cases:
  "mesh_send lib h dst pt n =
     (if length pt > PKT_MAX_PAYLOAD then (ESP_ERR_INVALID_SIZE, n)
      else case pcrypto_has_session lib h dst (cry n) of (has, c) \<Rightarrow>
        if \<not> has then (ESP_ERR_NOT_FOUND, send_key_bundle_frame dst KEY_BUNDLE_REQUEST [] (n\<lparr>cry := c\<rparr>))
        else (case pcrypto_encrypt lib h dst pt PKT_MAX_PAYLOAD c of
                (Inl e, c') \<Rightarrow> (e, n\<lparr>cry := c'\<rparr>)
              | (Inr ct, c') \<Rightarrow> send_data dst ct (n\<lparr>cry := c'\<rparr>)))"
  by (simp add: mesh_send_def send_data_def send_key_bundle_request_def case_prod_beta Let_def split: sum.split)

lemma pcrypto_encrypt_cap: "pcrypto_encrypt lib h peer pt cap w = (Inr ct, w') \<Longrightarrow> length ct \<le> cap"
  by (auto simp: pcrypto_encrypt_def split: if_splits prod.splits option.splits)

lemma send_beacon_frame:
  assumes "length (s_local_id m) = 8"
  shows "\<exists>wire a now. spi_log (rad (send_beacon m)) = spi_log (rad m) @ tx_commands wire \<and> length wire \<le> 255 \<and>
      pkt_decode wire = Some (a, []) \<and> pkt_type a = PKT_TYPE_BEACON \<and> ttl a = 1 \<and> src_id a = s_local_id m \<and>
      payload_len a = 0 \<and> now \<in> range (timer (plat (cry m))) \<and>
      now + 60 * 1000000 \<le> s_next_beacon_us (presence_st (send_beacon m)) \<and>
      s_next_beacon_us (presence_st (send_beacon m)) < now + 120 * 1000000"
proof -
  let ?h = "fst (new_hdr PKT_TYPE_BEACON 1 (replicate PKT_NODE_ID_LEN 0) m)"
  have sl: "sig_len PKT_TYPE_BEACON = 0" by (simp add: sig_len_def pkt_consts)
  have d: "length (replicate PKT_NODE_ID_LEN (0 :: byte)) = 8" "length ([] :: bytes) \<le> 200" "PKT_HDR_LEN \<le> 255"
    "PKT_HDR_LEN + length ([] :: bytes) + sig_len PKT_TYPE_BEACON \<le> PKT_HDR_LEN"
    by (simp_all add: PKT_NODE_ID_LEN_def PKT_HDR_LEN_39 sl)
  from new_frame [OF assms d(1-4), where hops = 1] obtain wire where
    w: "pkt_encode PKT_HDR_LEN ?h [] 0 = Some wire" "length wire \<le> 255"
    "pkt_decode wire = Some (?h\<lparr>payload_len := 0\<rparr>, [])" by (auto simp: sl)
  define k where "k = snd (radio_send wire (snd (new_hdr PKT_TYPE_BEACON 1 (replicate PKT_NODE_ID_LEN 0) m)))"
  have b: "send_beacon m = (snd (node_random_u32 (snd (node_time k))))\<lparr>presence_st :=
      presence_beacon_reset_timer (fst (node_time k)) (fst (node_random_u32 (snd (node_time k)))) (presence_st k)\<rparr>"
    using w(1) by (simp add: send_beacon_def case_prod_beta Let_def k_def)
  have t: "timer (plat (cry k)) = timer (plat (cry m))"
    by (simp add: k_def new_hdr_def node_time_def node_random_def case_prod_beta Let_def)
  have "fst (node_time k) \<in> range (timer (plat (cry m)))"
    by (simp add: node_time_def esp_timer_get_time_def t)
  moreover have "spi_log (rad (send_beacon m)) = spi_log (rad m) @ tx_commands wire"
    using w(2) by (simp add: b k_def)
  moreover have "s_next_beacon_us (presence_st (send_beacon m)) =
      fst (node_time k) + next_beacon_delay_us (fst (node_random_u32 (snd (node_time k))))"
    by (simp add: b presence_beacon_reset_timer_def)
  moreover have "60 * 1000000 \<le> next_beacon_delay_us r" "next_beacon_delay_us r < 120 * 1000000" for r
    using next_beacon_delay_bounds [of r] by (simp_all add: presence_consts)
  ultimately show ?thesis
    using w(2,3) by (intro exI [of _ wire] exI [of _ "?h\<lparr>payload_len := 0\<rparr>"] exI [of _ "fst (node_time k)"]) simp
qed

lemma mesh_poll_cases:
  "mesh_poll n = (if presence_beacon_due (fst (node_time n)) (presence_st n) then send_beacon (snd (node_time n)) else snd (node_time n))"
  by (simp add: mesh_poll_def case_prod_beta)

lemma node_time_timer [simp]: "timer (plat (cry (snd (node_time n)))) = timer (plat (cry n))"
  by (simp add: node_time_def case_prod_beta)

section \<open>A concrete node\<close>

definition toy_radio :: radio where
  "toy_radio = \<lparr>spi_log = [], miso = (\<lambda>_ _. 0), busy_pin = (\<lambda>_. False), busy_polls = 0, rx_cb_set = True,
     rx_enabled = True, tx_done_sem = False, tx_wait = (\<lambda>_. True), tx_waits = 0\<rparr>"

definition toy_node :: node where
  "toy_node = \<lparr>s_local_id = replicate 8 2, s_rx_cb = True, delivered = [], s_rate_table = rate_table_init,
     dedup_st = dedup_init, presence_st = presence_init 0 0, cry = toy_crypto, rad = toy_radio\<rparr>"

lemma toy_node_ok [simp]: "node_ok toy_node"
  by (simp add: node_ok_def toy_node_def PKT_NODE_ID_LEN_def)

lemma toy_node_fields [simp]: "s_local_id toy_node = replicate 8 2" "dedup_st toy_node = dedup_init"
  "s_rate_table toy_node = rate_table_init" "spi_log (rad toy_node) = []" "delivered toy_node = []" "s_rx_cb toy_node"
  "cry toy_node = toy_crypto" "rad toy_node = toy_radio"
  by (simp_all add: toy_node_def toy_radio_def)

lemma toy_not_limited [simp]: "\<not> limited_now hdr toy_node"
  by (simp add: limited_now_def rate_verdict)

text \<open>A data frame for another node.\<close>

definition ex_frame :: bytes where
  "ex_frame = hdr_bytes (ex_hdr\<lparr>dst_id := replicate 8 3, payload_len := 1\<rparr>) @ 9 # replicate 16 7"

lemma ex_frame_decodes: "pkt_decode ex_frame = Some (ex_hdr\<lparr>dst_id := replicate 8 3, payload_len := 1\<rparr>, 9 # replicate 16 7)"
  "length ex_frame = 56"
proof -
  have wf: "wf_hdr (ex_hdr\<lparr>dst_id := replicate 8 3, payload_len := 1\<rparr>)" by (simp add: wf_hdr_def ex_hdr_def pkt_consts)
  have l: "length (hdr_bytes (ex_hdr\<lparr>dst_id := replicate 8 3, payload_len := 1\<rparr>)) = 39"
    using length_hdr_bytes [OF wf] by (simp add: PKT_HDR_LEN_39)
  with wf show "pkt_decode ex_frame = Some (ex_hdr\<lparr>dst_id := replicate 8 3, payload_len := 1\<rparr>, 9 # replicate 16 7)"
    by (simp add: ex_frame_def pkt_decode_Some_iff PKT_HDR_LEN_39)
  from l show "length ex_frame = 56" by (simp add: ex_frame_def)
qed

text \<open>A request for the node's key bundle.\<close>

definition ex_request_hdr :: pkt_hdr where
  "ex_request_hdr = ex_hdr\<lparr>pkt_type := PKT_TYPE_KEY_BUNDLE, dst_id := replicate 8 2, ttl := 1, payload_len := 1\<rparr>"

lemma ex_request_decodes: "pkt_decode (hdr_bytes ex_request_hdr @ [KEY_BUNDLE_REQUEST]) = Some (ex_request_hdr, [KEY_BUNDLE_REQUEST])"
proof -
  have wf: "wf_hdr ex_request_hdr" by (simp add: wf_hdr_def ex_request_hdr_def ex_hdr_def pkt_consts)
  have l: "length (hdr_bytes ex_request_hdr) = 39"
    using length_hdr_bytes [OF wf] by (simp add: PKT_HDR_LEN_39)
  moreover have "payload_len ex_request_hdr = 1" "sig_len (pkt_type ex_request_hdr) = 0"
    by (simp_all add: ex_request_hdr_def sig_len_def pkt_consts)
  ultimately show ?thesis using wf by (simp add: pkt_decode_Some_iff PKT_HDR_LEN_39)
qed

section \<open>Properties\<close>

text \<open>Property C2: receiving a new routable frame. When a decodable frame from another node, within
  its rate limit, is neither a beacon nor a key exchange and its message ID is not in the
  duplicate window, the node transmits exactly one frame if hops are left and none otherwise.
  That frame is the received one with only the hop count lowered by one (and the signature
  space zeroed). If the frame is data for this node and a callback is set, and only then, its
  payload is decrypted, and delivered once when that succeeds. Afterwards the ID is known.\<close>
theorem relay_correct:
  assumes "node_ok n" and "pkt_decode buf = Some (hdr, p)" and "length buf \<le> 255"
    and "src_id hdr \<noteq> s_local_id n" and "\<not> limited_now hdr n"
    and "pkt_type hdr \<noteq> PKT_TYPE_BEACON" and "pkt_type hdr \<noteq> PKT_TYPE_KEY_BUNDLE"
    and "msg_id hdr \<notin> set (dedup_recent (dedup_st n))"
  shows "\<exists>n'. on_radio_rx lib h buf n = Some n' \<and>
    spi_log (rad n') = spi_log (rad n) @ (if ttl hdr > 1 then tx_commands (relay_frame buf) else []) \<and>
    pkt_decode (relay_frame buf) =
      Some (hdr\<lparr>ttl := ttl hdr - 1\<rparr>, take (unat (payload_len hdr)) p @ replicate (sig_len (pkt_type hdr)) 0) \<and>
    delivered n' = delivered n @
      (if dst_id hdr = s_local_id n \<and> pkt_type hdr = PKT_TYPE_DATA \<and> s_rx_cb n
       then case fst (pcrypto_decrypt lib h (src_id hdr) (take (unat (payload_len hdr)) p) PKT_MAX_PAYLOAD
                   (cry (after_presence hdr (after_limiter hdr n)))) of
              Inl _ \<Rightarrow> [] | Inr pt \<Rightarrow> [(pt, src_id hdr)]
       else []) \<and>
    msg_id hdr \<in> set (dedup_recent (dedup_st n'))"
proof -
  have ok: "dedup_ok (dedup_st n)" using assms(1) by (simp add: node_ok_def)
  then have new: "\<not> fst (dedup_check_and_mark (msg_id hdr) (dedup_st n))"
    using assms(8) by (simp add: dedup.mark_seen)
  have "dedup_recent (snd (dedup_check_and_mark (msg_id hdr) (dedup_st n))) =
      take DEDUP_CACHE_SIZE (msg_id hdr # dedup_recent (dedup_st n))"
    by (rule dedup.mark_new [OF ok assms(8)])
  then have known: "msg_id hdr \<in> set (dedup_recent (snd (dedup_check_and_mark (msg_id hdr) (dedup_st n))))"
    by (simp add: DEDUP_CACHE_SIZE_def)
  show ?thesis
    using assms(2-7) new known relay_encode(2) [OF assms(2,3)] relay_frame_decodes [OF assms(2,3)]
    by (simp add: on_radio_rx_stages Let_def forward_relays [OF assms(2,3)] delivered_deliver_local)
qed

theorem relay_correct_witness:
  "\<exists>n'. on_radio_rx toy_signal ample ex_frame toy_node = Some n' \<and>
     spi_log (rad n') = tx_commands (relay_frame ex_frame) \<and> delivered n' = []"
proof -
  have "length ex_frame \<le> 255" by (simp add: ex_frame_decodes)
  from relay_correct [OF toy_node_ok ex_frame_decodes(1) this, of toy_signal ample] show ?thesis
    by (auto simp: ex_hdr_def pkt_consts toy_radio_def)
qed

text \<open>Property C12: what is dropped. A malformed frame and the node's own echo change nothing; a
  frame over the rate limit changes only the limiter's table (and takes one timer reading); a
  beacon also the presence table; a frame whose message ID is in the duplicate window is, beyond
  that, neither relayed nor delivered nor shown to the crypto layer, whatever its hop count.\<close>
theorem drops_silently:
  assumes "node_ok n"
  shows "(pkt_decode buf = None \<longrightarrow> on_radio_rx lib h buf n = Some n) \<and>
    (pkt_decode buf = Some (hdr, p) \<and> src_id hdr = s_local_id n \<longrightarrow> on_radio_rx lib h buf n = Some n) \<and>
    (pkt_decode buf = Some (hdr, p) \<and> src_id hdr \<noteq> s_local_id n \<and> limited_now hdr n \<longrightarrow>
       on_radio_rx lib h buf n = Some (after_limiter hdr n)) \<and>
    (pkt_decode buf = Some (hdr, p) \<and> src_id hdr \<noteq> s_local_id n \<and> \<not> limited_now hdr n \<and>
       (pkt_type hdr = PKT_TYPE_BEACON \<or>
        pkt_type hdr \<noteq> PKT_TYPE_KEY_BUNDLE \<and> msg_id hdr \<in> set (dedup_recent (dedup_st n))) \<longrightarrow>
       on_radio_rx lib h buf n = Some (after_presence hdr (after_limiter hdr n)))"
proof -
  have ok: "dedup_ok (dedup_st n)" using assms by (simp add: node_ok_def)
  have "dedup_check_and_mark m (dedup_st n) = (True, dedup_st n)" if "m \<in> set (dedup_recent (dedup_st n))" for m
    using that dedup.mark_seen [OF ok, of m] by (auto simp: dedup_check_and_mark_def split: if_splits)
  moreover have "m\<lparr>dedup_st := dedup_st n\<rparr> = m" if "dedup_st m = dedup_st n" for m :: node
    using that by (cases m) simp
  ultimately show ?thesis by (auto simp: on_radio_rx_stages Let_def)
qed

theorem drops_silently_witness:
  "on_radio_rx toy_signal ample [1, 2, 3] toy_node = Some toy_node"
proof -
  have "pkt_decode [1, 2, 3] = None" by (simp add: pkt_decode_def PKT_HDR_LEN_39)
  with drops_silently [OF toy_node_ok, of "[1, 2, 3]" toy_signal ample ex_hdr "[]"] show ?thesis by simp
qed

text \<open>The key exchange. A key frame within the rate limit is never relayed, delivered
  or entered into the duplicate window, and it is ignored unless it is addressed to this node. A
  request is answered with one frame to its sender, with one hop, that carries the local bundle
  after the response code; when there is no bundle, nothing is sent. A response is handed to the
  crypto layer as a bundle from its sender, and nothing is sent.\<close>
theorem key_exchange:
  assumes "node_ok n" and "pkt_decode buf = Some (hdr, p)" and "src_id hdr \<noteq> s_local_id n" and "\<not> limited_now hdr n"
    and "pkt_type hdr = PKT_TYPE_KEY_BUNDLE"
  defines "m \<equiv> after_presence hdr (after_limiter hdr n)"
  shows "(on_radio_rx lib h buf n = Some n' \<longrightarrow> delivered n' = delivered n \<and> dedup_st n' = dedup_st n) \<and>
    (dst_id hdr \<noteq> s_local_id n \<or> payload_len hdr = 0 \<longrightarrow> on_radio_rx lib h buf n = Some m) \<and>
    (dst_id hdr = s_local_id n \<and> payload_len hdr \<noteq> 0 \<and> p ! 0 = KEY_BUNDLE_REQUEST \<longrightarrow>
      (case pcrypto_local_bundle lib h (cry m) of
         None \<Rightarrow> on_radio_rx lib h buf n = None
       | Some (Inl e, c) \<Rightarrow> on_radio_rx lib h buf n = Some (m\<lparr>cry := c\<rparr>)
       | Some (Inr bundle, c) \<Rightarrow> length bundle \<le> PCRYPTO_BUNDLE_MAX_LEN \<longrightarrow>
           (\<exists>n' wire a. on_radio_rx lib h buf n = Some n' \<and> spi_log (rad n') = spi_log (rad n) @ tx_commands wire \<and>
              pkt_decode wire = Some (a, KEY_BUNDLE_RESPONSE # bundle) \<and> pkt_type a = PKT_TYPE_KEY_BUNDLE \<and>
              ttl a = 1 \<and> src_id a = s_local_id n \<and> dst_id a = src_id hdr \<and> unat (payload_len a) = 1 + length bundle))) \<and>
    (dst_id hdr = s_local_id n \<and> payload_len hdr \<noteq> 0 \<and> p ! 0 = KEY_BUNDLE_RESPONSE \<longrightarrow>
      on_radio_rx lib h buf n = Some (m\<lparr>cry := snd (pcrypto_process_bundle lib h (src_id hdr)
         (take (unat (payload_len hdr) - 1) (drop 1 p)) (cry m))\<rparr>))"
proof -
  have rx: "on_radio_rx lib h buf n = handle_key_bundle lib h hdr p m"
    using assms(2-5) by (simp add: on_radio_rx_stages m_def Let_def pkt_consts)
  have wf: "wf_hdr hdr" by (rule pkt_decode_wf [OF assms(2)])
  have m: "s_local_id m = s_local_id n" "rad m = rad n" "delivered m = delivered n" "dedup_st m = dedup_st n"
    by (simp_all add: m_def)
  have len: "unat (payload_len hdr) < 1 \<longleftrightarrow> payload_len hdr = 0" by (simp add: unat_eq_zero)
  have ids: "length (s_local_id (m\<lparr>cry := c\<rparr>)) = 8" "length (src_id hdr) = 8" for c
    using assms(1) wf by (simp_all add: node_ok_def wf_hdr_def PKT_NODE_ID_LEN_def m)
  have answer: "\<exists>wire a. spi_log (rad (send_key_bundle_frame (src_id hdr) KEY_BUNDLE_RESPONSE b (m\<lparr>cry := c\<rparr>))) =
        spi_log (rad n) @ tx_commands wire \<and>
      pkt_decode wire = Some (a, KEY_BUNDLE_RESPONSE # b) \<and> pkt_type a = PKT_TYPE_KEY_BUNDLE \<and>
      ttl a = 1 \<and> src_id a = s_local_id n \<and> dst_id a = src_id hdr \<and> unat (payload_len a) = 1 + length b"
    if "length b \<le> PCRYPTO_BUNDLE_MAX_LEN" for b c
    using key_bundle_frame_on_air [OF ids(1) [of c] ids(2), of b KEY_BUNDLE_RESPONSE] that
    by (simp add: PCRYPTO_BUNDLE_MAX_LEN_def m)
  have "on_radio_rx lib h buf n = Some n' \<longrightarrow> delivered n' = delivered n \<and> dedup_st n' = dedup_st n"
    using handle_key_bundle_tables [of lib h hdr p m n'] m by (auto simp: rx same_tables_def)
  then show ?thesis
    unfolding rx handle_key_bundle_def Let_def len m send_key_bundle_response_def
    using answer
    by (auto simp: KEY_BUNDLE_REQUEST_def KEY_BUNDLE_RESPONSE_def case_prod_beta split: option.split sum.split)
qed

theorem key_exchange_witness:
  "\<exists>n'. on_radio_rx toy_signal ample (hdr_bytes ex_request_hdr @ [KEY_BUNDLE_REQUEST]) toy_node = Some n' \<and>
     spi_log (rad n') = []"
proof -
  let ?m = "after_presence ex_request_hdr (after_limiter ex_request_hdr toy_node)"
  have f: "src_id ex_request_hdr \<noteq> s_local_id toy_node" "pkt_type ex_request_hdr = PKT_TYPE_KEY_BUNDLE"
    "dst_id ex_request_hdr = s_local_id toy_node" "payload_len ex_request_hdr \<noteq> 0"
    by (simp_all add: ex_request_hdr_def ex_hdr_def pkt_consts)
  have "pcrypto_local_bundle toy_signal ample (cry ?m) = Some (Inl ESP_ERR_INVALID_STATE, cry ?m)"
    by (simp add: pcrypto_local_bundle_def)
  with key_exchange [OF toy_node_ok ex_request_decodes f(1) toy_not_limited f(2), of toy_signal ample] f
  show ?thesis by (simp add: toy_radio_def)
qed

text \<open>Property C11: sending. A message longer than 200 bytes is refused and changes nothing.
  Without a session the message is not sent: one request for the peer's keys goes on air, with
  one hop, and the result is \<open>ESP_ERR_NOT_FOUND\<close>. When encryption fails its error is returned and
  nothing is sent. Otherwise exactly one data frame goes on air, with the default 8 hops and the
  ciphertext as its payload, its ID is in the duplicate window from then on (a copy that comes
  back is dropped), and the result says whether the radio confirmed it in time.\<close>
theorem mesh_send_correct:
  assumes "node_ok n" and "length dst = PKT_NODE_ID_LEN"
    and "pcrypto_has_session lib h dst (cry n) = (has, c)" and "pcrypto_encrypt lib h dst pt PKT_MAX_PAYLOAD c = (r, c')"
    and "mesh_send lib h dst pt n = (e, n')"
  shows "if length pt > PKT_MAX_PAYLOAD then e = ESP_ERR_INVALID_SIZE \<and> n' = n
    else if \<not> has then e = ESP_ERR_NOT_FOUND \<and> dedup_st n' = dedup_st n \<and>
      (\<exists>wire a. spi_log (rad n') = spi_log (rad n) @ tx_commands wire \<and> pkt_decode wire = Some (a, [KEY_BUNDLE_REQUEST]) \<and>
         pkt_type a = PKT_TYPE_KEY_BUNDLE \<and> ttl a = 1 \<and> src_id a = s_local_id n \<and> dst_id a = dst)
    else (case r of
        Inl err \<Rightarrow> e = err \<and> n' = n\<lparr>cry := c'\<rparr>
      | Inr ct \<Rightarrow> (\<exists>wire a. spi_log (rad n') = spi_log (rad n) @ tx_commands wire \<and>
          pkt_decode wire = Some (a, ct @ replicate PKT_SIG_LEN 0) \<and> pkt_type a = PKT_TYPE_DATA \<and> ttl a = PKT_TTL_DEFAULT \<and>
          src_id a = s_local_id n \<and> dst_id a = dst \<and> unat (payload_len a) = length ct \<and>
          msg_id a \<in> set (dedup_recent (dedup_st n')) \<and>
          e = (if tx_wait (rad n) (tx_waits (rad n)) then ESP_OK else ESP_ERR_TIMEOUT)))"
proof -
  have ok: "length (s_local_id (n\<lparr>cry := d\<rparr>)) = 8" "length dst = 8" "dedup_ok (dedup_st (n\<lparr>cry := d\<rparr>))" for d
    using assms(1,2) by (simp_all add: node_ok_def PKT_NODE_ID_LEN_def)
  have "length ([] :: bytes) \<le> 199" by simp
  note request = key_bundle_frame_on_air [OF ok(1) [of c] ok(2) this, of KEY_BUNDLE_REQUEST]
  have tables: "dedup_st (send_key_bundle_frame dst KEY_BUNDLE_REQUEST [] (n\<lparr>cry := c\<rparr>)) = dedup_st n"
    using key_bundle_frame_tables [of "n\<lparr>cry := c\<rparr>" dst KEY_BUNDLE_REQUEST "[]"] by (simp add: same_tables_def)
  show ?thesis
  proof (cases "length pt > PKT_MAX_PAYLOAD \<or> \<not> has")
    case True
    with assms(3,5) request tables show ?thesis by (auto simp: mesh_send_cases)
  next
    case False
    show ?thesis
    proof (cases r)
      case (Inl err)
      with False assms(3-5) show ?thesis by (simp add: mesh_send_cases)
    next
      case (Inr ct)
      then have "length ct \<le> 200"
        using pcrypto_encrypt_cap [of lib h dst pt PKT_MAX_PAYLOAD c ct c'] assms(4) by (simp add: PKT_MAX_PAYLOAD_def)
      note sent = send_data_on_air [OF ok(1,2) this ok(3), of c']
      have "send_data dst ct (n\<lparr>cry := c'\<rparr>) = (e, n')" using False Inr assms(3-5) by (simp add: mesh_send_cases)
      with sent False Inr show ?thesis by simp
    qed
  qed
qed

theorem mesh_send_correct_witness:
  "\<exists>wire a. spi_log (rad (snd (mesh_send toy_signal ample (replicate 8 3) [1, 2] toy_node))) = tx_commands wire \<and>
     pkt_decode wire = Some (a, [KEY_BUNDLE_REQUEST]) \<and> dst_id a = replicate 8 3"
proof -
  have has: "pcrypto_has_session toy_signal ample (replicate 8 3) (cry toy_node) = (False, toy_crypto)"
    by (simp add: pcrypto_has_session_def toy_signal_def contains_healthy)
  obtain r c' where r: "pcrypto_encrypt toy_signal ample (replicate 8 3) [1, 2] PKT_MAX_PAYLOAD toy_crypto = (r, c')" by fastforce
  obtain e n' where m: "mesh_send toy_signal ample (replicate 8 3) [1, 2] toy_node = (e, n')" by fastforce
  have "length (replicate 8 (3 :: byte)) = PKT_NODE_ID_LEN" by (simp add: PKT_NODE_ID_LEN_def)
  from mesh_send_correct [OF toy_node_ok this has r m] show ?thesis
    by (simp add: m toy_radio_def PKT_MAX_PAYLOAD_def) blast
qed

text \<open>Property C7: the node's invariant. The tables keep their sizes and never track a node or a
  message twice, and every delivered message is at most 200 bytes long and comes from another
  node: \<open>mesh_init\<close> establishes this, whatever its result, and every operation of the component
  keeps it, whatever the frame, the library and the memory do.\<close>
theorem node_invariant:
  assumes "length mac = 6" and "delivered n0 = []" and "node_ok n"
  shows "node_ok (snd (mesh_init lib h mac n0)) \<and>
    (on_radio_rx lib h buf n = Some n' \<longrightarrow> node_ok n') \<and> node_ok (snd (mesh_send lib h dst pt n)) \<and>
    node_ok (mesh_poll n) \<and> node_ok (mesh_set_rx_callback cb n)"
  using mesh_init_ok [OF assms(1,2)] on_radio_rx_ok [OF assms(3)] mesh_send_ok [OF assms(3)] mesh_poll_ok [OF assms(3)]
    assms(3) by (auto simp: mesh_set_rx_callback_def node_ok_def)

theorem node_invariant_witness:
  "node_ok (snd (mesh_init toy_signal ample [1, 2, 3, 4, 5, 6] toy_node)) \<and> node_ok (mesh_poll toy_node)"
  using node_invariant [of "[1, 2, 3, 4, 5, 6]" toy_node toy_node toy_signal ample] by simp

text \<open>The presence beacon. \<open>mesh_poll\<close> does nothing before the beacon is due; when it
  is due it puts exactly one frame on air, a header alone, of type beacon, with one hop, from this
  node to nobody (so that no receiver relays it), and sets the next one at least 60 and less than
  120 seconds after the timer's reading.\<close>
theorem mesh_poll_beacon:
  assumes "length (s_local_id n) = PKT_NODE_ID_LEN"
  shows "if presence_beacon_due (fst (node_time n)) (presence_st n)
    then \<exists>wire a now. spi_log (rad (mesh_poll n)) = spi_log (rad n) @ tx_commands wire \<and> pkt_decode wire = Some (a, []) \<and>
      pkt_type a = PKT_TYPE_BEACON \<and> ttl a = 1 \<and> src_id a = s_local_id n \<and> payload_len a = 0 \<and>
      now + 60 * 1000000 \<le> s_next_beacon_us (presence_st (mesh_poll n)) \<and>
      s_next_beacon_us (presence_st (mesh_poll n)) < now + 120 * 1000000 \<and>
      now \<in> range (timer (plat (cry n)))
    else mesh_poll n = snd (node_time n)"
proof (cases "presence_beacon_due (fst (node_time n)) (presence_st n)")
  case True
  have "length (s_local_id (snd (node_time n))) = 8" using assms by (simp add: PKT_NODE_ID_LEN_def)
  from send_beacon_frame [OF this] show ?thesis
    unfolding if_P [OF True] mesh_poll_cases by (simp, blast)
qed (simp add: mesh_poll_cases)

theorem mesh_poll_beacon_witness:
  "\<exists>wire a. spi_log (rad (mesh_poll (toy_node\<lparr>presence_st := (presence_st toy_node)\<lparr>s_next_beacon_us := 0\<rparr>\<rparr>))) = tx_commands wire \<and>
     pkt_decode wire = Some (a, []) \<and> pkt_type a = PKT_TYPE_BEACON"
proof -
  let ?n = "toy_node\<lparr>presence_st := (presence_st toy_node)\<lparr>s_next_beacon_us := 0\<rparr>\<rparr>"
  have l: "length (s_local_id ?n) = PKT_NODE_ID_LEN" by (simp add: PKT_NODE_ID_LEN_def)
  have due: "presence_beacon_due (fst (node_time ?n)) (presence_st ?n)"
    by (simp add: presence_beacon_due_def node_time_def esp_timer_get_time_def toy_crypto_def toy_platform_def)
  from mesh_poll_beacon [OF l, unfolded if_P [OF due]] show ?thesis by (auto simp: toy_radio_def)
qed

end
