(* ===== verification/Phones.thy ===== *)
theory Phones
  imports BleBridge BoundedSet Routing "HOL-Library.Multiset"
begin

text \<open>
  What the bridge of \<open>BleBridge\<close> does for the phones: the subscriber list, the messages pushed to
  phones, the messages phones send, and advertising.
\<close>

section \<open>The subscriber list is a bounded set\<close>

definition subscribers :: "ble \<Rightarrow> u16 list" where
  "subscribers b = take (s_subscriber_count b) (s_subscriber_conns b)"

definition ble_ok :: "ble \<Rightarrow> bool" where
  "ble_ok b \<longleftrightarrow> length (s_subscriber_conns b) = BLE_MAX_SUBSCRIBERS \<and>
     s_subscriber_count b \<le> BLE_MAX_SUBSCRIBERS \<and> distinct (subscribers b)"

lemma conn_index_None [simp]: "conn_index c cs = None \<longleftrightarrow> c \<notin> set cs"
  by (induction cs) auto

lemma conn_index_Some: "conn_index c cs = Some i \<Longrightarrow> i < length cs \<and> cs ! i = c"
  by (induction cs arbitrary: i) (auto split: if_splits)

lemma length_subscribers: "ble_ok b \<Longrightarrow> length (subscribers b) = s_subscriber_count b"
  by (simp add: ble_ok_def subscribers_def)

lemma conn_index_cases:
  "(case conn_index c cs of None \<Rightarrow> x | Some i \<Rightarrow> y) = (if c \<in> set cs then y else x)"
  by (auto split: option.split dest!: conn_index_Some)

lemma subscribers_add:
  assumes "ble_ok b"
  shows "subscribers (subscriber_add c b) =
    (if c \<in> set (subscribers b) \<or> \<not> s_subscriber_count b < BLE_MAX_SUBSCRIBERS then subscribers b
     else subscribers b @ [c])"
  using assms by (simp add: subscriber_add_def conn_index_cases subscribers_def ble_ok_def take_Suc_conv_app_nth)

lemma subscribers_remove:
  assumes "ble_ok b" "conn_index c (subscribers b) = Some i"
  shows "subscribers (subscriber_remove c b) = butlast ((subscribers b)[i := last (subscribers b)])"
proof -
  let ?n = "s_subscriber_count b"
  have i: "i < ?n" "?n \<le> length (s_subscriber_conns b)"
    using conn_index_Some [OF assms(2)] assms(1) by (auto simp: ble_ok_def subscribers_def)
  have "last (take ?n (s_subscriber_conns b)) = take ?n (s_subscriber_conns b) ! (length (take ?n (s_subscriber_conns b)) - 1)"
    using i by (intro last_conv_nth) auto
  then have l: "last (subscribers b) = s_subscriber_conns b ! (?n - 1)"
    using i by (simp add: subscribers_def)
  show ?thesis
    using assms(2) i unfolding l 
    by (auto simp: subscriber_remove_def subscribers_def butlast_list_update butlast_take take_update_swap list_update_beyond)
qed

lemma mset_replace_by_last:
  assumes "i < length xs"
  shows "mset (butlast (xs[i := last xs])) = mset xs - {#xs ! i#}"
proof (cases xs rule: rev_cases)
  case (snoc ys y)
  show ?thesis
  proof (cases "i < length ys")
    case True
    then show ?thesis by (simp add: snoc list_update_append mset_update nth_append)
  next
    case False
    then have "i = length ys" using assms snoc by simp
    then show ?thesis by (simp add: snoc)
  qed
qed (use assms in simp)

lemma remove_mset:
  assumes "ble_ok b"
  shows "mset (subscribers (subscriber_remove c b)) = mset (subscribers b) - {#c#}"
proof (cases "conn_index c (subscribers b)")
  case None
  then have "subscriber_remove c b = b" by (simp add: subscriber_remove_def subscribers_def [symmetric] del: conn_index_None)
  then show ?thesis using None by (simp add: diff_single_trivial)
next
  case (Some i)
  then show ?thesis
    using subscribers_remove [OF assms Some] mset_replace_by_last [of i "subscribers b"] conn_index_Some [OF Some] by simp
qed

lemma subscriber_fields [simp, frame_simps]:
  "ble_log (subscriber_add c b) = ble_log b" "ble_log (subscriber_remove c b) = ble_log b"
  "s_tx_val_handle (subscriber_add c b) = s_tx_val_handle b" "s_tx_val_handle (subscriber_remove c b) = s_tx_val_handle b"
  by (simp_all add: subscriber_add_def subscriber_remove_def split: option.split)

lemma distinct_mset_diff: "distinct xs \<Longrightarrow> mset ys = mset xs - {#c#} \<Longrightarrow> distinct ys \<and> set ys = set xs - {c}"
proof -
  assume xs: "distinct xs" and ys: "mset ys = mset xs - {#c#}"
  have "mset ys = mset (remove1 c xs)" using ys by simp
  then have "set ys = set (remove1 c xs)" "distinct ys = distinct (remove1 c xs)"
    by (metis set_mset_mset, metis mset_eq_imp_distinct_iff)
  then show ?thesis using xs by (simp add: set_remove1_eq)
qed

lemma ble_ok_add: "ble_ok b \<Longrightarrow> ble_ok (subscriber_add c b)"
  using subscribers_add [of b c]
  by (auto simp: ble_ok_def subscriber_add_def subscribers_def [symmetric] split: option.splits if_splits)

lemma ble_ok_remove: "ble_ok b \<Longrightarrow> ble_ok (subscriber_remove c b)"
  using distinct_mset_diff [OF _ remove_mset [of b c]]
  by (auto simp: ble_ok_def subscriber_remove_def subscribers_def [symmetric] split: option.splits)

interpretation subscribers: bounded_set subscriber_add subscriber_remove "\<lambda>b. set (subscribers b)" ble_ok BLE_MAX_SUBSCRIBERS
proof unfold_locales
  fix b :: ble and c :: u16
  assume ok: "ble_ok b"
  have d: "distinct (subscribers b)" "card (set (subscribers b)) = s_subscriber_count b"
    using ok length_subscribers [OF ok] by (auto simp: ble_ok_def distinct_card)
  show "ble_ok (subscriber_add c b)" "ble_ok (subscriber_remove c b)"
    by (rule ble_ok_add [OF ok], rule ble_ok_remove [OF ok])
  show "set (subscribers (subscriber_add c b)) = bounded_insert BLE_MAX_SUBSCRIBERS c (set (subscribers b))"
    by (auto simp: subscribers_add [OF ok] bounded_insert_def d)
  show "set (subscribers (subscriber_remove c b)) = set (subscribers b) - {c}"
    using distinct_mset_diff [OF d(1) remove_mset [OF ok]] by simp
  show "finite (set (subscribers b)) \<and> card (set (subscribers b)) \<le> BLE_MAX_SUBSCRIBERS"
    using ok by (simp add: d ble_ok_def)
qed

section \<open>Events\<close>

lemma ble_do_fields [simp, frame_simps]:
  "s_subscriber_conns (snd (ble_do st c b)) = s_subscriber_conns b"
  "s_subscriber_count (snd (ble_do st c b)) = s_subscriber_count b"
  "s_tx_val_handle (snd (ble_do st c b)) = s_tx_val_handle b"
  "s_own_addr_type (snd (ble_do st c b)) = s_own_addr_type b"
  "ble_log (snd (ble_do st c b)) = ble_log b @ [c]" "fst (ble_do st c b) = answer st (ble_log b) c"
  by (simp_all add: ble_do_def)

lemma ble_advertise_fields [simp, frame_simps]:
  "s_subscriber_conns (ble_advertise st b) = s_subscriber_conns b"
  "s_subscriber_count (ble_advertise st b) = s_subscriber_count b"
  "s_tx_val_handle (ble_advertise st b) = s_tx_val_handle b"
  by (simp_all add: ble_advertise_def case_prod_beta Let_def)

text \<open>What an event does to the subscribers of the characteristic with handle \<open>v\<close>.\<close>

fun event_ops :: "u16 \<Rightarrow> gap_event \<Rightarrow> u16 set_op list" where
  "event_ops v (BLE_GAP_EVENT_DISCONNECT c) = [Remove c]"
| "event_ops v (BLE_GAP_EVENT_SUBSCRIBE c attr notify) = (if attr = v then if notify then [Add c] else [Remove c] else [])"
| "event_ops v ev = []"

lemma same_list: "s_subscriber_conns b' = s_subscriber_conns b \<Longrightarrow> s_subscriber_count b' = s_subscriber_count b \<Longrightarrow>
    subscribers b' = subscribers b \<and> ble_ok b' = ble_ok b"
  by (simp add: subscribers_def ble_ok_def)

lemma event_list:
  "subscribers (ble_gap_event st ev b) = subscribers (run_ops subscriber_add subscriber_remove (event_ops (s_tx_val_handle b) ev) b) \<and>
   ble_ok (ble_gap_event st ev b) = ble_ok (run_ops subscriber_add subscriber_remove (event_ops (s_tx_val_handle b) ev) b) \<and>
   s_tx_val_handle (ble_gap_event st ev b) = s_tx_val_handle b"
  by (cases ev) (simp_all add: subscribers_def ble_ok_def)

lemma event_members:
  assumes "ble_ok b"
  shows "ble_ok (ble_gap_event st ev b)"
    "set (subscribers (ble_gap_event st ev b)) =
       run_ops (bounded_insert BLE_MAX_SUBSCRIBERS) (\<lambda>k S. S - {k}) (event_ops (s_tx_val_handle b) ev) (set (subscribers b))"
  using event_list [of st ev b] subscribers.run_ok [OF assms] subscribers.run_members [OF assms] by simp_all

lemma run_ops_append: "run_ops add rem (xs @ ys) s = run_ops add rem ys (run_ops add rem xs s)"
proof (induction xs arbitrary: s)
  case (Cons op xs)
  then show ?case by (cases op) simp_all
qed simp

section \<open>Messages to the phones\<close>

text \<open>The calls for a list of subscribers, given for whom a buffer could be allocated.\<close>

definition push_calls :: "u16 \<Rightarrow> bytes \<Rightarrow> u16 list \<Rightarrow> bool list \<Rightarrow> ble_call list" where
  "push_calls v buf cs oks =
     concat (map (\<lambda>(c, ok). MbufFromFlat buf # (if ok then [NotifyCustom c v buf] else [])) (zip cs oks))"

text \<open>For whom a buffer was allocated: the answer of the stack at that point of the loop.\<close>

definition granted :: "nimble \<Rightarrow> ble_call list \<Rightarrow> u16 \<Rightarrow> bytes \<Rightarrow> u16 list \<Rightarrow> bool list \<Rightarrow> bool" where
  "granted st log v buf cs oks \<longleftrightarrow> length oks = length cs \<and>
     (\<forall>i < length cs. oks ! i \<longleftrightarrow> answer st (log @ push_calls v buf (take i cs) (take i oks)) (MbufFromFlat buf) = 0)"

lemma push_calls_Cons:
  "push_calls v buf (c # cs) (ok # oks) = MbufFromFlat buf # (if ok then [NotifyCustom c v buf] else []) @ push_calls v buf cs oks"
  by (simp add: push_calls_def)

lemma notify_loop_calls:
  "\<exists>oks. granted st (ble_log b) (s_tx_val_handle b) buf cs oks \<and>
     notify_loop st buf cs b = b\<lparr>ble_log := ble_log b @ push_calls (s_tx_val_handle b) buf cs oks\<rparr>"
proof (induction cs arbitrary: b)
  case Nil
  then show ?case by (simp add: push_calls_def granted_def)
next
  case (Cons c cs)
  let ?v = "s_tx_val_handle b"
  let ?ok = "answer st (ble_log b) (MbufFromFlat buf) = 0"
  let ?b = "b\<lparr>ble_log := ble_log b @ MbufFromFlat buf # (if ?ok then [NotifyCustom c ?v buf] else [])\<rparr>"
  have step: "notify_loop st buf (c # cs) b = notify_loop st buf cs ?b"
    by (simp add: ble_do_def)
  from Cons.IH [of ?b] obtain oks where oks:
    "granted st (ble_log ?b) ?v buf cs oks" "notify_loop st buf cs ?b = ?b\<lparr>ble_log := ble_log ?b @ push_calls ?v buf cs oks\<rparr>"
    by auto
  have "granted st (ble_log b) ?v buf (c # cs) (?ok # oks)"
    unfolding granted_def
  proof (intro conjI allI impI)
    show "length (?ok # oks) = length (c # cs)" using oks(1) by (simp add: granted_def)
    fix i
    assume i: "i < length (c # cs)"
    show "(?ok # oks) ! i \<longleftrightarrow>
        answer st (ble_log b @ push_calls ?v buf (take i (c # cs)) (take i (?ok # oks))) (MbufFromFlat buf) = 0"
    proof (cases i)
      case 0
      then show ?thesis by (simp add: push_calls_def)
    next
      case (Suc j)
      with oks(1) i have "oks ! j \<longleftrightarrow> answer st (ble_log ?b @ push_calls ?v buf (take j cs) (take j oks)) (MbufFromFlat buf) = 0"
        by (simp add: granted_def)
      then show ?thesis by (simp add: Suc push_calls_Cons)
    qed
  qed
  then show ?case
    unfolding step oks(2) by (intro exI [of _ "?ok # oks"]) (simp add: push_calls_Cons)
qed

lemma on_mesh_rx_calls:
  assumes "length payload \<le> PKT_MAX_PAYLOAD"
  shows "\<exists>oks. granted st (ble_log b) (s_tx_val_handle b) (src @ payload) (subscribers b) oks \<and>
    ble_bridge_on_mesh_rx st payload src b =
      b\<lparr>ble_log := ble_log b @ push_calls (s_tx_val_handle b) (src @ payload) (subscribers b) oks\<rparr>"
proof (cases "s_subscriber_count b = 0")
  case True
  then show ?thesis by (simp add: ble_bridge_on_mesh_rx_def subscribers_def push_calls_def granted_def)
next
  case False
  then have "ble_bridge_on_mesh_rx st payload src b = notify_loop st (src @ payload) (subscribers b) b"
    using assms by (simp add: ble_bridge_on_mesh_rx_def subscribers_def Let_def)
  with notify_loop_calls [of st b "src @ payload" "subscribers b"] show ?thesis by simp
qed

lemma push_calls_granted: "(c, True) \<in> set (zip cs oks) \<Longrightarrow> NotifyCustom c v buf \<in> set (push_calls v buf cs oks)"
  by (auto simp: push_calls_def intro!: bexI [of _ "(c, True)"])

text \<open>When the stack has buffers, everybody is reached.\<close>

lemma push_reaches_all:
  assumes "length payload \<le> PKT_MAX_PAYLOAD" "\<forall>log. answer st log (MbufFromFlat (src @ payload)) = 0" "c \<in> set (subscribers b)"
  shows "NotifyCustom c (s_tx_val_handle b) (src @ payload) \<in> set (ble_log (ble_bridge_on_mesh_rx st payload src b))"
proof -
  from on_mesh_rx_calls [OF assms(1)] obtain oks where
    g: "granted st (ble_log b) (s_tx_val_handle b) (src @ payload) (subscribers b) oks" and
    r: "ble_bridge_on_mesh_rx st payload src b =
      b\<lparr>ble_log := ble_log b @ push_calls (s_tx_val_handle b) (src @ payload) (subscribers b) oks\<rparr>" by blast
  from assms(3) obtain i where "i < length (subscribers b)" "subscribers b ! i = c" by (auto simp: in_set_conv_nth)
  then have "(c, True) \<in> set (zip (subscribers b) oks)"
    using g assms(2) by (auto simp: granted_def set_zip intro!: exI [of _ i])
  then show ?thesis by (simp add: r push_calls_granted)
qed

section \<open>A concrete stack\<close>

definition toy_nimble :: nimble where
  "toy_nimble = \<lparr>nimble_port_init = ESP_OK, answer = (\<lambda>_ _. 0), gap_device_name = (\<lambda>_. DEVICE_NAME),
     inferred_addr = (\<lambda>_. 0), mbuf_to_flat = (\<lambda>om cap. if length om \<le> cap then Some om else None)\<rparr>"

definition toy_ble :: ble where
  "toy_ble = \<lparr>s_tx_val_handle = 7, s_own_addr_type = 0, s_subscriber_conns = [1, 0, 0], s_subscriber_count = 1,
     ble_hs_cfg = \<lparr>callbacks_set = True, sm_bonding = True, sm_mitm = False, sm_sc = True, sm_our_key_dist = [],
       sm_their_key_dist = []\<rparr>, ble_log = []\<rparr>"

lemma toy_nimble_documented [simp]: "to_flat_documented toy_nimble"
  by (simp add: to_flat_documented_def toy_nimble_def)

lemma toy_ble_ok [simp]: "ble_ok toy_ble" "subscribers toy_ble = [1]"
  by (simp_all add: ble_ok_def subscribers_def toy_ble_def BLE_MAX_SUBSCRIBERS_def)

section \<open>Properties\<close>

text \<open>Property C31: the subscribers of the bridge. Whatever events the stack reports, in whatever
  order, the connections in the array up to its count are those of a set with three places under
  the subscriptions, unsubscriptions and disconnections among the events: never more than three,
  none twice, a fourth is not taken, and one who left makes room.\<close>
theorem ble_subscribers_refine:
  assumes "ble_ok b"
  shows "ble_ok (fold (ble_gap_event st) evs b) \<and>
    set (subscribers (fold (ble_gap_event st) evs b)) =
      run_ops (bounded_insert BLE_MAX_SUBSCRIBERS) (\<lambda>k S. S - {k})
        (concat (map (event_ops (s_tx_val_handle b)) evs)) (set (subscribers b)) \<and>
    card (set (subscribers (fold (ble_gap_event st) evs b))) \<le> 3"
proof -
  have "ble_ok (fold (ble_gap_event st) evs b) \<and>
    set (subscribers (fold (ble_gap_event st) evs b)) =
      run_ops (bounded_insert BLE_MAX_SUBSCRIBERS) (\<lambda>k S. S - {k})
        (concat (map (event_ops (s_tx_val_handle b)) evs)) (set (subscribers b))"
    using assms
  proof (induction evs arbitrary: b)
    case (Cons ev evs)
    from Cons.IH [OF event_members(1) [OF Cons.prems]] show ?case
      using event_list [of st ev b] by (simp add: event_members(2) [OF Cons.prems] run_ops_append)
  qed simp
  moreover from this have "card (set (subscribers (fold (ble_gap_event st) evs b))) \<le> 3"
    using subscribers.ok_card by (metis BLE_MAX_SUBSCRIBERS_def)
  ultimately show ?thesis by blast
qed

theorem ble_subscribers_refine_witness:
  "set (subscribers (fold (ble_gap_event toy_nimble)
     [BLE_GAP_EVENT_SUBSCRIBE 2 7 True, BLE_GAP_EVENT_SUBSCRIBE 5 6 True, BLE_GAP_EVENT_DISCONNECT 1] toy_ble)) = {2}"
proof -
  have v: "s_tx_val_handle toy_ble = 7" by (simp add: toy_ble_def)
  show ?thesis
    unfolding conjunct1 [OF conjunct2 [OF ble_subscribers_refine [OF toy_ble_ok(1)]]] v toy_ble_ok(2)
    by (auto simp: bounded_insert_def BLE_MAX_SUBSCRIBERS_def)
qed

text \<open>Property C32: a message from the mesh is pushed to every subscriber, once each, in the order of
  the array: for each one a buffer is asked for, and exactly if the stack grants it at that point
  (\<open>oks\<close>) a notification with the sender's ID in front of the message goes to that connection; a
  subscriber whose buffer is not granted is skipped, whatever happened before, and the others are
  still served. Nothing else of the bridge changes; without subscribers nothing happens at all, and
  the message is gone.\<close>
theorem ble_push_all:
  assumes "length src = PKT_NODE_ID_LEN" and "length payload \<le> PKT_MAX_PAYLOAD"
  shows "\<exists>oks. length oks = length (subscribers b) \<and>
    (\<forall>i < length (subscribers b). oks ! i \<longleftrightarrow>
       answer st (ble_log b @ push_calls (s_tx_val_handle b) (src @ payload) (take i (subscribers b)) (take i oks))
         (MbufFromFlat (src @ payload)) = 0) \<and>
    ble_bridge_on_mesh_rx st payload src b =
      b\<lparr>ble_log := ble_log b @ push_calls (s_tx_val_handle b) (src @ payload) (subscribers b) oks\<rparr> \<and>
    ((\<forall>log. answer st log (MbufFromFlat (src @ payload)) = 0) \<longrightarrow>
       (\<forall>c \<in> set (subscribers b). NotifyCustom c (s_tx_val_handle b) (src @ payload)
          \<in> set (ble_log (ble_bridge_on_mesh_rx st payload src b))))"
  using on_mesh_rx_calls [OF assms(2), of st b src] push_reaches_all [OF assms(2), of st src _ b]
  by (auto simp: granted_def)

theorem ble_push_all_witness:
  "NotifyCustom 1 7 (replicate 8 3 @ [65, 66]) \<in> set (ble_log (ble_bridge_on_mesh_rx toy_nimble [65, 66] (replicate 8 3) toy_ble))"
proof -
  have "length (replicate 8 (3 :: byte)) = PKT_NODE_ID_LEN" "length [65, 66 :: byte] \<le> PKT_MAX_PAYLOAD"
    by (simp_all add: PKT_NODE_ID_LEN_def PKT_MAX_PAYLOAD_def)
  from ble_push_all [OF this, of toy_ble toy_nimble] show ?thesis
    by (auto simp: toy_nimble_def toy_ble_def subscribers_def)
qed

text \<open>A write of a phone. A read, or a value longer than an ID and 200 bytes, is an
  error of the stack's kind; a value without a message an error of its length; neither reaches the
  mesh. Every other value is one \<open>mesh_send\<close> to the ID in front with all the rest as the message, and
  the phone is told that it succeeded whatever \<open>mesh_send\<close> returned.\<close>
theorem ble_write_sends:
  assumes "to_flat_documented st"
  shows "gatt_svr_chr_access st lib h op om n =
    (if op \<noteq> BLE_GATT_ACCESS_OP_WRITE_CHR \<or> length om > 208 then (BLE_ATT_ERR_UNLIKELY, n)
     else if length om \<le> 8 then (BLE_ATT_ERR_INVALID_ATTR_VALUE_LEN, n)
     else (ATT_OK, snd (mesh_send lib h (take 8 om) (drop 8 om) n)))"
proof -
  have "length om \<le> 208 \<Longrightarrow> take ((length om - 8) mod 256) (drop 8 om) = drop 8 om" by simp
  with assms show ?thesis
    by (simp add: gatt_svr_chr_access_def to_flat_documented_def PKT_NODE_ID_LEN_def PKT_MAX_PAYLOAD_def
      case_prod_beta Let_def)
qed

theorem ble_write_sends_witness:
  "gatt_svr_chr_access toy_nimble toy_signal ample BLE_GATT_ACCESS_OP_WRITE_CHR (replicate 8 3 @ [65]) toy_node =
     (ATT_OK, snd (mesh_send toy_signal ample (replicate 8 3) [65] toy_node))"
  using ble_write_sends [OF toy_nimble_documented, of toy_signal ample BLE_GATT_ACCESS_OP_WRITE_CHR "replicate 8 3 @ [65]" toy_node]
  by simp

text \<open>The bridge stays visible. After a connection (successful or not), a disconnection
  and the end of an advertising period, the last thing the bridge does is to start advertising
  under its own address, unless the stack refuses the advertised data; after a successful
  connection it first asks for encryption of that connection. Other events make no calls.\<close>
theorem ble_stays_visible:
  "(let calls = drop (length (ble_log b)) (ble_log (ble_gap_event st ev b));
        adv = (\<lambda>log. AdvSetFields [BLE_HS_ADV_F_DISC_GEN, BLE_HS_ADV_F_BREDR_UNSUP] (take (length (gap_device_name st log) mod 256) (gap_device_name st log)));
        start = (\<lambda>log. if answer st log (adv log) = 0 then [adv log, AdvStart (s_own_addr_type b)] else [adv log])
    in case ev of
      BLE_GAP_EVENT_CONNECT status c \<Rightarrow>
        (if status = 0 then calls = SecurityInitiate c # start (ble_log b @ [SecurityInitiate c]) else calls = start (ble_log b))
    | BLE_GAP_EVENT_DISCONNECT c \<Rightarrow> calls = start (ble_log b)
    | BLE_GAP_EVENT_ADV_COMPLETE \<Rightarrow> calls = start (ble_log b)
    | _ \<Rightarrow> calls = [])"
proof -
  have own: "s_own_addr_type (subscriber_remove c b) = s_own_addr_type b" for c
    by (simp add: subscriber_remove_def split: option.split)
  show ?thesis
    by (cases ev) (simp_all add: ble_advertise_def case_prod_beta Let_def own)
qed

end
