(* ===== verification/Board.thy ===== *)
theory Board
  imports Sx1262
begin

text \<open>
  The wiring of the board, \<open>firmware/components/board/board.c\<close>: pins, the SPI bus and the radio on
  it. The drivers are ESP-IDF, outside the repository: their calls are recorded in order, with
  their arguments, and what they answer is a parameter.
\<close>

section \<open>Calls of the drivers\<close>

datatype gpio_mode = GPIO_MODE_OUTPUT | GPIO_MODE_INPUT

record gpio_config =
  pin_bit_mask :: nat
  gpio_mode :: gpio_mode
  intr_posedge :: bool

record spi_bus_config =
  mosi_io_num :: int
  miso_io_num :: int
  sclk_io_num :: int
  quadwp_io_num :: int
  quadhd_io_num :: int
  max_transfer_sz :: nat

record spi_device_config =
  clock_speed_hz :: nat
  spi_mode :: nat
  spics_io_num :: int
  queue_size :: nat

datatype board_call =
    GpioConfig gpio_config
  | GpioSetLevel nat nat
  | SpiBusInitialize spi_bus_config
  | SpiBusAddDevice spi_device_config

text \<open>\<open>idf_device\<close>: what \<open>spi_bus_add_device\<close> leaves in the handle it is given.\<close>

record idf =
  idf_answer :: "board_call list \<Rightarrow> board_call \<Rightarrow> esp_err"
  idf_device :: "board_call list \<Rightarrow> nat option \<Rightarrow> nat option"

record board =
  s_radio_spi :: "nat option"
  board_log :: "board_call list"

definition BOARD_PIN_MOSI :: nat where "BOARD_PIN_MOSI = 11"
definition BOARD_PIN_MISO :: nat where "BOARD_PIN_MISO = 13"
definition BOARD_PIN_SCLK :: nat where "BOARD_PIN_SCLK = 12"
definition BOARD_PIN_RADIO_NSS :: nat where "BOARD_PIN_RADIO_NSS = 10"
definition BOARD_PIN_RADIO_RESET :: nat where "BOARD_PIN_RADIO_RESET = 9"
definition BOARD_PIN_RADIO_BUSY :: nat where "BOARD_PIN_RADIO_BUSY = 8"
definition BOARD_PIN_RADIO_DIO1 :: nat where "BOARD_PIN_RADIO_DIO1 = 7"

definition board_do :: "idf \<Rightarrow> board_call \<Rightarrow> board \<Rightarrow> esp_err \<times> board" where
  "board_do sdk c b = (idf_answer sdk (board_log b) c, b\<lparr>board_log := board_log b @ [c]\<rparr>)"

section \<open>Bring-up\<close>

definition board_bus_cfg :: spi_bus_config where
  "board_bus_cfg = \<lparr>mosi_io_num = int BOARD_PIN_MOSI, miso_io_num = int BOARD_PIN_MISO, sclk_io_num = int BOARD_PIN_SCLK,
     quadwp_io_num = -1, quadhd_io_num = -1, max_transfer_sz = 256\<rparr>"

definition board_dev_cfg :: spi_device_config where
  "board_dev_cfg = \<lparr>clock_speed_hz = 8 * 1000 * 1000, spi_mode = 0, spics_io_num = int BOARD_PIN_RADIO_NSS, queue_size = 4\<rparr>"

definition board_init :: "idf \<Rightarrow> board \<Rightarrow> esp_err \<times> board" where
  "board_init sdk b =
     (let (_, b) = board_do sdk (GpioConfig \<lparr>pin_bit_mask = 2 ^ BOARD_PIN_RADIO_RESET, gpio_mode = GPIO_MODE_OUTPUT, intr_posedge = False\<rparr>) b;
          (_, b) = board_do sdk (GpioSetLevel BOARD_PIN_RADIO_RESET 1) b;
          (_, b) = board_do sdk (GpioConfig \<lparr>pin_bit_mask = 2 ^ BOARD_PIN_RADIO_BUSY, gpio_mode = GPIO_MODE_INPUT, intr_posedge = False\<rparr>) b;
          (_, b) = board_do sdk (GpioConfig \<lparr>pin_bit_mask = 2 ^ BOARD_PIN_RADIO_DIO1, gpio_mode = GPIO_MODE_INPUT, intr_posedge = True\<rparr>) b;
          (err, b) = board_do sdk (SpiBusInitialize board_bus_cfg) b
      in if err \<noteq> ESP_OK then (err, b)
         else let (err, b) = board_do sdk (SpiBusAddDevice board_dev_cfg) b
              in (err, b\<lparr>s_radio_spi := idf_device sdk (board_log b) (s_radio_spi b)\<rparr>))"

definition board_radio_spi :: "board \<Rightarrow> nat option" where
  "board_radio_spi b = s_radio_spi b"

section \<open>The bus and the driver\<close>

text \<open>A frame of the greatest length makes a transaction that is longer than the size the bus is
  configured for.\<close>

lemma longest_frame_exceeds_bus:
  assumes "length buf = 255"
  shows "\<exists>t \<in> set (tx_commands buf). length t = 257 \<and> max_transfer_sz board_bus_cfg < length t"
  using assms by (simp add: tx_commands_def board_bus_cfg_def)

text \<open>The calls of a bring-up, and how it ends: the reset line is released and the pins are set up
  before the bus is used, the device is only added to a bus that came up, and the handle is only
  written then.\<close>

definition board_calls :: "board_call list" where
  "board_calls = [GpioConfig \<lparr>pin_bit_mask = 512, gpio_mode = GPIO_MODE_OUTPUT, intr_posedge = False\<rparr>, GpioSetLevel 9 1,
     GpioConfig \<lparr>pin_bit_mask = 256, gpio_mode = GPIO_MODE_INPUT, intr_posedge = False\<rparr>,
     GpioConfig \<lparr>pin_bit_mask = 128, gpio_mode = GPIO_MODE_INPUT, intr_posedge = True\<rparr>,
     SpiBusInitialize board_bus_cfg]"

lemma board_init_cases:
  "board_init sdk b =
     (let e = idf_answer sdk (board_log b @ take 4 board_calls) (SpiBusInitialize board_bus_cfg);
          log = board_log b @ board_calls
      in if e \<noteq> ESP_OK then (e, b\<lparr>board_log := log\<rparr>)
         else (idf_answer sdk log (SpiBusAddDevice board_dev_cfg),
           b\<lparr>board_log := log @ [SpiBusAddDevice board_dev_cfg],
             s_radio_spi := idf_device sdk (log @ [SpiBusAddDevice board_dev_cfg]) (s_radio_spi b)\<rparr>))"
  by (simp add: board_init_def board_do_def board_calls_def Let_def BOARD_PIN_RADIO_RESET_def BOARD_PIN_RADIO_BUSY_def
    BOARD_PIN_RADIO_DIO1_def)

lemma board_init_success:
  assumes "board_init sdk b = (ESP_OK, b')"
  shows "board_log b' = board_log b @ board_calls @ [SpiBusAddDevice board_dev_cfg]"
proof -
  have "board_log (snd (board_init sdk b)) = board_log b @ board_calls @ [SpiBusAddDevice board_dev_cfg]"
    using assms by (auto simp: board_init_cases Let_def split: if_splits)
  then show ?thesis by (simp add: assms)
qed

end
