(* ===== verification/Bundles.thy ===== *)
theory Bundles
  imports Sessions
begin

text \<open>
  The key bundle on the wire and the life of an identity: what is parsed and written, which
  prekey a bundle hands out, when an identity is complete, and how messages are framed
  (\<open>pcrypto.c\<close>, on the definitions of \<open>PCrypto\<close>).
\<close>

section \<open>Reads and writes on a healthy file system\<close>

lemma nvs_get_u32_healthy:
  assumes "fs_healthy fs"
  shows "nvs_get_u32 NVS_HANDLE k old fs = (case nvs_read k fs of Inl e \<Rightarrow> (e, old)
    | Inr d \<Rightarrow> if length d \<le> 4 then (ESP_OK, from_le32 (d @ drop (length d) (le32 old))) else (ESP_ERR_INVALID_SIZE, old))"
  by (simp add: nvs_get_u32_def nvs_get_blob_healthy [OF assms] nvs_read_healthy [OF assms] split: option.split)

lemma nvs_put_healthy:
  assumes "fs_healthy fs" "nvs_key_ok k" "length v \<le> NVS_MAX_LEN"
  shows "fs_healthy (snd (nvs_set_blob NVS_HANDLE k v fs))"
    "nvs_key_ok k' \<Longrightarrow> nvs_read k' (snd (nvs_set_blob NVS_HANDLE k v fs)) = (if k' = k then Inr v else nvs_read k' fs)"
  using shim.put_keeps [OF assms] shim.get_put [OF assms] by simp_all

section \<open>Making a bundle\<close>

lemma local_bundle_shape:
  assumes "length (data_dir (nvs w)) < 512" "pcrypto_local_bundle lib h w = Some (Inr data, w')"
  obtains reg pk where "nvs_get_u32 NVS_HANDLE ''reg_id'' 0 (nvs w') = (ESP_OK, reg)"
    "find_unused_pre_key lib h 64 (nvs w') = Some (Some pk)" "finish_bundle lib h reg pk (nvs w') = Inr data"
proof -
  obtain e reg where r: "nvs_get_u32 NVS_HANDLE ''reg_id'' 0 (nvs w) = (e, reg)" by fastforce
  with assms(2) have e: "e = ESP_OK" by (auto simp: pcrypto_local_bundle_def split: if_splits)
  from assms(2) obtain found where f: "find_unused_pre_key lib h 64 (nvs w) = Some found"
    by (auto simp: pcrypto_local_bundle_def r e bind_eq_Some_conv)
  show thesis
  proof (cases found)
    case (Some pk)
    with assms(2) have "w = w' \<and> finish_bundle lib h reg pk (nvs w) = Inr data"
      by (auto simp: pcrypto_local_bundle_def r e f)
    then have ww: "w' = w" and fin: "finish_bundle lib h reg pk (nvs w) = Inr data" by auto
    show thesis by (rule that [of reg pk]) (use r e f fin Some in \<open>simp_all add: ww\<close>)
  next
    case None
    obtain e2 w2 where b: "generate_pre_key_batch lib h (next_pre_key_id (nvs w)) PRE_KEY_BATCH_SIZE w = (e2, w2)" by fastforce
    from batch_confined [OF assms(1), of lib h "next_pre_key_id (nvs w)" PRE_KEY_BATCH_SIZE]
    have "confined batch_key (nvs w) (nvs w2)" by (simp add: b)
    from confined_reads(3) [OF this keys_ok(7)] r e
    have r2: "nvs_get_u32 NVS_HANDLE ''reg_id'' 0 (nvs w2) = (ESP_OK, reg)" by (simp add: batch_key_def)
    from assms(2) None obtain pk where "find_unused_pre_key lib h 64 (nvs w2) = Some (Some pk)"
      "finish_bundle lib h reg pk (nvs w2) = Inr data" "w' = w2"
      by (auto simp: pcrypto_local_bundle_def r e f b bind_eq_Some_conv split: if_splits option.splits)
    with that [of reg pk] r2 show thesis by simp
  qed
qed

text \<open>The signed prekey, its signature and the identity key of a bundle are those of the store.\<close>

definition bundle_of_store :: "signal_lib \<Rightarrow> heap \<Rightarrow> host_fs \<Rightarrow> bundle_fields \<Rightarrow> bool" where
  "bundle_of_store lib h fs b \<longleftrightarrow>
     (\<exists>n. nvs_get_blob_len NVS_HANDLE (spk_key SIGNED_PRE_KEY_ID) fs = Inr n \<and>
        signed_pre_key_parts lib (read_blob h (spk_key SIGNED_PRE_KEY_ID) n fs) = Some (bf_spk_id b, bf_spk_pub b, bf_sig b)) \<and>
     (\<exists>n. nvs_get_blob_len NVS_HANDLE ''id_pub'' fs = Inr n \<and> bf_idpub b = read_blob h ''id_pub'' n fs)"

lemma bundle_of_store_healthy:
  assumes "fs_healthy fs"
  shows "bundle_of_store lib h fs b \<longleftrightarrow>
    (\<exists>rec. nvs_read (spk_key SIGNED_PRE_KEY_ID) fs = Inr rec \<and>
       signed_pre_key_parts lib rec = Some (bf_spk_id b, bf_spk_pub b, bf_sig b)) \<and>
    nvs_read ''id_pub'' fs = Inr (bf_idpub b)"
proof -
  have r: "nvs_get_blob_len NVS_HANDLE k fs = Inr n \<longleftrightarrow> (\<exists>d. nvs_read k fs = Inr d \<and> n = length d)"
    "nvs_read k fs = Inr d \<Longrightarrow> read_blob h k (length d) fs = d" for k n d
    using read_blob_healthy [OF assms, of k n h] nvs_get_healthy [OF assms, of k d]
    by (auto simp: nvs_len_healthy [OF assms] read_blob_def split: sum.splits)
  show ?thesis by (auto simp: bundle_of_store_def r)
qed

lemma finish_bundle_image:
  assumes "finish_bundle lib h reg pk fs = Inr data"
  obtains b where "data = bundle_image b" "blobs_fit b" "length data \<le> PCRYPTO_BUNDLE_MAX_LEN"
    "bf_reg_id b = reg" "bf_pre_key_id b = fst pk" "bf_pre_key_pub b = snd pk" "bundle_of_store lib h fs b"
proof -
  from assms obtain n m i spk sig where s: "nvs_get_blob_len NVS_HANDLE (spk_key SIGNED_PRE_KEY_ID) fs = Inr n"
    "signed_pre_key_parts lib (read_blob h (spk_key SIGNED_PRE_KEY_ID) n fs) = Some (i, spk, sig)"
    "nvs_get_blob_len NVS_HANDLE ''id_pub'' fs = Inr m"
    and p: "put_bundle reg (fst pk) (snd pk) i spk sig (read_blob h ''id_pub'' m fs) = Some data"
    by (auto simp: finish_bundle_def split: sum.splits if_splits option.splits prod.splits)
  let ?b = "\<lparr>bf_reg_id = reg, bf_pre_key_id = fst pk, bf_pre_key_pub = snd pk, bf_spk_id = i,
    bf_spk_pub = spk, bf_sig = sig, bf_idpub = read_blob h ''id_pub'' m fs\<rparr>"
  have "bundle_of_store lib h fs ?b" using s by (simp add: bundle_of_store_def)
  with p put_bundle_image [of ?b data] show thesis by (intro that [of ?b]) auto
qed

lemma find_unused_returns:
  assumes "next_pre_key_id fs \<noteq> 0"
  shows "\<exists>r. find_unused_pre_key lib h cap fs = Some r \<and>
    (case r of Some (j, pub) \<Rightarrow> 1 \<le> j \<and> j < next_pre_key_id fs \<and> try_pre_key lib h cap fs j = Some pub \<and>
        (\<forall>k. 1 \<le> k \<and> k < j \<longrightarrow> try_pre_key lib h cap fs k = None)
     | None \<Rightarrow> \<forall>k. 1 \<le> k \<and> k < next_pre_key_id fs \<longrightarrow> try_pre_key lib h cap fs k = None)"
proof -
  let ?n = "next_pre_key_id fs"
  have u: "unat (?n - 1) = unat ?n - 1" "0 < unat ?n"
    using assms by (simp_all add: unat_minus_one unat_gt_0)
  have "unat ?n < 2 ^ 32" using unsigned_less [of ?n, where 'a = nat] by simp
  with u have lt: "?n - 1 < - 1"
    by (simp add: word_less_nat_alt unsigned_minus_1_eq_mask mask_eq_exp_minus_1)
  have le: "j \<le> ?n - 1 \<longleftrightarrow> j < ?n" for j
    using u by (auto simp: word_le_nat_alt word_less_nat_alt)
  show ?thesis
    using find_loop_upto [OF lt, of "try_pre_key lib h cap fs" 1] unfolding find_unused_pre_key_def le .
qed

lemma prekey_batch_facts:
  assumes "key_helper_documented lib" "fs_healthy (nvs w)" "unat (next_pre_key_id (nvs w)) + PRE_KEY_BATCH_SIZE < 2 ^ 24 - 1"
    and "generate_pre_key_batch lib h (next_pre_key_id (nvs w)) PRE_KEY_BATCH_SIZE w = (ESP_OK, w')"
  shows "next_pre_key_id (nvs w') \<noteq> 0" "next_pre_key_id (nvs w) < next_pre_key_id (nvs w')"
    "contains_pre_key (next_pre_key_id (nvs w)) (nvs w')" "fs_healthy (nvs w')"
proof -
  let ?n = "next_pre_key_id (nvs w)"
  note b = batch_healthy [OF assms]
  have "unat (next_pre_key_id (nvs w')) = unat ?n + 20"
    using assms(3) by (simp add: b(2) PRE_KEY_BATCH_SIZE_def unat_word_ariths)
  then show "?n < next_pre_key_id (nvs w')" "next_pre_key_id (nvs w') \<noteq> 0"
    by (auto simp: word_less_nat_alt)
  from b(3) [of 0] show "contains_pre_key ?n (nvs w')"
    by (auto simp: contains_healthy(2) [OF b(1)] PRE_KEY_BATCH_SIZE_def)
  show "fs_healthy (nvs w')" by (rule b(1))
qed

section \<open>The first start\<close>

text \<open>The first start up to the state \<open>w3\<close> in which the prekeys are generated, and what follows.\<close>

lemma identity_upto_batch:
  assumes "key_helper_documented lib" "fs_healthy (nvs w)" "nvs_read ''id_pub'' (nvs w) = Inl ESP_ERR_NOT_FOUND"
    and "fst (run_sg h (generate_identity_key_pair lib) w) \<noteq> None"
  obtains pub priv reg w3 where "fs_healthy (nvs w3)" "nvs_read ''id_pub'' (nvs w3) = Inr pub"
    "nvs_read ''id_priv'' (nvs w3) = Inr priv" "nvs_read ''reg_id'' (nvs w3) = Inr (le32 reg)"
    "\<And>k. nvs_key_ok k \<Longrightarrow> k \<notin> {''id_pub'', ''id_priv'', ''reg_id''} \<Longrightarrow> nvs_read k (nvs w3) = nvs_read k (nvs w)"
    "identity_ensure_generated lib h w = (case generate_pre_key_batch lib h 1 PRE_KEY_BATCH_SIZE w3 of (e, w4) \<Rightarrow>
       if e \<noteq> ESP_OK then (ESP_FAIL, w4) else finish_identity lib h (pub, priv) w4)"
proof -
  obtain pub priv w1 where g: "run_sg h (generate_identity_key_pair lib) w = (Some (pub, priv), w1)"
    using assms(4) by (metis eq_fst_iff not_None_eq prod.exhaust_sel)
  have d: "random_only (generate_identity_key_pair lib)" "random_only (generate_registration_id lib)"
    and lens: "length pub \<le> NVS_MAX_LEN" "length priv \<le> NVS_MAX_LEN"
    using assms(1) g unfolding key_helper_documented_def by (metis fst_conv)+
  from random_only_nvs [OF d(1), of h w] have n1: "nvs w1 = nvs w" by (simp add: g)
  define fa where "fa = snd (nvs_set_blob NVS_HANDLE ''id_pub'' pub (nvs w))"
  note a = nvs_put_healthy [OF assms(2) keys_ok(5) lens(1), folded fa_def]
  define fb where "fb = snd (nvs_set_blob NVS_HANDLE ''id_priv'' priv fa)"
  note b = nvs_put_healthy [OF a(1) keys_ok(6) lens(2), folded fb_def]
  obtain reg w2 where r: "run_sg h (generate_registration_id lib) (w1\<lparr>nvs := fb\<rparr>) = (reg, w2)" by fastforce
  from random_only_nvs [OF d(2), of h "w1\<lparr>nvs := fb\<rparr>"] have n2: "nvs w2 = fb" by (simp add: r)
  define w3 where "w3 = w2\<lparr>nvs := snd (nvs_set_u32 NVS_HANDLE ''reg_id'' reg (nvs w2))\<rparr>"
  note c = nvs_set_u32_healthy [OF b(1) keys_ok(7), where v = reg]
  have n3: "nvs w3 = snd (nvs_set_u32 NVS_HANDLE ''reg_id'' reg fb)" by (simp add: w3_def n2)
  show thesis
  proof (rule that [of w3 pub priv reg])
    show "fs_healthy (nvs w3)" unfolding n3 by (rule c(1))
    show "identity_ensure_generated lib h w = (case generate_pre_key_batch lib h 1 PRE_KEY_BATCH_SIZE w3 of (e, w4) \<Rightarrow>
       if e \<noteq> ESP_OK then (ESP_FAIL, w4) else finish_identity lib h (pub, priv) w4)"
      by (simp add: identity_ensure_generated_def g n1 r nvs_len_healthy assms(2,3) Let_def
        flip: fa_def fb_def w3_def)
  qed (simp_all add: n3 c(2) b(2) a(2))
qed

lemma finish_identity_writes:
  assumes "key_helper_documented lib" "finish_identity lib h kp w = (e, w')"
  obtains spk where "length spk \<le> NVS_MAX_LEN"
    "nvs w' = snd (nvs_set_blob NVS_HANDLE (spk_key SIGNED_PRE_KEY_ID) spk (nvs w))"
proof -
  obtain us p where t: "esp_timer_get_time (plat w) = (us, p)" by fastforce
  define prog where "prog = generate_signed_pre_key lib kp SIGNED_PRE_KEY_ID (word_of_int (us div 1000))"
  obtain spk w1 where s: "run_sg h prog (w\<lparr>plat := p\<rparr>) = (spk, w1)" by fastforce
  have "random_only prog" "length (fst (run_sg h prog (w\<lparr>plat := p\<rparr>))) \<le> NVS_MAX_LEN"
    using assms(1) unfolding key_helper_documented_def prog_def by blast+
  with random_only_nvs [of prog h "w\<lparr>plat := p\<rparr>"] have "length spk \<le> NVS_MAX_LEN" "nvs w1 = nvs w"
    by (simp_all add: s)
  with assms(2) that [of spk] show thesis
    by (auto simp: finish_identity_def t s nvs_commit_def simp flip: prog_def)
qed

lemma identity_first_start:
  assumes "key_helper_documented lib" "fs_healthy (nvs w)" "nvs_read ''id_pub'' (nvs w) = Inl ESP_ERR_NOT_FOUND"
    and "identity_ensure_generated lib h w = (ESP_OK, w')"
  obtains pub priv reg w3 w4 spk where "fs_healthy (nvs w3)" "nvs_read ''id_pub'' (nvs w3) = Inr pub"
    "nvs_read ''id_priv'' (nvs w3) = Inr priv" "nvs_read ''reg_id'' (nvs w3) = Inr (le32 reg)"
    "generate_pre_key_batch lib h 1 PRE_KEY_BATCH_SIZE w3 = (ESP_OK, w4)" "length spk \<le> NVS_MAX_LEN"
    "nvs w' = snd (nvs_set_blob NVS_HANDLE (spk_key SIGNED_PRE_KEY_ID) spk (nvs w4))"
proof -
  have "fst (run_sg h (generate_identity_key_pair lib) w) \<noteq> None"
    using assms(2-4) by (auto simp: identity_ensure_generated_def nvs_len_healthy split: prod.splits option.splits)
  note start = identity_upto_batch [OF assms(1-3) this]
  obtain pub priv reg w3 where w3: "fs_healthy (nvs w3)"
    "nvs_read ''id_pub'' (nvs w3) = Inr pub" "nvs_read ''id_priv'' (nvs w3) = Inr priv"
    "nvs_read ''reg_id'' (nvs w3) = Inr (le32 reg)" and
    old: "\<And>k. nvs_key_ok k \<Longrightarrow> k \<notin> {''id_pub'', ''id_priv'', ''reg_id''} \<Longrightarrow> nvs_read k (nvs w3) = nvs_read k (nvs w)" and
    i: "identity_ensure_generated lib h w = (case generate_pre_key_batch lib h 1 PRE_KEY_BATCH_SIZE w3 of (e, w4) \<Rightarrow>
       if e \<noteq> ESP_OK then (ESP_FAIL, w4) else finish_identity lib h (pub, priv) w4)"
    by (rule start, rule that)
  obtain e w4 where g4: "generate_pre_key_batch lib h 1 PRE_KEY_BATCH_SIZE w3 = (e, w4)" by fastforce
  with assms(4) i have e: "e = ESP_OK" and f: "finish_identity lib h (pub, priv) w4 = (ESP_OK, w')"
    by (auto split: if_splits)
  from finish_identity_writes [OF assms(1) f] obtain spk where "length spk \<le> NVS_MAX_LEN"
    "nvs w' = snd (nvs_set_blob NVS_HANDLE (spk_key SIGNED_PRE_KEY_ID) spk (nvs w4))" .
  from that [OF w3 g4 [unfolded e] this] show thesis .
qed

section \<open>The life of the prekeys\<close>

text \<open>The prekey numbers whose record a step changes.\<close>

definition changed_pre_keys :: "host_fs \<Rightarrow> host_fs \<Rightarrow> u32 set" where
  "changed_pre_keys fs fs' = {i. nvs_read (pk_key i) fs' \<noteq> nvs_read (pk_key i) fs}"

text \<open>What happens to a node after its first start: it makes bundles (with enough numbers left),
  it starts again, and the library runs on the store callbacks, using and removing prekeys; with
  the prekeys that each bundle generated.\<close>

inductive node_life :: "signal_lib \<Rightarrow> heap \<Rightarrow> crypto \<Rightarrow> u32 set list \<Rightarrow> crypto \<Rightarrow> bool"
  for lib :: signal_lib and h :: heap and w0 :: crypto where
  born: "node_life lib h w0 [] w0"
| local_bundle: "node_life lib h w0 Ns w \<Longrightarrow> pcrypto_local_bundle lib h w = Some (r, w') \<Longrightarrow>
    unat (next_pre_key_id (nvs w)) + PRE_KEY_BATCH_SIZE < 2 ^ 24 - 1 \<Longrightarrow>
    node_life lib h w0 (Ns @ [changed_pre_keys (nvs w) (nvs w')]) w'"
| restart: "node_life lib h w0 Ns w \<Longrightarrow> identity_ensure_generated lib h w = (e, w') \<Longrightarrow> node_life lib h w0 Ns w'"
| library: "node_life lib h w0 Ns w \<Longrightarrow> run_sg h (p :: unit sg_prog) w = (x, w') \<Longrightarrow> fs_healthy (nvs w') \<Longrightarrow> node_life lib h w0 Ns w'"

text \<open>A bundle either leaves the store alone or generates one batch at the counter.\<close>

lemma local_bundle_store:
  assumes "key_helper_documented lib" "fs_healthy (nvs w)" "pcrypto_local_bundle lib h w = Some (r, w')"
  shows "nvs w' = nvs w \<or>
    generate_pre_key_batch lib h (next_pre_key_id (nvs w)) PRE_KEY_BATCH_SIZE w = (ESP_OK, w')"
proof -
  let ?n = "next_pre_key_id (nvs w)"
  obtain e2 w2 where b: "generate_pre_key_batch lib h ?n PRE_KEY_BATCH_SIZE w = (e2, w2)" by fastforce
  have "nvs w2 = nvs w" if "e2 \<noteq> ESP_OK"
  proof -
    have "nvs (snd (run_sg h (generate_pre_keys lib ?n PRE_KEY_BATCH_SIZE) w)) = nvs w"
      using assms(1) by (simp add: key_helper_documented_def)
    with b that show ?thesis by (auto simp: generate_pre_key_batch_def Let_def split: prod.splits option.splits)
  qed
  with assms(3) b show ?thesis
    by (auto simp: pcrypto_local_bundle_def bind_eq_Some_conv split: prod.splits if_splits option.splits)
qed

lemma batch_changes:
  assumes "key_helper_documented lib" "fs_healthy (nvs w)" "unat s + n < 2 ^ 24 - 1"
    and "generate_pre_key_batch lib h s n w = (ESP_OK, w')" and "i \<in> changed_pre_keys (nvs w) (nvs w')"
  shows "unat s \<le> unat i \<and> unat i < unat s + n"
proof (rule ccontr)
  assume out: "\<not> (unat s \<le> unat i \<and> unat i < unat s + n)"
  have "pk_key i \<noteq> pk_key (s + of_nat j)" if "j < n" for j
  proof -
    have "unat (s + of_nat j) = unat s + j"
      using assms(3) that by (simp add: unat_word_ariths unat_of_nat take_bit_eq_mod)
    with out that show ?thesis by auto
  qed
  with batch_healthy(4) [OF assms(1-4), of "pk_key i"] assms(5) show False by (simp add: changed_pre_keys_def)
qed

text \<open>It returns as long as the counter is neither 0 nor near its end.\<close>

lemma local_bundle_total:
  assumes "key_helper_documented lib" "fs_healthy (nvs w)" "next_pre_key_id (nvs w) \<noteq> 0"
    "unat (next_pre_key_id (nvs w)) + 20 < 2 ^ 24 - 1"
  shows "\<exists>r w'. pcrypto_local_bundle lib h w = Some (r, w')"
proof -
  let ?n = "next_pre_key_id (nvs w)"
  obtain e2 w2 where b: "generate_pre_key_batch lib h ?n PRE_KEY_BATCH_SIZE w = (e2, w2)" by fastforce
  from find_unused_returns [OF assms(3), of lib h 64] obtain f1 where f1: "find_unused_pre_key lib h 64 (nvs w) = Some f1" by blast
  show ?thesis
  proof (cases "e2 = ESP_OK")
    case False
    then show ?thesis by (auto simp: pcrypto_local_bundle_def f1 b split: prod.split option.split)
  next
    case True
    have "unat ?n + PRE_KEY_BATCH_SIZE < 2 ^ 24 - 1" using assms(4) by (simp add: PRE_KEY_BATCH_SIZE_def)
    from prekey_batch_facts(1) [OF assms(1,2) this b [unfolded True]]
    obtain f2 where "find_unused_pre_key lib h 64 (nvs w2) = Some f2"
      using find_unused_returns [of "nvs w2" lib h 64] by blast
    then show ?thesis by (auto simp: pcrypto_local_bundle_def f1 b split: prod.split option.split)
  qed
qed

text \<open>The invariant: an identity, and a counter above every number ever generated.\<close>

definition life_ok :: "u32 set list \<Rightarrow> crypto \<Rightarrow> bool" where
  "life_ok Ns w \<longleftrightarrow> fs_healthy (nvs w) \<and> (\<exists>pub. nvs_read ''id_pub'' (nvs w) = Inr pub) \<and>
     21 \<le> unat (next_pre_key_id (nvs w)) \<and>
     (\<forall>N \<in> set Ns. \<forall>i \<in> N. 21 \<le> unat i \<and> unat i < unat (next_pre_key_id (nvs w))) \<and>
     (\<forall>i j. i < j \<and> j < length Ns \<longrightarrow> Ns ! i \<inter> Ns ! j = {})"

lemma life_ok_same:
  "life_ok Ns w \<Longrightarrow> fs_healthy (nvs w') \<Longrightarrow> nvs_read ''id_pub'' (nvs w') = nvs_read ''id_pub'' (nvs w) \<Longrightarrow>
    next_pre_key_id (nvs w') = next_pre_key_id (nvs w) \<Longrightarrow> life_ok Ns w'"
  by (simp add: life_ok_def)

lemma life_ok_bundle:
  assumes doc: "key_helper_documented lib" and ok: "life_ok Ns w"
    and b: "pcrypto_local_bundle lib h w = Some (r, w')" and room: "unat (next_pre_key_id (nvs w)) + PRE_KEY_BATCH_SIZE < 2 ^ 24 - 1"
  shows "life_ok (Ns @ [changed_pre_keys (nvs w) (nvs w')]) w'"
proof -
  let ?n = "next_pre_key_id (nvs w)" and ?C = "changed_pre_keys (nvs w) (nvs w')"
  have h: "fs_healthy (nvs w)" using ok by (simp add: life_ok_def)
  have new: "fs_healthy (nvs w') \<and> nvs_read ''id_pub'' (nvs w') = nvs_read ''id_pub'' (nvs w) \<and>
      unat ?n \<le> unat (next_pre_key_id (nvs w')) \<and>
      (\<forall>i \<in> ?C. unat ?n \<le> unat i \<and> unat i < unat (next_pre_key_id (nvs w')))"
    using local_bundle_store [OF doc h b]
  proof
    assume "nvs w' = nvs w"
    with h show ?thesis by (simp add: changed_pre_keys_def)
  next
    assume g: "generate_pre_key_batch lib h ?n PRE_KEY_BATCH_SIZE w = (ESP_OK, w')"
    note k = batch_healthy [OF doc h room g]
    have "unat (next_pre_key_id (nvs w')) = unat ?n + PRE_KEY_BATCH_SIZE"
      using room by (simp add: k(2) unat_word_ariths unat_of_nat take_bit_eq_mod PRE_KEY_BATCH_SIZE_def)
    with k(1) k(4) [of "''id_pub''"] batch_changes [OF doc h room g] show ?thesis by auto
  qed
  have old: "unat i < unat ?n" if "N \<in> set Ns" "i \<in> N" for N i using ok that by (auto simp: life_ok_def)
  have "Ns ! i \<inter> ?C = {}" if "i < length Ns" for i
    using new old [of "Ns ! i"] that by fastforce
  moreover have "\<forall>i j. i < j \<and> j < length Ns \<longrightarrow> Ns ! i \<inter> Ns ! j = {}" using ok by (simp add: life_ok_def)
  ultimately have "\<forall>i j. i < j \<and> j < length (Ns @ [?C]) \<longrightarrow> (Ns @ [?C]) ! i \<inter> (Ns @ [?C]) ! j = {}"
    by (auto simp: nth_append less_Suc_eq)
  with new ok old show ?thesis by (fastforce simp: life_ok_def)
qed

lemma node_life_ok:
  assumes "node_life lib h w0 Ns w" "key_helper_documented lib" "life_ok [] w0"
  shows "life_ok Ns w"
  using assms(1)
proof induction
  case born
  show ?case by (rule assms(3))
next
  case (local_bundle Ns w r w')
  then show ?case using life_ok_bundle [OF assms(2)] by blast
next
  case (restart Ns w e w')
  then have "w' = w" by (auto simp: life_ok_def identity_ensure_generated_def nvs_len_healthy)
  with restart show ?case by simp
next
  case (library Ns w p x w')
  then have "length (data_dir (nvs w)) < 512" by (simp add: life_ok_def fs_healthy_def)
  note c = confined_reads [OF run_sg_confined [OF this, of h p]]
  have "nvs_read ''id_pub'' (nvs w') = nvs_read ''id_pub'' (nvs w)" "next_pre_key_id (nvs w') = next_pre_key_id (nvs w)"
    using c [of "''id_pub''"] c [of "''next_pk_id''"] library.hyps(2) by (simp_all add: next_pre_key_id_def)
  from life_ok_same [OF library.IH library.hyps(3) this] show ?case .
qed

lemma identity_start_pre_keys:
  assumes "key_helper_documented lib" "fs_healthy (nvs w)" "nvs_read ''id_pub'' (nvs w) = Inl ESP_ERR_NOT_FOUND"
    and "identity_ensure_generated lib h w = (ESP_OK, w')"
  shows "life_ok [] w'" "unat (next_pre_key_id (nvs w')) = 21" "i \<in> changed_pre_keys (nvs w) (nvs w') \<Longrightarrow> 1 \<le> unat i \<and> unat i \<le> 20"
proof -
  from assms(3,4) have g: "fst (run_sg h (generate_identity_key_pair lib) w) \<noteq> None"
    by (auto simp: identity_ensure_generated_def nvs_len_healthy [OF assms(2)] split: prod.splits option.splits)
  obtain pub priv reg w3 where w3: "fs_healthy (nvs w3)" "nvs_read ''id_pub'' (nvs w3) = Inr pub" and
    old: "\<And>k. nvs_key_ok k \<Longrightarrow> k \<notin> {''id_pub'', ''id_priv'', ''reg_id''} \<Longrightarrow> nvs_read k (nvs w3) = nvs_read k (nvs w)" and
    i: "identity_ensure_generated lib h w = (case generate_pre_key_batch lib h 1 PRE_KEY_BATCH_SIZE w3 of (e, w4) \<Rightarrow>
       if e \<noteq> ESP_OK then (ESP_FAIL, w4) else finish_identity lib h (pub, priv) w4)"
    by (rule identity_upto_batch [OF assms(1-3) g]) (rule that)
  obtain e w4 where g4: "generate_pre_key_batch lib h 1 PRE_KEY_BATCH_SIZE w3 = (e, w4)" by fastforce
  with assms(4) i have g4: "generate_pre_key_batch lib h 1 PRE_KEY_BATCH_SIZE w3 = (ESP_OK, w4)"
    and f: "finish_identity lib h (pub, priv) w4 = (ESP_OK, w')" by (auto split: if_splits)
  have room: "unat (1 :: u32) + PRE_KEY_BATCH_SIZE < 2 ^ 24 - 1" by (simp add: PRE_KEY_BATCH_SIZE_def)
  note k = batch_healthy [OF assms(1) w3(1) room g4]
  from finish_identity_writes [OF assms(1) f] obtain spk where spk: "length spk \<le> NVS_MAX_LEN"
    "nvs w' = snd (nvs_set_blob NVS_HANDLE (spk_key SIGNED_PRE_KEY_ID) spk (nvs w4))" .
  note p = nvs_put_healthy [OF k(1) keys_ok(4) spk(1)]
  have rd: "nvs_read key (nvs w') = nvs_read key (nvs w4)" if "nvs_key_ok key" "key \<noteq> spk_key SIGNED_PRE_KEY_ID" for key
    using p(2) [OF that(1)] that(2) by (simp add: spk(2))
  have h': "fs_healthy (nvs w')" unfolding spk(2) by (rule p(1))
  have "nvs_read ''id_pub'' (nvs w') = Inr pub" using k(4) [of "''id_pub''"] w3(2) by (simp add: rd)
  moreover have "next_pre_key_id (nvs w') = next_pre_key_id (nvs w4)"
    using rd [of "''next_pk_id''"] by (simp add: next_pre_key_id_def nvs_get_u32_healthy h' k(1))
  then show n: "unat (next_pre_key_id (nvs w')) = 21" by (simp add: k(2) PRE_KEY_BATCH_SIZE_def)
  ultimately show "life_ok [] w'" using h' n by (simp add: life_ok_def)
  assume "i \<in> changed_pre_keys (nvs w) (nvs w')"
  then have "i \<in> changed_pre_keys (nvs w3) (nvs w4)" by (simp add: changed_pre_keys_def rd old)
  from batch_changes [OF assms(1) w3(1) room g4 this] show "1 \<le> unat i \<and> unat i \<le> 20"
    by (simp add: PRE_KEY_BATCH_SIZE_def)
qed

section \<open>A concrete node\<close>

text \<open>A node with one prekey left.\<close>

definition ex_fs :: host_fs where
  "ex_fs = snd (nvs_set_blob NVS_HANDLE ''id_pub'' [5, 2] (snd (nvs_set_blob NVS_HANDLE (spk_key 1) [6, 6]
     (snd (nvs_set_blob NVS_HANDLE (pk_key 1) [5, 1] (snd (nvs_set_blob NVS_HANDLE ''reg_id'' (le32 9) host_fs_empty)))))))"

definition ex_crypto :: crypto where "ex_crypto = \<lparr>nvs = ex_fs, plat = toy_platform\<rparr>"

lemma ex_fs_healthy [simp]: "fs_healthy ex_fs"
  by (simp add: ex_fs_def nvs_put_healthy NVS_MAX_LEN_def)

lemma ex_read: "nvs_key_ok k \<Longrightarrow> nvs_read k ex_fs =
  (if k = ''id_pub'' then Inr [5, 2] else if k = spk_key 1 then Inr [6, 6] else if k = pk_key 1 then Inr [5, 1]
   else if k = ''reg_id'' then Inr (le32 9) else Inl ESP_ERR_NOT_FOUND)"
  by (simp add: ex_fs_def nvs_put_healthy NVS_MAX_LEN_def)

lemma ex_blob: "nvs_read k ex_fs = Inr d \<Longrightarrow> length d \<le> n \<Longrightarrow> nvs_get_blob NVS_HANDLE k n ex_fs = Inr d"
  by (rule nvs_get_healthy) simp_all

lemma ex_bundle_from:
  assumes "nvs w = ex_fs"
  shows "pcrypto_local_bundle toy_signal ample w =
     Some (Inr [9, 0, 0, 0, 1, 0, 0, 0, 2, 5, 1, 1, 0, 0, 0, 2, 6, 6, 1, 8, 2, 5, 2], w)"
proof -
  have n: "next_pre_key_id ex_fs = 21"
    by (simp add: next_pre_key_id_def nvs_get_u32_healthy ex_read PRE_KEY_BATCH_SIZE_def)
  have "try_pre_key toy_signal ample 64 ex_fs 1 = Some [5, 1]"
    by (simp add: try_pre_key_def nvs_len_healthy ex_read read_blob_def ex_blob)  (simp add: toy_signal_def)
  then have f: "find_unused_pre_key toy_signal ample 64 ex_fs = Some (Some (1, [5, 1]))"
    by (simp add: find_unused_pre_key_def n find_loop.simps [of _ 1])
  have p: "put_bundle 9 1 [5, 1] 1 [6, 6] [8] [5, 2] = Some [9, 0, 0, 0, 1, 0, 0, 0, 2, 5, 1, 1, 0, 0, 0, 2, 6, 6, 1, 8, 2, 5, 2]"
    by (simp add: put_bundle_def bundle_put_u32_def bundle_put_blob_def PCRYPTO_BUNDLE_MAX_LEN_def le32_def)
  have s: "signed_pre_key_parts toy_signal d = Some (1, d, [8])" for d by (simp add: toy_signal_def)
  have "finish_bundle toy_signal ample 9 (1, [5, 1]) ex_fs = Inr [9, 0, 0, 0, 1, 0, 0, 0, 2, 5, 1, 1, 0, 0, 0, 2, 6, 6, 1, 8, 2, 5, 2]"
    by (simp add: finish_bundle_def nvs_len_healthy ex_read SIGNED_PRE_KEY_ID_def read_blob_def ex_blob s p)
  then show ?thesis
    using assms by (simp add: pcrypto_local_bundle_def nvs_get_u32_healthy ex_read f)
qed

lemma ex_bundle_made:
  "pcrypto_local_bundle toy_signal ample ex_crypto =
     Some (Inr [9, 0, 0, 0, 1, 0, 0, 0, 2, 5, 1, 1, 0, 0, 0, 2, 6, 6, 1, 8, 2, 5, 2], ex_crypto)"
  by (rule ex_bundle_from) (simp add: ex_crypto_def)

section \<open>Properties\<close>

text \<open>Property C14: the bundle format. The parser accepts exactly the byte strings that begin with
  the image of a bundle whose blobs fit their length byte, and returns that bundle (so it never
  reads past the end and ignores trailing bytes); the writer produces exactly this image, and
  fails exactly when a blob is longer than 255 bytes or the whole longer than 199.\<close>
theorem bundle_parse_exact:
  "(parse_bundle data = Some b \<longleftrightarrow> blobs_fit b \<and> (\<exists>rest. data = bundle_image b @ rest)) \<and>
   put_bundle (bf_reg_id b) (bf_pre_key_id b) (bf_pre_key_pub b) (bf_spk_id b) (bf_spk_pub b) (bf_sig b) (bf_idpub b) =
     (if blobs_fit b \<and> length (bundle_image b) \<le> PCRYPTO_BUNDLE_MAX_LEN then Some (bundle_image b) else None)"
proof
  show "parse_bundle data = Some b \<longleftrightarrow> blobs_fit b \<and> (\<exists>rest. data = bundle_image b @ rest)"
    using parse_bundle_sound parse_bundle_complete by blast
  show "put_bundle (bf_reg_id b) (bf_pre_key_id b) (bf_pre_key_pub b) (bf_spk_id b) (bf_spk_pub b) (bf_sig b) (bf_idpub b) =
     (if blobs_fit b \<and> length (bundle_image b) \<le> PCRYPTO_BUNDLE_MAX_LEN then Some (bundle_image b) else None)"
    using put_bundle_image [of b] by (metis not_None_eq)
qed

text \<open>Processing a received bundle. A malformed one is refused with
  \<open>ESP_ERR_INVALID_ARG\<close> and changes nothing. Otherwise libsignal is asked to build a session from
  exactly the bundle's fields, device 1, without a one-time prekey (number 0) when that blob is
  empty; any key that does not decode, and any refusal, is reported as \<open>ESP_FAIL\<close>.\<close>
theorem process_bundle_correct:
  "(parse_bundle data = None \<longrightarrow> pcrypto_process_bundle lib h peer data w = (ESP_ERR_INVALID_ARG, w)) \<and>
   (blobs_fit b \<and> curve_decode_point lib (bf_spk_pub b) = Some spk \<and> curve_decode_point lib (bf_idpub b) = Some ident \<and>
      (if bf_pre_key_pub b = [] then opk = None \<and> n = 0
       else curve_decode_point lib (bf_pre_key_pub b) = opk \<and> opk \<noteq> None \<and> n = bf_pre_key_id b) \<longrightarrow>
    (let bundle = \<lparr>pb_registration_id = bf_reg_id b, pb_device_id = 1, pb_pre_key_id = n, pb_pre_key = opk,
           pb_signed_pre_key_id = bf_spk_id b, pb_signed_pre_key = spk, pb_signature = bf_sig b, pb_identity_key = ident\<rparr>
     in pcrypto_process_bundle lib h peer (bundle_image b @ rest) w =
        (if bundle_create_ok lib bundle \<and> session_builder_create_ok lib peer
         then case run_sg h (process_pre_key_bundle lib peer bundle) w of (ok, w') \<Rightarrow> (if ok then ESP_OK else ESP_FAIL, w')
         else (ESP_FAIL, w)))) \<and>
   (blobs_fit b \<and> (curve_decode_point lib (bf_spk_pub b) = None \<or> curve_decode_point lib (bf_idpub b) = None \<or>
      bf_pre_key_pub b \<noteq> [] \<and> curve_decode_point lib (bf_pre_key_pub b) = None) \<longrightarrow>
    pcrypto_process_bundle lib h peer (bundle_image b @ rest) w = (ESP_FAIL, w))"
proof -
  have "parse_bundle (bundle_image b @ rest) = Some b" if "blobs_fit b"
    by (rule parse_bundle_complete [OF refl that])
  then show ?thesis
    by (auto simp: pcrypto_process_bundle_def Let_def split: option.splits prod.splits if_splits)
qed

text \<open>A bundle with a one-time prekey and one without.\<close>

definition ex_bundle :: bundle_fields where
  "ex_bundle = \<lparr>bf_reg_id = 9, bf_pre_key_id = 4, bf_pre_key_pub = [5, 1], bf_spk_id = 1, bf_spk_pub = [6], bf_sig = [7],
     bf_idpub = [8]\<rparr>"

theorem process_bundle_correct_witness:
  "fst (pcrypto_process_bundle toy_signal ample [1, 2] (bundle_image ex_bundle) toy_crypto) = ESP_OK \<and>
   pcrypto_process_bundle toy_signal ample [1, 2] [9, 9] toy_crypto = (ESP_ERR_INVALID_ARG, toy_crypto)"
proof -
  let ?b = "\<lparr>pb_registration_id = 9, pb_device_id = 1, pb_pre_key_id = 4, pb_pre_key = Some [5, 1],
    pb_signed_pre_key_id = 1, pb_signed_pre_key = [6], pb_signature = [7], pb_identity_key = [8]\<rparr>"
  have r: "fst (run_sg ample (process_pre_key_bundle toy_signal [1, 2] ?b) toy_crypto) = True"
    by (simp add: toy_signal_def on_nvs_def store_session_func_def nvs_set_healthy NVS_MAX_LEN_def)
  have "parse_bundle [9, 9] = None" by (simp add: parse_bundle_def need_u32_def)
  with process_bundle_correct [of "[9, 9]" toy_signal ample "[1, 2]" toy_crypto ex_bundle "[6]" "[8]" "Some [5, 1]" 4 "[]"] r
  show ?thesis
    by (simp add: ex_bundle_def blobs_fit_def toy_signal_def Let_def case_prod_beta)
qed

text \<open>Property C15: what the local bundle holds, when one is made. It fits 199 bytes and parses back
  to the node's registration number; to the lowest prekey that is still stored and readable, with a
  number below the counter; to the number, key and signature of the stored signed prekey; and to
  the stored public identity key (on a healthy file system all these are the records read back).
  Asking again, with no use of that prekey in between, gives the very same bundle: two peers that
  ask are given the same one-time prekey.\<close>
theorem local_bundle_handout:
  assumes "length (data_dir (nvs w)) < 512" and "next_pre_key_id (nvs w') \<noteq> 0"
    and "pcrypto_local_bundle lib h w = Some (Inr data, w')"
  shows "length data \<le> PCRYPTO_BUNDLE_MAX_LEN \<and>
    (\<exists>b. parse_bundle data = Some b \<and> nvs_get_u32 NVS_HANDLE ''reg_id'' 0 (nvs w') = (ESP_OK, bf_reg_id b) \<and>
       1 \<le> bf_pre_key_id b \<and> bf_pre_key_id b < next_pre_key_id (nvs w') \<and>
       try_pre_key lib h 64 (nvs w') (bf_pre_key_id b) = Some (bf_pre_key_pub b) \<and>
       (\<forall>k. 1 \<le> k \<and> k < bf_pre_key_id b \<longrightarrow> try_pre_key lib h 64 (nvs w') k = None) \<and>
       bundle_of_store lib h (nvs w') b \<and>
       (fs_healthy (nvs w') \<longrightarrow> nvs_read ''id_pub'' (nvs w') = Inr (bf_idpub b) \<and>
          (\<exists>rec. nvs_read (spk_key SIGNED_PRE_KEY_ID) (nvs w') = Inr rec \<and>
             signed_pre_key_parts lib rec = Some (bf_spk_id b, bf_spk_pub b, bf_sig b)))) \<and>
    pcrypto_local_bundle lib h w' = Some (Inr data, w')"
proof -
  from local_bundle_shape [OF assms(1,3)] obtain reg pk where
    r: "nvs_get_u32 NVS_HANDLE ''reg_id'' 0 (nvs w') = (ESP_OK, reg)" and
    f: "find_unused_pre_key lib h 64 (nvs w') = Some (Some pk)" and
    d: "finish_bundle lib h reg pk (nvs w') = Inr data" .
  from d obtain b where b: "data = bundle_image b" "blobs_fit b" "length data \<le> PCRYPTO_BUNDLE_MAX_LEN"
    "bf_reg_id b = reg" "bf_pre_key_id b = fst pk" "bf_pre_key_pub b = snd pk" and s: "bundle_of_store lib h (nvs w') b"
    by (rule finish_bundle_image)
  have "parse_bundle data = Some b" by (rule parse_bundle_complete [of _ _ "[]"]) (simp_all add: b)
  moreover from find_unused_returns [OF assms(2), of lib h 64] f
  have "1 \<le> fst pk" "fst pk < next_pre_key_id (nvs w')" "try_pre_key lib h 64 (nvs w') (fst pk) = Some (snd pk)"
    "\<forall>k. 1 \<le> k \<and> k < fst pk \<longrightarrow> try_pre_key lib h 64 (nvs w') k = None" by auto
  moreover have "pcrypto_local_bundle lib h w' = Some (Inr data, w')"
    by (simp add: pcrypto_local_bundle_def r f d)
  ultimately show ?thesis using b r s bundle_of_store_healthy [of "nvs w'" lib h b] by auto
qed

theorem local_bundle_handout_witness:
  "\<exists>b. parse_bundle [9, 0, 0, 0, 1, 0, 0, 0, 2, 5, 1, 1, 0, 0, 0, 2, 6, 6, 1, 8, 2, 5, 2] = Some b \<and>
     try_pre_key toy_signal ample 64 ex_fs (bf_pre_key_id b) = Some (bf_pre_key_pub b)"
proof -
  have "next_pre_key_id ex_fs = 21"
    by (simp add: next_pre_key_id_def nvs_get_u32_healthy ex_read PRE_KEY_BATCH_SIZE_def)
  moreover have "length (data_dir ex_fs) < 512"
    using ex_fs_healthy unfolding fs_healthy_def by blast
  ultimately show ?thesis
    using local_bundle_handout [OF _ _ ex_bundle_made] by (auto simp: ex_crypto_def)
qed

text \<open>Property C16: when making the local bundle terminates. On a healthy file system (one that refuses
  no access), with a library whose key helper behaves as documented, and as long as the counter of
  prekeys is not 0 and more than 21 below \<open>2 ^ 24\<close>, the call returns: the search makes at most as
  many turns as there are numbers below the counter, and happens at most twice. If moreover the
  library can generate a batch, no memory is refused and its prekeys have public parts that fit,
  the pool is never reported as used up.\<close>
theorem local_bundle_returns:
  assumes "key_helper_documented lib" and "fs_healthy (nvs w)"
    and "next_pre_key_id (nvs w) \<noteq> 0" and "unat (next_pre_key_id (nvs w)) + 20 < 2 ^ 24 - 1"
  shows "\<exists>r w'. pcrypto_local_bundle lib h w = Some (r, w') \<and>
    (fst (run_sg h (generate_pre_keys lib (next_pre_key_id (nvs w)) 20) w) \<noteq> None \<and> heap_ok h \<and>
      (\<forall>d. \<exists>pub. pre_key_public lib d = Some pub \<and> length pub \<le> 64) \<longrightarrow> r \<noteq> Inl ESP_ERR_NOT_FOUND)"
proof -
  let ?n = "next_pre_key_id (nvs w)"
  obtain e reg where r: "nvs_get_u32 NVS_HANDLE ''reg_id'' 0 (nvs w) = (e, reg)" by fastforce
  obtain e2 w2 where b: "generate_pre_key_batch lib h ?n PRE_KEY_BATCH_SIZE w = (e2, w2)" by fastforce
  have ok: "e2 = ESP_OK \<longleftrightarrow> fst (run_sg h (generate_pre_keys lib ?n 20) w) \<noteq> None"
    using b by (auto simp: generate_pre_key_batch_def PRE_KEY_BATCH_SIZE_def Let_def split: prod.splits option.splits)
  have nf: "finish_bundle lib h reg pk fs \<noteq> Inl ESP_ERR_NOT_FOUND" for reg pk fs
    by (auto simp: finish_bundle_def split: sum.splits option.splits)
  from find_unused_returns [OF assms(3), of lib h 64] obtain f1 where f1: "find_unused_pre_key lib h 64 (nvs w) = Some f1" by blast
  show ?thesis
  proof (cases "e = ESP_OK \<and> f1 = None \<and> e2 = ESP_OK")
    case False
    with ok nf show ?thesis by (auto simp: pcrypto_local_bundle_def r f1 b split: option.splits)
  next
    case True
    have bound: "unat ?n + PRE_KEY_BATCH_SIZE < 2 ^ 24 - 1" using assms(4) by (simp add: PRE_KEY_BATCH_SIZE_def)
    from b True have b': "generate_pre_key_batch lib h ?n PRE_KEY_BATCH_SIZE w = (ESP_OK, w2)" by simp
    note p = prekey_batch_facts [OF assms(1,2) bound b']
    from find_unused_returns [OF p(1), of lib h 64] obtain f2 where f2: "find_unused_pre_key lib h 64 (nvs w2) = Some f2" and
      none: "f2 = None \<Longrightarrow> \<forall>k. 1 \<le> k \<and> k < next_pre_key_id (nvs w2) \<longrightarrow> try_pre_key lib h 64 (nvs w2) k = None"
      by (auto split: option.splits)
    have "f2 \<noteq> None" if h: "heap_ok h" "\<forall>d. \<exists>pub. pre_key_public lib d = Some pub \<and> length pub \<le> 64"
    proof
      assume "f2 = None"
      have "1 \<le> ?n" using assms(3) by (simp add: word_le_nat_alt unat_gt_0 Suc_le_eq)
      with none [OF \<open>f2 = None\<close>] p(2) have t: "try_pre_key lib h 64 (nvs w2) ?n = None" by blast
      from p(3) obtain len where l: "nvs_get_blob_len NVS_HANDLE (pk_key ?n) (nvs w2) = Inr len"
        by (auto simp: contains_pre_key_def split: sum.splits)
      from h(2) obtain pub where "pre_key_public lib (read_blob h (pk_key ?n) len (nvs w2)) = Some pub" "length pub \<le> 64" by blast
      with t l h(1) show False by (simp add: try_pre_key_def)
    qed
    with True nf show ?thesis by (auto simp: pcrypto_local_bundle_def r f1 b f2 split: option.splits)
  qed
qed

theorem local_bundle_returns_witness:
  "\<exists>r w'. pcrypto_local_bundle toy_signal ample toy_crypto = Some (r, w')"
  using local_bundle_returns [OF toy_documented, of toy_crypto ample] by auto

text \<open>Property C17: the first start creates a complete identity. When key generation succeeds on
  a healthy file system without an identity, there are afterwards the identity key pair, the
  registration number, the prekeys 1 to 20, the signed prekey, and the counter stands at 21; and
  every later start finds the identity and changes nothing.\<close>
theorem identity_complete:
  assumes "key_helper_documented lib" and "fs_healthy (nvs w)" and "nvs_read ''id_pub'' (nvs w) = Inl ESP_ERR_NOT_FOUND"
    and "identity_ensure_generated lib h w = (ESP_OK, w')" and "heap_ok h'"
  shows "(\<exists>pub priv reg. get_identity_key_pair h' (nvs w') = Inr (pub, priv) \<and>
      nvs_get_u32 NVS_HANDLE ''reg_id'' 0 (nvs w') = (ESP_OK, reg)) \<and>
    (\<forall>i. 1 \<le> i \<and> i \<le> 20 \<longrightarrow> contains_pre_key i (nvs w')) \<and> contains_signed_pre_key SIGNED_PRE_KEY_ID (nvs w') \<and>
    next_pre_key_id (nvs w') = 21 \<and> fs_healthy (nvs w') \<and>
    identity_ensure_generated lib' h'' w' = (ESP_OK, w')"
proof -
  from identity_first_start [OF assms(1-4)] obtain pub priv reg w3 w4 spk where
    h3: "fs_healthy (nvs w3)" and rd3: "nvs_read ''id_pub'' (nvs w3) = Inr pub"
    "nvs_read ''id_priv'' (nvs w3) = Inr priv" "nvs_read ''reg_id'' (nvs w3) = Inr (le32 reg)"
    and g4: "generate_pre_key_batch lib h 1 PRE_KEY_BATCH_SIZE w3 = (ESP_OK, w4)" and sl: "length spk \<le> NVS_MAX_LEN"
    and w': "nvs w' = snd (nvs_set_blob NVS_HANDLE (spk_key SIGNED_PRE_KEY_ID) spk (nvs w4))" .
  have "unat (1 :: u32) + PRE_KEY_BATCH_SIZE < 2 ^ 24 - 1" by (simp add: PRE_KEY_BATCH_SIZE_def)
  note k = batch_healthy [OF assms(1) h3 this g4]
  note f = nvs_put_healthy [OF k(1) keys_ok(4) sl]
  have h': "fs_healthy (nvs w')" unfolding w' by (rule f(1))
  have old: "nvs_read key (nvs w') = nvs_read key (nvs w3)" if "key \<in> {''id_pub'', ''id_priv'', ''reg_id''}" for key
    using that k(4) [of key] f(2) [of key] by (auto simp: w')
  have rds: "nvs_read ''id_pub'' (nvs w') = Inr pub" "nvs_read ''id_priv'' (nvs w') = Inr priv"
    "nvs_read ''reg_id'' (nvs w') = Inr (le32 reg)"
    by (simp_all add: old rd3)
  have "get_identity_key_pair h' (nvs w') = Inr (pub, priv)"
    using assms(5) nvs_get_healthy [OF h' rds(1)] nvs_get_healthy [OF h' rds(2)]
    by (simp add: get_identity_key_pair_def nvs_len_healthy [OF h'] rds read_blob_def)
  moreover have "nvs_get_u32 NVS_HANDLE ''reg_id'' 0 (nvs w') = (ESP_OK, reg)"
    by (simp add: nvs_get_u32_healthy [OF h'] rds)
  moreover have "next_pre_key_id (nvs w') = 21"
  proof -
    have "nvs_read ''next_pk_id'' (nvs w') = nvs_read ''next_pk_id'' (nvs w4)" by (simp add: w' f(2))
    then have "next_pre_key_id (nvs w') = next_pre_key_id (nvs w4)"
      by (simp add: next_pre_key_id_def nvs_get_u32_healthy h' k(1))
    then show ?thesis by (simp add: k(2) PRE_KEY_BATCH_SIZE_def)
  qed
  moreover have "contains_pre_key i (nvs w')" if i: "1 \<le> i" "i \<le> 20" for i
  proof -
    have "1 \<le> unat i" "unat i \<le> 20" using i by (simp_all add: word_le_nat_alt)
    then have j: "unat i - 1 < PRE_KEY_BATCH_SIZE" "i = 1 + of_nat (unat i - 1)"
      by (simp_all add: PRE_KEY_BATCH_SIZE_def of_nat_diff)
    from k(3) [OF j(1)] j(2) have "\<exists>rc. nvs_read (pk_key i) (nvs w4) = Inr rc" by simp
    then show ?thesis unfolding contains_healthy(2) [OF h'] unfolding w' by (auto simp: f(2))
  qed
  moreover have "contains_signed_pre_key SIGNED_PRE_KEY_ID (nvs w')"
    unfolding contains_healthy(3) [OF h'] unfolding w' by (simp add: f(2))
  moreover have "identity_ensure_generated lib' h'' w' = (ESP_OK, w')"
    by (simp add: identity_ensure_generated_def nvs_len_healthy [OF h'] rds)
  ultimately show ?thesis using h' by blast
qed

theorem identity_complete_witness:
  "next_pre_key_id (nvs (snd (identity_ensure_generated toy_signal ample toy_crypto))) = 21"
proof -
  have "fst (identity_ensure_generated toy_signal ample toy_crypto) = ESP_OK"
    by (simp add: identity_ensure_generated_def finish_identity_def nvs_len_healthy toy_signal_def
      generate_pre_key_batch_def Let_def case_prod_beta)
  then have "identity_ensure_generated toy_signal ample toy_crypto =
      (ESP_OK, snd (identity_ensure_generated toy_signal ample toy_crypto))" by (simp add: prod_eq_iff)
  from identity_complete [OF toy_documented _ _ this heap_ok_ample] show ?thesis by simp
qed

text \<open>Property C20: prekey numbers are generated once. After a first start that succeeds on a healthy
  file system without an identity (it writes prekeys 1 to 20 and no others), whatever happens to the
  node while its store stays healthy and its numbers do not run out (bundles are made, it starts
  again, the library uses and removes prekeys through the callbacks): the prekeys that a bundle
  generates have numbers from 21 on and below the counter, and no number is generated by two
  bundles, so none is ever generated twice. (A first start whose write of \<open>id_pub\<close> fails is not one
  of these: it reports success, and the next start generates 1 to 20 again.)\<close>
theorem prekey_numbers_once:
  assumes "key_helper_documented lib" and "fs_healthy (nvs w)" and "nvs_read ''id_pub'' (nvs w) = Inl ESP_ERR_NOT_FOUND"
    and "identity_ensure_generated lib h w = (ESP_OK, w0)" and "node_life lib h w0 Ns w1"
  shows "changed_pre_keys (nvs w) (nvs w0) \<subseteq> {i. 1 \<le> unat i \<and> unat i \<le> 20} \<and>
    (\<forall>N \<in> set Ns. N \<subseteq> {i. 21 \<le> unat i \<and> unat i < unat (next_pre_key_id (nvs w1))}) \<and>
    (\<forall>i j. i < j \<and> j < length Ns \<longrightarrow> Ns ! i \<inter> Ns ! j = {})"
  using identity_start_pre_keys(3) [OF assms(1-4)]
    node_life_ok [OF assms(5,1) identity_start_pre_keys(1) [OF assms(1-4)]]
  by (auto simp: life_ok_def)

theorem prekey_numbers_once_witness:
  "\<exists>N w1. node_life toy_signal ample (snd (identity_ensure_generated toy_signal ample toy_crypto)) [N] w1 \<and>
     N \<subseteq> {i. 21 \<le> unat i}"
proof -
  let ?w0 = "snd (identity_ensure_generated toy_signal ample toy_crypto)"
  have "fst (identity_ensure_generated toy_signal ample toy_crypto) = ESP_OK"
    by (simp add: identity_ensure_generated_def finish_identity_def nvs_len_healthy toy_signal_def
      generate_pre_key_batch_def Let_def case_prod_beta)
  then have s: "identity_ensure_generated toy_signal ample toy_crypto = (ESP_OK, ?w0)" by (simp add: prod_eq_iff)
  have f: "fs_healthy (nvs toy_crypto)" "nvs_read ''id_pub'' (nvs toy_crypto) = Inl ESP_ERR_NOT_FOUND" by simp_all
  have n: "unat (next_pre_key_id (nvs ?w0)) = 21" "fs_healthy (nvs ?w0)"
    using identity_start_pre_keys(1,2) [OF toy_documented f s] by (auto simp: life_ok_def)
  have "next_pre_key_id (nvs ?w0) \<noteq> 0" using n(1) by auto
  from local_bundle_total [OF toy_documented n(2) this, of ample] n(1) obtain r w1 where
    "pcrypto_local_bundle toy_signal ample ?w0 = Some (r, w1)" by auto
  from node_life.local_bundle [OF node_life.born this] n(1)
  have l: "node_life toy_signal ample ?w0 [changed_pre_keys (nvs ?w0) (nvs w1)] w1" by (simp add: PRE_KEY_BATCH_SIZE_def)
  from prekey_numbers_once [OF toy_documented f s l] l show ?thesis by (intro exI) auto
qed

text \<open>Property C18: a first start that fails half-way leaves a node that never recovers. The public
  identity key is stored before the prekeys are generated, and its presence is all that later
  starts check. When the generation of the prekeys fails, this start reports \<open>ESP_FAIL\<close>, but every
  later start reports \<open>ESP_OK\<close> and generates nothing, and the node can never make a bundle, because
  it has no signed prekey.\<close>
theorem identity_partial:
  assumes "key_helper_documented lib" and "fs_healthy (nvs w)" and "nvs_read ''id_pub'' (nvs w) = Inl ESP_ERR_NOT_FOUND"
    and "\<not> contains_signed_pre_key SIGNED_PRE_KEY_ID (nvs w)"
    and "fst (run_sg h (generate_identity_key_pair lib) w) \<noteq> None"
    and "\<And>v. fst (run_sg h (generate_pre_keys lib 1 PRE_KEY_BATCH_SIZE) v) = None"
  shows "fst (identity_ensure_generated lib h w) = ESP_FAIL \<and>
    identity_ensure_generated lib' h' (snd (identity_ensure_generated lib h w)) =
      (ESP_OK, snd (identity_ensure_generated lib h w)) \<and>
    finish_bundle lib' h' reg pk (nvs (snd (identity_ensure_generated lib h w))) = Inl ESP_ERR_INVALID_STATE"
proof -
  note start = identity_upto_batch [OF assms(1-3,5)]
  obtain pub priv reg' w3 where h3: "fs_healthy (nvs w3)"
    "nvs_read ''id_pub'' (nvs w3) = Inr pub" "nvs_read ''id_priv'' (nvs w3) = Inr priv"
    "nvs_read ''reg_id'' (nvs w3) = Inr (le32 reg')" and
    old: "\<And>k. nvs_key_ok k \<Longrightarrow> k \<notin> {''id_pub'', ''id_priv'', ''reg_id''} \<Longrightarrow> nvs_read k (nvs w3) = nvs_read k (nvs w)" and
    i: "identity_ensure_generated lib h w = (case generate_pre_key_batch lib h 1 PRE_KEY_BATCH_SIZE w3 of (e, w4) \<Rightarrow>
       if e \<noteq> ESP_OK then (ESP_FAIL, w4) else finish_identity lib h (pub, priv) w4)"
    by (rule start, rule that)
  obtain x w4 where g: "run_sg h (generate_pre_keys lib 1 PRE_KEY_BATCH_SIZE) w3 = (x, w4)" by fastforce
  with assms(6) [of w3] have x: "x = None" by simp
  have n4: "nvs w4 = nvs w3"
    using random_only_nvs [of "generate_pre_keys lib 1 PRE_KEY_BATCH_SIZE" h w3] assms(1)
    by (simp add: g key_helper_documented_def)
  have f: "identity_ensure_generated lib h w = (ESP_FAIL, w4)"
    by (simp add: i generate_pre_key_batch_def g x)
  have "nvs_read (spk_key SIGNED_PRE_KEY_ID) (nvs w) = Inl ESP_ERR_NOT_FOUND"
    using assms(2,4) by (simp add: contains_healthy(3) nvs_read_healthy split: option.splits)
  then have "nvs_get_blob_len NVS_HANDLE (spk_key SIGNED_PRE_KEY_ID) (nvs w4) = Inl ESP_ERR_NOT_FOUND"
    "nvs_get_blob_len NVS_HANDLE ''id_pub'' (nvs w4) = Inr (length pub)"
    using old [of "spk_key SIGNED_PRE_KEY_ID"] h3 by (simp_all add: n4 nvs_len_healthy)
  then show ?thesis
    by (simp add: f identity_ensure_generated_def [of lib' h'] finish_bundle_def)
qed

text \<open>A library whose key generation is refused.\<close>

definition failing_signal :: signal_lib where
  "failing_signal = toy_signal\<lparr>generate_pre_keys := \<lambda>_ _. Return None\<rparr>"

lemma failing_documented [simp]: "key_helper_documented failing_signal"
  by (auto simp: key_helper_documented_def failing_signal_def toy_signal_def NVS_MAX_LEN_def esp_fill_random_def)

theorem identity_partial_witness:
  "fst (identity_ensure_generated failing_signal ample toy_crypto) = ESP_FAIL \<and>
   fst (identity_ensure_generated toy_signal ample (snd (identity_ensure_generated failing_signal ample toy_crypto))) = ESP_OK"
proof -
  have n: "\<not> contains_signed_pre_key SIGNED_PRE_KEY_ID host_fs_empty"
    by (simp add: contains_healthy)
  have g: "fst (run_sg ample (generate_identity_key_pair failing_signal) toy_crypto) \<noteq> None"
    by (simp add: failing_signal_def toy_signal_def case_prod_beta)
  have p: "fst (run_sg ample (generate_pre_keys failing_signal 1 PRE_KEY_BATCH_SIZE) v) = None" for v
    by (simp add: failing_signal_def)
  show ?thesis
    using identity_partial [OF failing_documented, of toy_crypto ample toy_signal ample] n g p by simp
qed

text \<open>Message framing. Encryption yields the message type in one byte followed by what
  libsignal serialised, never more than the caller's buffer, and otherwise an error (a longer
  message is refused although the session has already moved on). Decryption hands the rest to
  the routine that the type byte names; when that succeeds on the serialised message with a
  plaintext that fits, this plaintext is the result. An empty input and an unknown type are
  refused and change nothing.\<close>
theorem message_framing:
  "(pcrypto_encrypt lib h peer pt cap w = (Inr out, w') \<longrightarrow>
      length out \<le> cap \<and> (\<exists>ty ser. out = word_of_int ty # ser \<and>
        run_sg h (session_cipher_encrypt lib peer pt) w = (Some (ty, ser), w'))) \<and>
   (session_cipher_create_ok lib peer \<and> run_sg h (session_cipher_encrypt lib peer pt) w = (Some (t, s), v) \<and> length s \<ge> cap \<longrightarrow>
      pcrypto_encrypt lib h peer pt cap w = (Inl ESP_ERR_INVALID_SIZE, v)) \<and>
   pcrypto_decrypt lib h peer [] cap w = (Inl ESP_ERR_INVALID_ARG, w) \<and>
   (b \<noteq> ciphertext_prekey_type lib \<and> b \<noteq> ciphertext_signal_type lib \<longrightarrow>
      pcrypto_decrypt lib h peer (b # ser) cap w = (Inl ESP_FAIL, w)) \<and>
   (session_cipher_create_ok lib peer \<and> ciphertext_prekey_type lib \<noteq> ciphertext_signal_type lib \<and> length pt' \<le> cap \<and>
      (b = ciphertext_signal_type lib \<and> signal_message_ok lib ser \<and>
         run_sg h (decrypt_signal_message lib peer ser) w = (Some pt', v) \<or>
       b = ciphertext_prekey_type lib \<and> pre_key_message_ok lib ser \<and>
         run_sg h (decrypt_pre_key_message lib peer ser) w = (Some pt', v)) \<longrightarrow>
      pcrypto_decrypt lib h peer (b # ser) cap w = (Inr pt', v))"
proof (intro conjI impI)
  assume "pcrypto_encrypt lib h peer pt cap w = (Inr out, w')"
  then show "length out \<le> cap" "\<exists>ty ser. out = word_of_int ty # ser \<and>
        run_sg h (session_cipher_encrypt lib peer pt) w = (Some (ty, ser), w')"
    by (auto simp: pcrypto_encrypt_def split: if_splits prod.splits option.splits)
qed (auto simp: pcrypto_encrypt_def pcrypto_decrypt_def)

theorem message_framing_witness:
  "pcrypto_decrypt toy_signal ample [1] [2, 0x55] 200 toy_crypto = (Inr [0], toy_crypto) \<and>
   pcrypto_decrypt toy_signal ample [1] [7, 0x55] 200 toy_crypto = (Inl ESP_FAIL, toy_crypto)"
  using message_framing [of toy_signal ample "[1]" "[]" 200 toy_crypto "[]" toy_crypto 0 "[]" toy_crypto 2 "[0x55]" "[0]"]
    message_framing [of toy_signal ample "[1]" "[]" 200 toy_crypto "[]" toy_crypto 0 "[]" toy_crypto 7 "[0x55]" "[0]"]
  by (simp add: toy_signal_def)

end
