(* ===== verification/App.thy ===== *)
theory App
  imports Phones Board Bundles
begin

text \<open>
  The application, \<open>firmware/main/main.c\<close>: starting the parts of a node in order, its main loop,
  and the callback that passes messages of the mesh on to the phones. A device is a mesh node, its
  bridge and its board.
\<close>

section \<open>State\<close>

record device =
  mesh_node :: node
  bridge :: ble
  board_st :: board


definition PEER_UNDER_TEST :: bytes where "PEER_UNDER_TEST = replicate PKT_NODE_ID_LEN 0"

text \<open>\<open>PEER_UNDER_TEST\<close> is edited in the source before a build; the functions take its value as an
  argument.\<close>

definition peer_configured :: "bytes \<Rightarrow> bool" where
  "peer_configured peer \<longleftrightarrow> peer \<noteq> replicate PKT_NODE_ID_LEN 0"

definition test_msg :: bytes where "test_msg = map of_char ''czesc z Pabianic''"

definition on_message :: "nimble \<Rightarrow> bytes \<Rightarrow> bytes \<Rightarrow> ble \<Rightarrow> ble" where
  "on_message st payload src b = ble_bridge_on_mesh_rx st payload src b"

section \<open>Start\<close>



section \<open>The main loop and the radio's callback\<close>

text \<open>One turn of the loop; the second component is \<open>last_test_send_ms\<close>.\<close>

definition app_loop :: "signal_lib \<Rightarrow> heap \<Rightarrow> bytes \<Rightarrow> device \<times> int \<Rightarrow> device \<times> int" where
  "app_loop lib h peer s =
     (case s of (d, last_test_send_ms) \<Rightarrow>
        let n = mesh_poll (mesh_node d);
            (us, n) = node_time n;
            now_ms = c_div us 1000
        in if peer_configured peer \<and> now_ms - last_test_send_ms > 15000
           then (d\<lparr>mesh_node := snd (mesh_send lib h peer test_msg n)\<rparr>, now_ms)
           else (d\<lparr>mesh_node := n\<rparr>, last_test_send_ms))"

text \<open>A frame from the radio: the mesh handles it, and calls \<open>on_message\<close> for what it delivers.\<close>

definition device_rx :: "nimble \<Rightarrow> signal_lib \<Rightarrow> heap \<Rightarrow> bytes \<Rightarrow> device \<Rightarrow> device option" where
  "device_rx st lib h f d =
     (case on_radio_rx lib h f (mesh_node d) of
        None \<Rightarrow> None
      | Some n \<Rightarrow> Some (d\<lparr>mesh_node := n,
          bridge := fold (\<lambda>(payload, src). on_message st payload src)
            (drop (length (delivered (mesh_node d))) (delivered n)) (bridge d)\<rparr>))"

text \<open>A write of a phone.\<close>

definition device_write :: "nimble \<Rightarrow> signal_lib \<Rightarrow> heap \<Rightarrow> bytes \<Rightarrow> device \<Rightarrow> att_result \<times> device" where
  "device_write st lib h om d =
     (case gatt_svr_chr_access st lib h BLE_GATT_ACCESS_OP_WRITE_CHR om (mesh_node d) of
        (r, n) \<Rightarrow> (r, d\<lparr>mesh_node := n\<rparr>))"

section \<open>A started device\<close>








lemma poll_frames:
  assumes "length (s_local_id n) = PKT_NODE_ID_LEN"
  shows "\<exists>fs. length fs \<le> 1 \<and> spi_log (rad (mesh_poll n)) = spi_log (rad n) @ concat (map tx_commands fs) \<and>
    (\<forall>f \<in> set fs. \<exists>a. pkt_decode f = Some (a, []) \<and> pkt_type a = PKT_TYPE_BEACON \<and> ttl a = 1 \<and> src_id a = s_local_id n)"
proof (cases "presence_beacon_due (fst (node_time n)) (presence_st n)")
  case True
  have "length (s_local_id (snd (node_time n))) = 8" using assms by (simp add: PKT_NODE_ID_LEN_def)
  from send_beacon_frame [OF this] obtain wire a where
    "spi_log (rad (send_beacon (snd (node_time n)))) = spi_log (rad n) @ tx_commands wire"
    "pkt_decode wire = Some (a, [])" "pkt_type a = PKT_TYPE_BEACON" "ttl a = 1" "src_id a = s_local_id n" by auto
  then show ?thesis using True by (intro exI [of _ "[wire]"]) (simp add: mesh_poll_cases)
next
  case False
  then show ?thesis by (intro exI [of _ "[]"]) (simp add: mesh_poll_cases)
qed

lemma poll_fields [simp]:
  "s_local_id (mesh_poll n) = s_local_id n" "delivered (mesh_poll n) = delivered n" "dedup_st (mesh_poll n) = dedup_st n"
  "nvs (cry (mesh_poll n)) = nvs (cry n)"
  by (simp_all add: mesh_poll_cases send_beacon_def case_prod_beta Let_def split: option.split)

lemma app_loop_idle:
  "app_loop lib h PEER_UNDER_TEST (d, l0) = (d\<lparr>mesh_node := snd (node_time (mesh_poll (mesh_node d)))\<rparr>, l0)"
  by (simp add: app_loop_def peer_configured_def PEER_UNDER_TEST_def case_prod_beta Let_def)

section \<open>A concrete device\<close>


definition toy_board :: board where
  "toy_board = \<lparr>s_radio_spi = None, board_log = []\<rparr>"


definition toy_device :: device where
  "toy_device = \<lparr>mesh_node = toy_node\<lparr>cry := ex_crypto\<rparr>, bridge = toy_ble\<lparr>s_subscriber_count := 0\<rparr>, board_st = toy_board\<rparr>"



section \<open>Properties\<close>



text \<open>Property C35: an unconfigured device is quiet. As shipped, with no test peer, the main loop, however
  often it turns, originates nothing but presence beacons (at most one per turn, one hop, from this
  node): it never sends data or key frames, never writes to the key-value store, and leaves the
  duplicate window, the delivered messages and the bridge alone.\<close>
theorem app_loop_only_beacons:
  assumes "length (s_local_id (mesh_node d)) = PKT_NODE_ID_LEN"
    and "(app_loop lib h PEER_UNDER_TEST ^^ k) (d, l0) = (d', l')"
  shows "\<exists>fs. length fs \<le> k \<and>
    spi_log (rad (mesh_node d')) = spi_log (rad (mesh_node d)) @ concat (map tx_commands fs) \<and>
    (\<forall>f \<in> set fs. \<exists>a. pkt_decode f = Some (a, []) \<and> pkt_type a = PKT_TYPE_BEACON \<and> ttl a = 1 \<and>
       src_id a = s_local_id (mesh_node d)) \<and>
    nvs (cry (mesh_node d')) = nvs (cry (mesh_node d)) \<and> dedup_st (mesh_node d') = dedup_st (mesh_node d) \<and>
    delivered (mesh_node d') = delivered (mesh_node d) \<and> bridge d' = bridge d \<and>
    s_local_id (mesh_node d') = s_local_id (mesh_node d) \<and> l' = l0"
  using assms(2)
proof (induction k arbitrary: d' l')
  case 0
  then show ?case by simp
next
  case (Suc k)
  obtain d1 l1 where d1: "(app_loop lib h PEER_UNDER_TEST ^^ k) (d, l0) = (d1, l1)" by fastforce
  from Suc.IH [OF d1] obtain fs where fs: "length fs \<le> k"
    "spi_log (rad (mesh_node d1)) = spi_log (rad (mesh_node d)) @ concat (map tx_commands fs)"
    "\<forall>f \<in> set fs. \<exists>a. pkt_decode f = Some (a, []) \<and> pkt_type a = PKT_TYPE_BEACON \<and> ttl a = 1 \<and> src_id a = s_local_id (mesh_node d)"
    and same: "nvs (cry (mesh_node d1)) = nvs (cry (mesh_node d))" "dedup_st (mesh_node d1) = dedup_st (mesh_node d)"
    "delivered (mesh_node d1) = delivered (mesh_node d)" "bridge d1 = bridge d"
    "s_local_id (mesh_node d1) = s_local_id (mesh_node d)" "l1 = l0" by blast
  have d': "d' = d1\<lparr>mesh_node := snd (node_time (mesh_poll (mesh_node d1)))\<rparr>" "l' = l1"
    using Suc.prems d1 by (simp_all add: app_loop_idle)
  have "length (s_local_id (mesh_node d1)) = PKT_NODE_ID_LEN" using assms(1) same(5) by simp
  from poll_frames [OF this] obtain gs where gs: "length gs \<le> 1"
    "spi_log (rad (mesh_poll (mesh_node d1))) = spi_log (rad (mesh_node d1)) @ concat (map tx_commands gs)"
    "\<forall>f \<in> set gs. \<exists>a. pkt_decode f = Some (a, []) \<and> pkt_type a = PKT_TYPE_BEACON \<and> ttl a = 1 \<and> src_id a = s_local_id (mesh_node d1)"
    by blast
  show ?case
    using fs gs same by (intro exI [of _ "fs @ gs"]) (auto simp: d')
qed

theorem app_loop_only_beacons_witness:
  "length (spi_log (rad (mesh_node (fst ((app_loop toy_signal ample PEER_UNDER_TEST ^^ 3) (toy_device, 0)))))) \<le> 9"
proof -
  obtain d' l' where r: "(app_loop toy_signal ample PEER_UNDER_TEST ^^ 3) (toy_device, 0) = (d', l')" by fastforce
  have "length (s_local_id (mesh_node toy_device)) = PKT_NODE_ID_LEN" by (simp add: toy_device_def PKT_NODE_ID_LEN_def)
  from app_loop_only_beacons [OF this r] obtain fs where "length fs \<le> 3"
    "spi_log (rad (mesh_node d')) = concat (map tx_commands fs)" by (auto simp: toy_device_def toy_radio_def)
  moreover have "length (concat (map tx_commands fs)) = 3 * length fs"
    by (induction fs) (simp_all add: tx_commands_def)
  ultimately show ?thesis by (simp add: r)
qed

end
