(* ===== verification/FloodNet.thy ===== *)
theory FloodNet
  imports Routing "HOL-Library.Multiset"
begin

text \<open>
  Flooding as the nodes together do it: a node that has relayed a message drops its further
  copies, and in a network of nodes every flood ends. The network is not code of the repository:
  a frame on air reaches any selection of nodes, in any order, or none. What a node does with a
  frame is \<open>on_radio_rx\<close>.
\<close>

section \<open>What reception can put on air\<close>

text \<open>The frames a node has handed to the radio between two states: the data of the
  \<open>WRITE_BUFFER\<close> transactions.\<close>

definition sent_frames :: "node \<Rightarrow> node \<Rightarrow> bytes list" where
  "sent_frames n n' = map (drop 2) (filter (\<lambda>t. t ! 0 = SX1262_OP_WRITE_BUFFER)
     (drop (length (spi_log (rad n))) (spi_log (rad n'))))"

lemma sent_frames_none [simp]: "spi_log (rad n') = spi_log (rad n) \<Longrightarrow> sent_frames n n' = []"
  by (simp add: sent_frames_def)

lemma sent_frames_one [simp]: "spi_log (rad n') = spi_log (rad n) @ tx_commands w \<Longrightarrow> sent_frames n n' = [w]"
  by (simp add: sent_frames_def tx_commands_def sx_ops)

text \<open>How many further frames a frame can cause in one chain: the hops left for a routable frame;
  a key request can cause an answer; nothing else causes anything.\<close>

definition frame_rank :: "bytes \<Rightarrow> nat" where
  "frame_rank f =
     (case pkt_decode f of
        None \<Rightarrow> 0
      | Some (hdr, p) \<Rightarrow>
          if pkt_type hdr = PKT_TYPE_BEACON then 0
          else if pkt_type hdr = PKT_TYPE_KEY_BUNDLE then (if payload_len hdr \<noteq> 0 \<and> p ! 0 = KEY_BUNDLE_REQUEST then 1 else 0)
          else unat (ttl hdr))"

lemma bundle_fits: "pcrypto_local_bundle lib h w = Some (Inr data, w') \<Longrightarrow> length data \<le> 199"
proof -
  have f: "length data \<le> 199" if "finish_bundle lib h reg pk fs = Inr data" for reg pk fs
  proof -
    from that obtain i spk sig idpub where p: "put_bundle reg (fst pk) (snd pk) i spk sig idpub = Some data"
      by (auto simp: finish_bundle_def split: sum.splits if_splits option.splits prod.splits)
    let ?b = "\<lparr>bf_reg_id = reg, bf_pre_key_id = fst pk, bf_pre_key_pub = snd pk, bf_spk_id = i,
      bf_spk_pub = spk, bf_sig = sig, bf_idpub = idpub\<rparr>"
    have "data = bundle_image ?b \<and> blobs_fit ?b \<and> length data \<le> PCRYPTO_BUNDLE_MAX_LEN"
      using p by (intro iffD1 [OF put_bundle_image]) simp
    from conjunct2 [OF conjunct2 [OF this]] show ?thesis unfolding PCRYPTO_BUNDLE_MAX_LEN_def .
  qed
  show "pcrypto_local_bundle lib h w = Some (Inr data, w') \<Longrightarrow> length data \<le> 199"
    by (auto simp: pcrypto_local_bundle_def bind_eq_Some_conv split: if_splits option.splits prod.splits intro: f)
qed

lemma unhandled_log:
  "same_tables n (n\<lparr>cry := c\<rparr>)" "spi_log (rad (n\<lparr>cry := c\<rparr>)) = spi_log (rad n)"
  by simp_all

text \<open>Everything that reception can put on air, with its rank.\<close>

lemma key_bundle_sends:
  assumes "handle_key_bundle lib h hdr p n = Some n'" "length (s_local_id n) = 8" "wf_hdr hdr"
  shows "spi_log (rad n') = spi_log (rad n) \<or>
    (payload_len hdr \<noteq> 0 \<and> p ! 0 = KEY_BUNDLE_REQUEST \<and>
     (\<exists>wire. spi_log (rad n') = spi_log (rad n) @ tx_commands wire \<and> frame_rank wire = 0))"
proof (cases "dst_id hdr = s_local_id n \<and> payload_len hdr \<noteq> 0 \<and> p ! 0 = KEY_BUNDLE_REQUEST")
  case True
  then have "send_key_bundle_response lib h (src_id hdr) n = Some n'"
    using assms(1) by (auto simp: handle_key_bundle_def Let_def unat_eq_zero split: if_splits)
  then have "(\<exists>c. n' = n\<lparr>cry := c\<rparr>) \<or> (\<exists>c b. length b \<le> 199 \<and>
      n' = send_key_bundle_frame (src_id hdr) KEY_BUNDLE_RESPONSE b (n\<lparr>cry := c\<rparr>))"
    by (auto simp: send_key_bundle_response_def split: option.splits prod.splits sum.splits dest: bundle_fits)
  then show ?thesis
  proof
    assume "\<exists>c b. length b \<le> 199 \<and> n' = send_key_bundle_frame (src_id hdr) KEY_BUNDLE_RESPONSE b (n\<lparr>cry := c\<rparr>)"
    then obtain c b where b: "length b \<le> 199" "n' = send_key_bundle_frame (src_id hdr) KEY_BUNDLE_RESPONSE b (n\<lparr>cry := c\<rparr>)" by blast
    have ids: "length (s_local_id (n\<lparr>cry := c\<rparr>)) = 8" "length (src_id hdr) = 8"
      using assms(2,3) by (simp_all add: wf_hdr_def PKT_NODE_ID_LEN_def)
    from key_bundle_frame_on_air [OF ids b(1), of KEY_BUNDLE_RESPONSE] obtain wire a where
      "spi_log (rad n') = spi_log (rad n) @ tx_commands wire" "pkt_decode wire = Some (a, KEY_BUNDLE_RESPONSE # b)"
      "pkt_type a = PKT_TYPE_KEY_BUNDLE" by (auto simp: b(2))
    moreover from this have "frame_rank wire = 0"
      by (simp add: frame_rank_def KEY_BUNDLE_REQUEST_def KEY_BUNDLE_RESPONSE_def pkt_consts)
    ultimately show ?thesis using True by blast
  qed auto
next
  case False
  then have "n' = n \<or> (\<exists>c. n' = n\<lparr>cry := c\<rparr>)"
    using assms(1) by (auto simp: handle_key_bundle_def Let_def unat_eq_zero split: if_splits prod.splits)
  then show ?thesis by auto
qed

lemma rx_sends:
  assumes "node_ok n" "length f \<le> 255" "on_radio_rx lib h f n = Some n'"
  shows "spi_log (rad n') = spi_log (rad n) \<or>
    (\<exists>wire. spi_log (rad n') = spi_log (rad n) @ tx_commands wire \<and> frame_rank wire < frame_rank f)"
proof (cases "pkt_decode f")
  case (Some hp)
  obtain hdr p where d: "pkt_decode f = Some (hdr, p)" using Some by (cases hp) auto
  let ?m = "after_presence hdr (after_limiter hdr n)"
  have wf: "wf_hdr hdr" by (rule pkt_decode_wf [OF d])
  consider (quiet) "src_id hdr = s_local_id n \<or> limited_now hdr n \<or> pkt_type hdr = PKT_TYPE_BEACON"
    | (key) "src_id hdr \<noteq> s_local_id n" "\<not> limited_now hdr n" "pkt_type hdr = PKT_TYPE_KEY_BUNDLE"
    | (route) "src_id hdr \<noteq> s_local_id n" "\<not> limited_now hdr n" "pkt_type hdr \<noteq> PKT_TYPE_KEY_BUNDLE"
        "pkt_type hdr \<noteq> PKT_TYPE_BEACON" by blast
  then show ?thesis
  proof cases
    case quiet
    with assms(3) d show ?thesis by (auto simp: on_radio_rx_stages split: if_splits)
  next
    case key
    then have k: "handle_key_bundle lib h hdr p ?m = Some n'"
      using assms(3) d by (simp add: on_radio_rx_stages pkt_consts)
    have "length (s_local_id ?m) = 8" using assms(1) by (simp add: node_ok_def PKT_NODE_ID_LEN_def)
    from key_bundle_sends [OF k this wf] show ?thesis
    proof
      assume "payload_len hdr \<noteq> 0 \<and> p ! 0 = KEY_BUNDLE_REQUEST \<and>
        (\<exists>wire. spi_log (rad n') = spi_log (rad ?m) @ tx_commands wire \<and> frame_rank wire = 0)"
      moreover from this have "frame_rank f = 1" using key(3) by (simp add: frame_rank_def d pkt_consts)
      ultimately show ?thesis by auto
    qed simp
  next
    case route
    let ?seen = "fst (dedup_check_and_mark (msg_id hdr) (dedup_st n))"
    let ?m2 = "?m\<lparr>dedup_st := snd (dedup_check_and_mark (msg_id hdr) (dedup_st n))\<rparr>"
    have n': "n' = (if ?seen then ?m2 else forward hdr p (deliver_local lib h hdr p ?m2))"
      using assms(3) d route by (simp add: on_radio_rx_stages Let_def split: if_splits)
    show ?thesis
    proof (cases "?seen \<or> \<not> ttl hdr > 1")
      case True
      then show ?thesis by (auto simp: n' forward_relays [OF d assms(2)])
    next
      case False
      then have "spi_log (rad n') = spi_log (rad n) @ tx_commands (relay_frame f)"
        using relay_encode(2) [OF d assms(2)] by (simp add: n' forward_relays [OF d assms(2)])
      moreover have "frame_rank (relay_frame f) < frame_rank f"
      proof -
        have "0 < unat (ttl hdr)" "ttl hdr \<noteq> 0" using False by (auto simp: word_less_nat_alt)
        then have "unat (ttl hdr - 1) < unat (ttl hdr)" by (simp add: unat_minus_one)
        then show ?thesis
          using route by (simp add: frame_rank_def relay_frame_decodes [OF d assms(2)] d)
      qed
      ultimately show ?thesis by blast
    qed
  qed
qed (use assms in \<open>simp add: on_radio_rx_def\<close>)

section \<open>A message is relayed once\<close>

text \<open>What happens to a node between two receptions: frames, sends and polls in any order.\<close>

datatype node_event = Rx bytes | Send bytes bytes | Poll

fun node_event_step :: "signal_lib \<Rightarrow> heap \<Rightarrow> node_event \<Rightarrow> node \<Rightarrow> node option" where
  "node_event_step lib h (Rx f) n = on_radio_rx lib h f n"
| "node_event_step lib h (Send dst pt) n = Some (snd (mesh_send lib h dst pt n))"
| "node_event_step lib h Poll n = Some (mesh_poll n)"

fun node_run :: "signal_lib \<Rightarrow> heap \<Rightarrow> node_event list \<Rightarrow> node \<Rightarrow> node option" where
  "node_run lib h [] n = Some n"
| "node_run lib h (ev # evs) n = (case node_event_step lib h ev n of None \<Rightarrow> None | Some n' \<Rightarrow> node_run lib h evs n')"

lemma dedup_unchanged: "dedup_st n' = dedup_st n \<Longrightarrow>
    \<exists>ms. length ms \<le> Suc 0 \<and> dedup_st n' = mark_all dedup_check_and_mark ms (dedup_st n)"
  by (intro exI [of _ "[]"]) simp

lemma dedup_one: "dedup_st n' = snd (dedup_check_and_mark m (dedup_st n)) \<Longrightarrow>
    \<exists>ms. length ms \<le> Suc 0 \<and> dedup_st n' = mark_all dedup_check_and_mark ms (dedup_st n)"
  by (intro exI [of _ "[m]"]) simp

lemma same_tables_dedup: "same_tables n n' \<Longrightarrow> dedup_st n' = dedup_st n"
  by (simp add: same_tables_def)

lemma rx_dedup:
  assumes "on_radio_rx lib h f n = Some n'"
  shows "\<exists>ms. length ms \<le> Suc 0 \<and> dedup_st n' = mark_all dedup_check_and_mark ms (dedup_st n)"
proof -
  have fw: "dedup_st (forward hdr p m) = dedup_st m" for hdr p m by (rule same_tables_dedup [OF forward_tables])
  have kb: "dedup_st m' = dedup_st m" if "handle_key_bundle lib h hdr p m = Some m'" for hdr p m m'
    by (rule same_tables_dedup [OF handle_key_bundle_tables [OF that]])
  from assms have "dedup_st n' = dedup_st n \<or> (\<exists>m. dedup_st n' = snd (dedup_check_and_mark m (dedup_st n)))"
    by (auto simp: on_radio_rx_stages Let_def fw dest: kb split: option.splits prod.splits if_splits)
  then show ?thesis using dedup_unchanged dedup_one by blast
qed

lemma send_dedup: "\<exists>ms. length ms \<le> Suc 0 \<and> dedup_st (snd (mesh_send lib h dst pt n)) = mark_all dedup_check_and_mark ms (dedup_st n)"
proof -
  have fr: "dedup_st (send_key_bundle_frame dst st b m) = dedup_st m" for st b m
    by (rule same_tables_dedup [OF key_bundle_frame_tables])
  have sd: "\<exists>i. dedup_st (snd (send_data dst ct m)) = snd (dedup_check_and_mark i (dedup_st m))" for ct m
    by (auto simp: send_data_def case_prod_beta Let_def split: option.split)
  have "dedup_st (snd (mesh_send lib h dst pt n)) = dedup_st n \<or>
      (\<exists>i. dedup_st (snd (mesh_send lib h dst pt n)) = snd (dedup_check_and_mark i (dedup_st n)))"
  proof -
    obtain has c where c: "pcrypto_has_session lib h dst (cry n) = (has, c)" by fastforce
    obtain r c' where r: "pcrypto_encrypt lib h dst pt PKT_MAX_PAYLOAD c = (r, c')" by fastforce
    from sd [of _ "n\<lparr>cry := c'\<rparr>"] show ?thesis
      by (cases r) (simp_all add: mesh_send_cases c r fr)
  qed
  then show ?thesis using dedup_unchanged dedup_one by blast
qed

lemma poll_dedup: "dedup_st (mesh_poll n) = dedup_st n"
  by (simp add: mesh_poll_def send_beacon_def case_prod_beta Let_def split: option.split)

lemma event_dedup:
  "node_event_step lib h ev n = Some n' \<Longrightarrow>
     \<exists>ms. length ms \<le> Suc 0 \<and> dedup_st n' = mark_all dedup_check_and_mark ms (dedup_st n)"
  by (cases ev) (auto intro: rx_dedup send_dedup dedup_unchanged poll_dedup)

lemma event_ok: "node_event_step lib h ev n = Some n' \<Longrightarrow> node_ok n \<Longrightarrow> node_ok n'"
  by (cases ev) (auto intro: on_radio_rx_ok mesh_send_ok mesh_poll_ok)

lemma node_run_ok: "node_run lib h evs n = Some n' \<Longrightarrow> node_ok n \<Longrightarrow> node_ok n'"
  by (induction evs arbitrary: n) (auto split: option.splits dest: event_ok)

lemma run_dedup:
  "node_run lib h evs n = Some n' \<Longrightarrow>
     \<exists>ms. length ms \<le> length evs \<and> dedup_st n' = mark_all dedup_check_and_mark ms (dedup_st n)"
proof (induction evs arbitrary: n)
  case Nil
  then show ?case by (intro exI [of _ "[]"]) simp
next
  case (Cons ev evs)
  then obtain n1 where n1: "node_event_step lib h ev n = Some n1" "node_run lib h evs n1 = Some n'"
    by (auto split: option.splits)
  from event_dedup [OF n1(1)] Cons.IH [OF n1(2)] obtain ms ms' where
    "length ms \<le> Suc 0" "dedup_st n1 = mark_all dedup_check_and_mark ms (dedup_st n)"
    "length ms' \<le> length evs" "dedup_st n' = mark_all dedup_check_and_mark ms' (dedup_st n1)" by blast
  then show ?case by (intro exI [of _ "ms @ ms'"]) (simp add: mark_all_append)
qed

lemma run_known:
  assumes "node_ok n" "m \<notin> set (dedup_recent (dedup_st n))" "dedup_st n1 = snd (dedup_check_and_mark m (dedup_st n))"
    and "node_run lib h evs n1 = Some n2" "length evs < DEDUP_CACHE_SIZE"
  shows "m \<in> set (dedup_recent (dedup_st n2))"
proof -
  from run_dedup [OF assms(4)] obtain ms where
    ms: "length ms \<le> length evs" "dedup_st n2 = mark_all dedup_check_and_mark ms (dedup_st n1)" by blast
  have ok: "dedup_ok (dedup_st n)" using assms(1) by (simp add: node_ok_def)
  have "length ms < DEDUP_CACHE_SIZE" using ms(1) assms(5) by simp
  from dedup.survives_marks [OF ok dedup_recent_length [OF ok] assms(2) this] show ?thesis
    by (simp add: ms(2) assms(3))
qed

lemma known_is_dropped:
  assumes "node_ok n" "msg_id hdr \<in> set (dedup_recent (dedup_st n))" "pkt_decode f = Some (hdr, p)"
    "pkt_type hdr \<noteq> PKT_TYPE_KEY_BUNDLE"
  shows "\<exists>n'. on_radio_rx lib h f n = Some n' \<and> rad n' = rad n \<and> delivered n' = delivered n"
proof -
  have "fst (dedup_check_and_mark (msg_id hdr) (dedup_st n))"
    using assms(1,2) by (simp add: dedup.mark_seen node_ok_def)
  with assms(3,4) show ?thesis by (simp add: on_radio_rx_stages Let_def)
qed

lemma accepted_marks:
  assumes "node_ok n" "pkt_decode f = Some (hdr, p)" "src_id hdr \<noteq> s_local_id n" "\<not> limited_now hdr n"
    "pkt_type hdr \<noteq> PKT_TYPE_BEACON" "pkt_type hdr \<noteq> PKT_TYPE_KEY_BUNDLE" "on_radio_rx lib h f n = Some n'"
  shows "dedup_st n' = snd (dedup_check_and_mark (msg_id hdr) (dedup_st n))"
proof -
  have fw: "dedup_st (forward hdr p m) = dedup_st m" for m by (rule same_tables_dedup [OF forward_tables])
  from assms(2-7) show ?thesis by (auto simp: on_radio_rx_stages Let_def fw split: if_splits)
qed

text \<open>Property C3: no frame is relayed or delivered twice. After the node has accepted a routable
  frame with a message ID that was not in its duplicate window, then whatever fewer than 64
  receptions, sends and polls follow, a further frame with that ID (of any type but a key
  exchange, from any sender, with any hop count) neither puts anything on air nor delivers
  anything, and reception of it returns.\<close>
theorem relay_once:
  assumes "node_ok n" and "pkt_decode f = Some (hdr, p)" and "src_id hdr \<noteq> s_local_id n" and "\<not> limited_now hdr n"
    and "pkt_type hdr \<noteq> PKT_TYPE_BEACON" and "pkt_type hdr \<noteq> PKT_TYPE_KEY_BUNDLE"
    and "msg_id hdr \<notin> set (dedup_recent (dedup_st n))"
    and "on_radio_rx lib h f n = Some n1" and "node_run lib h evs n1 = Some n2" and "length evs < 64"
    and "pkt_decode f' = Some (hdr', p')" and "msg_id hdr' = msg_id hdr" and "pkt_type hdr' \<noteq> PKT_TYPE_KEY_BUNDLE"
  shows "\<exists>n3. on_radio_rx lib h f' n2 = Some n3 \<and> spi_log (rad n3) = spi_log (rad n2) \<and> delivered n3 = delivered n2"
proof -
  have "msg_id hdr \<in> set (dedup_recent (dedup_st n2))"
    using run_known [OF assms(1,7) accepted_marks [OF assms(1-6,8)] assms(9)] assms(10) by (simp add: DEDUP_CACHE_SIZE_def)
  moreover have "node_ok n2" using node_run_ok [OF assms(9)] on_radio_rx_ok [OF assms(1,8)] by simp
  ultimately show ?thesis using known_is_dropped [of n2 hdr' f' p' lib h] assms(11-13) by auto
qed

theorem relay_once_witness:
  "\<exists>n1 n3. on_radio_rx toy_signal ample ex_frame toy_node = Some n1 \<and>
     on_radio_rx toy_signal ample (relay_frame ex_frame) (mesh_poll n1) = Some n3 \<and>
     spi_log (rad n3) = spi_log (rad (mesh_poll n1))"
proof -
  let ?h = "ex_hdr\<lparr>dst_id := replicate 8 3, payload_len := 1\<rparr>"
  have f: "src_id ?h \<noteq> s_local_id toy_node" "pkt_type ?h \<noteq> PKT_TYPE_BEACON" "pkt_type ?h \<noteq> PKT_TYPE_KEY_BUNDLE"
    "msg_id ?h \<notin> set (dedup_recent (dedup_st toy_node))" by (simp_all add: ex_hdr_def pkt_consts)
  have "\<exists>n1. on_radio_rx toy_signal ample ex_frame toy_node = Some n1"
    using f ex_frame_decodes(1) by (simp add: on_radio_rx_stages Let_def)
  then obtain n1 where n1: "on_radio_rx toy_signal ample ex_frame toy_node = Some n1" by blast
  have "length ex_frame \<le> 255" by (simp add: ex_frame_decodes)
  note r = relay_frame_decodes [OF ex_frame_decodes(1) this]
  have "node_run toy_signal ample [Poll] n1 = Some (mesh_poll n1)" "length [Poll] < 64" by simp_all
  from relay_once [OF toy_node_ok ex_frame_decodes(1) f(1) toy_not_limited f(2-4) n1 this r] f(3) n1
  show ?thesis by auto
qed

section \<open>Relayed copies and the rate limit\<close>

text \<open>A frame from \<open>s\<close> on its way to somebody else: a message, not a key exchange.\<close>

definition in_transit :: "bytes \<Rightarrow> node \<Rightarrow> bytes \<Rightarrow> bool" where
  "in_transit s n f \<longleftrightarrow> (case pkt_decode f of None \<Rightarrow> False
     | Some (hdr, p) \<Rightarrow> src_id hdr = s \<and> dst_id hdr \<noteq> s_local_id n \<and> pkt_type hdr \<noteq> PKT_TYPE_KEY_BUNDLE)"

lemma stage_tables:
  "s_rate_table (after_limiter hdr n) = rate_step (src_id hdr) (fst (node_time n)) (s_rate_table n)"
  "timer (plat (cry (after_limiter hdr n))) = timer (plat (cry n))"
  "timer (plat (cry (after_presence hdr n))) = timer (plat (cry n))"
  by (simp_all add: after_limiter_def after_presence_def rate_step_def)

lemma transit_rx:
  assumes "in_transit s n f" "s \<noteq> s_local_id n" "on_radio_rx lib h f n = Some n'"
  shows "s_rate_table n' = rate_step s (fst (node_time n)) (s_rate_table n)"
    "timer (plat (cry n')) = timer (plat (cry n))" "s_local_id n' = s_local_id n"
proof -
  obtain hdr p where d: "pkt_decode f = Some (hdr, p)" "src_id hdr = s" "dst_id hdr \<noteq> s_local_id n"
    "pkt_type hdr \<noteq> PKT_TYPE_KEY_BUNDLE" using assms(1) by (auto simp: in_transit_def split: option.splits prod.splits)
  have fw: "s_rate_table (forward hdr p m) = s_rate_table m" "s_local_id (forward hdr p m) = s_local_id m" for m
    using forward_tables [of m hdr p] by (simp_all add: same_tables_def)
  have fc: "cry (forward hdr p m) = cry m" for m by (simp add: forward_def Let_def split: option.split)
  have dl: "deliver_local lib h hdr p m = m" if "s_local_id m = s_local_id n" for m
    using d(3) that by (simp add: deliver_local_def)
  have "s_rate_table n' = rate_step s (fst (node_time n)) (s_rate_table n) \<and>
      timer (plat (cry n')) = timer (plat (cry n)) \<and> s_local_id n' = s_local_id n"
    using assms(2,3) d
    by (auto simp: on_radio_rx_stages Let_def fw fc dl stage_tables split: if_splits)
  then show "s_rate_table n' = rate_step s (fst (node_time n)) (s_rate_table n)"
    "timer (plat (cry n')) = timer (plat (cry n))" "s_local_id n' = s_local_id n" by simp_all
qed

lemma in_transit_id: "s_local_id n' = s_local_id n \<Longrightarrow> in_transit s n' f = in_transit s n f"
  by (auto simp: in_transit_def split: option.split)

lemma transit_returns:
  assumes "in_transit s n f"
  shows "\<exists>n'. on_radio_rx lib h f n = Some n'"
  using assms by (auto simp: in_transit_def on_radio_rx_stages Let_def split: option.splits)

lemma transit_run_returns:
  assumes "\<forall>f \<in> set fs. in_transit s n f" "s \<noteq> s_local_id n"
  shows "\<exists>n'. node_run lib h (map Rx fs) n = Some n'"
  using assms
proof (induction fs arbitrary: n)
  case (Cons f fs)
  have f: "in_transit s n f" using Cons.prems(1) by simp
  obtain n1 where n1: "on_radio_rx lib h f n = Some n1" using transit_returns [OF f] by blast
  note t = transit_rx(3) [OF f Cons.prems(2) n1]
  have "\<forall>g \<in> set fs. in_transit s n1 g" using Cons.prems(1) by (simp add: in_transit_id [OF t])
  from Cons.IH [OF this] Cons.prems(2) show ?case by (simp add: n1 t)
qed simp

text \<open>Within the window every frame counts.\<close>

lemma transit_counts:
  assumes "node_run lib h (map Rx fs) n = Some n'" "node_ok n" "s \<noteq> s_local_id n" "\<forall>f \<in> set fs. in_transit s n f"
    and "rate_look (s_rate_table n) s = Some e" "\<forall>j. timer (plat (cry n)) j \<le> window_start_us e + RATE_LIMIT_WINDOW_US"
  shows "\<exists>e'. rate_look (s_rate_table n') s = Some e' \<and> re_count e' = re_count e + int (length fs) \<and>
    window_start_us e' = window_start_us e \<and> timer (plat (cry n')) = timer (plat (cry n)) \<and> s_local_id n' = s_local_id n"
  using assms
proof (induction fs arbitrary: n e)
  case (Cons f fs)
  from Cons.prems(1) obtain n1 where n1: "on_radio_rx lib h f n = Some n1" "node_run lib h (map Rx fs) n1 = Some n'"
    by (auto split: option.splits)
  have "in_transit s n f" using Cons.prems(4) by simp
  note t = transit_rx [OF this Cons.prems(3) n1(1)]
  have tm: "fst (node_time n) = timer (plat (cry n)) (timer_reads (plat (cry n)))"
    by (simp add: node_time_def esp_timer_get_time_def)
  have "fst (node_time n) \<le> window_start_us e + RATE_LIMIT_WINDOW_US" unfolding tm using Cons.prems(6) by blast
  then have r: "rate_refresh (fst (node_time n)) e = e\<lparr>re_count := re_count e + 1\<rparr>"
    by (simp add: rate_refresh_def)
  have "rate_ok (s_rate_table n)" using Cons.prems(2) by (simp add: node_ok_def)
  from rate.touched_known [OF this, of s "fst (node_time n)"] Cons.prems(5)
  have l: "rate_look (s_rate_table n1) s = Some (e\<lparr>re_count := re_count e + 1\<rparr>)" by (simp add: t(1) r)
  have "\<forall>f \<in> set fs. in_transit s n1 f" using Cons.prems(4) by (simp add: in_transit_id [OF t(3)])
  from Cons.IH [OF n1(2) on_radio_rx_ok [OF Cons.prems(2) n1(1)] _ this l] Cons.prems(3,6)
  show ?case by (auto simp: t(2,3))
qed simp

text \<open>Property C13: relayed copies use up a sender's allowance. The limiter counts by the original sender
  and before the duplicate filter: after twenty frames of a sender that the node did not know yet
  (all of them may be copies of one message, relayed by neighbours), within one window, every
  further frame of this sender is dropped before anything else looks at it, however new its
  message is.\<close>
theorem limit_counts_copies:
  assumes "node_ok n" and "s \<noteq> s_local_id n" and "rate_look (s_rate_table n) s = None"
    and "\<forall>j. t0 \<le> timer (plat (cry n)) j \<and> timer (plat (cry n)) j \<le> t0 + RATE_LIMIT_WINDOW_US"
    and "length fs = 20" and "\<forall>f \<in> set fs. in_transit s n f"
  shows "\<exists>n'. node_run lib h (map Rx fs) n = Some n' \<and>
    (\<forall>f' hdr p. pkt_decode f' = Some (hdr, p) \<and> src_id hdr = s \<longrightarrow> on_radio_rx lib h f' n' = Some (after_limiter hdr n'))"
proof -
  obtain n' where run: "node_run lib h (map Rx fs) n = Some n'" using transit_run_returns [OF assms(6,2)] by blast
  obtain f gs where fs: "fs = f # gs" "length gs = 19" using assms(5) by (cases fs) auto
  then obtain n1 where n1: "on_radio_rx lib h f n = Some n1" "node_run lib h (map Rx gs) n1 = Some n'"
    using run by (auto split: option.splits)
  have "in_transit s n f" using assms(6) fs(1) by simp
  note t = transit_rx [OF this assms(2) n1(1)]
  let ?now = "fst (node_time n)"
  have time: "fst (node_time m) = timer (plat (cry m)) (timer_reads (plat (cry m)))" for m
    by (simp add: node_time_def esp_timer_get_time_def)
  have "rate_ok (s_rate_table n)" using assms(1) by (simp add: node_ok_def)
  from rate.touched_known [OF this, of s ?now] assms(3)
  have l: "rate_look (s_rate_table n1) s = Some (rate_fresh s ?now)" by (simp add: t(1))
  have n1s: "s \<noteq> s_local_id n1" "\<forall>f \<in> set gs. in_transit s n1 f" using assms(2,6) fs(1) by (simp_all add: t(3) in_transit_id [OF t(3)])
  have w: "\<forall>j. timer (plat (cry n1)) j \<le> window_start_us (rate_fresh s ?now) + RATE_LIMIT_WINDOW_US"
    using assms(4) by (simp add: t(2) rate_fresh_def time) (meson add_right_mono order.trans)
  from transit_counts [OF n1(2) on_radio_rx_ok [OF assms(1) n1(1)] n1s l w] obtain e' where
    e': "rate_look (s_rate_table n') s = Some e'" "re_count e' = 20" "window_start_us e' = ?now"
    "timer (plat (cry n')) = timer (plat (cry n))" "s_local_id n' = s_local_id n" by (auto simp: rate_fresh_def fs(2) t(2,3))
  have now': "fst (node_time n') - ?now \<le> RATE_LIMIT_WINDOW_US"
    using assms(4) unfolding time e'(4) by (metis add_mono diff_le_eq order.trans add.commute add_left_mono)
  have ok: "rate_ok (s_rate_table n')" using node_run_ok [OF run assms(1)] by (simp add: node_ok_def)
  have "limited_now hdr n'" if "src_id hdr = s" for hdr
    using e'(2,3) now' by (simp add: limited_now_def rate_verdict [OF ok] that e'(1) rate_refresh_def rate_consts)
  with run e'(5) assms(2) show ?thesis by (auto simp: on_radio_rx_stages)
qed

theorem limit_counts_copies_witness:
  "\<exists>n'. node_run toy_signal ample (map Rx (replicate 20 ex_frame)) (toy_node\<lparr>cry := toy_crypto\<lparr>plat := toy_platform\<lparr>timer := (\<lambda>_. 5)\<rparr>\<rparr>\<rparr>) = Some n' \<and>
     (\<exists>hdr. on_radio_rx toy_signal ample ex_frame n' = Some (after_limiter hdr n'))"
proof -
  let ?n = "toy_node\<lparr>cry := toy_crypto\<lparr>plat := toy_platform\<lparr>timer := (\<lambda>_. 5)\<rparr>\<rparr>\<rparr>"
  have ok: "node_ok ?n" using toy_node_ok by (simp add: node_ok_def)
  have s: "src_id ex_hdr \<noteq> s_local_id ?n" by (simp add: ex_hdr_def)
  have l: "rate_look (s_rate_table ?n) (src_id ex_hdr) = None" by simp
  have t: "\<forall>j. 5 \<le> timer (plat (cry ?n)) j \<and> timer (plat (cry ?n)) j \<le> 5 + RATE_LIMIT_WINDOW_US" by (simp add: rate_consts)
  have f: "\<forall>f \<in> set (replicate 20 ex_frame). in_transit (src_id ex_hdr) ?n f"
    by (simp add: in_transit_def ex_frame_decodes) (simp add: ex_hdr_def pkt_consts)
  have "length (replicate 20 ex_frame) = 20" by simp
  from limit_counts_copies [OF ok s l t this f, of toy_signal ample] ex_frame_decodes(1) show ?thesis by fastforce
qed

section \<open>Every flood ends\<close>

text \<open>A network: the nodes, and the frames on air that have not been received yet.\<close>

record net =
  nodes :: "node list"
  air :: "bytes multiset"

text \<open>The nodes with the listed numbers hear one frame, one after the other; \<open>None\<close> when one of them
  does not return.\<close>

fun hear :: "signal_lib \<Rightarrow> heap \<Rightarrow> bytes \<Rightarrow> nat list \<Rightarrow> node list \<Rightarrow> (node list \<times> bytes list) option" where
  "hear lib h f [] ns = Some (ns, [])"
| "hear lib h f (i # is) ns =
     (case on_radio_rx lib h f (ns ! i) of
        None \<Rightarrow> None
      | Some n' \<Rightarrow> (case hear lib h f is (ns[i := n']) of
            None \<Rightarrow> None
          | Some (ns', out) \<Rightarrow> Some (ns', sent_frames (ns ! i) n' @ out)))"

text \<open>A frame on air reaches some of the nodes (none: it is lost), each at most once; what they send
  in response is then on air.\<close>

inductive net_step :: "signal_lib \<Rightarrow> heap \<Rightarrow> net \<Rightarrow> net \<Rightarrow> bool" for lib :: signal_lib and h :: heap where
  broadcast: "f \<in># air s \<Longrightarrow> length f \<le> 255 \<Longrightarrow> distinct is \<Longrightarrow> set is \<subseteq> {..<length (nodes s)} \<Longrightarrow>
    hear lib h f is (nodes s) = Some (ns, out) \<Longrightarrow>
    net_step lib h s \<lparr>nodes = ns, air = air s - {#f#} + mset out\<rparr>"

definition net_ok :: "net \<Rightarrow> bool" where
  "net_ok s \<longleftrightarrow> (\<forall>n \<in> set (nodes s). node_ok n)"

definition net_weight :: "net \<Rightarrow> nat" where
  "net_weight s = (\<Sum>f\<in>#air s. (length (nodes s) + 1) ^ frame_rank f)"

lemma hear_ranks:
  assumes "hear lib h f is ns = Some (ns', out)" "\<forall>n \<in> set ns. node_ok n" "set is \<subseteq> {..<length ns}" "length f \<le> 255"
  shows "length ns' = length ns \<and> (\<forall>n \<in> set ns'. node_ok n) \<and> length out \<le> length is \<and>
    (\<forall>w \<in> set out. frame_rank w < frame_rank f)"
  using assms
proof (induction "is" arbitrary: ns out)
  case (Cons i "is")
  from Cons.prems(1) obtain n' out' where
    n': "on_radio_rx lib h f (ns ! i) = Some n'" "hear lib h f is (ns[i := n']) = Some (ns', out')"
    "out = sent_frames (ns ! i) n' @ out'" by (auto split: option.splits)
  have i: "node_ok (ns ! i)" using Cons.prems(2,3) by simp
  have ok: "\<forall>n \<in> set (ns[i := n']). node_ok n"
    using Cons.prems(2) on_radio_rx_ok [OF i n'(1)] set_update_subset_insert [of ns i n'] by blast
  have "set is \<subseteq> {..<length (ns[i := n'])}" using Cons.prems(3) by simp
  note IH = Cons.IH [OF n'(2) ok this Cons.prems(4)]
  have "length (sent_frames (ns ! i) n') \<le> 1 \<and> (\<forall>w \<in> set (sent_frames (ns ! i) n'). frame_rank w < frame_rank f)"
    using rx_sends [OF i Cons.prems(4) n'(1)] by auto
  with IH show ?case by (auto simp: n'(3))
qed simp

lemma weight_bound:
  assumes "length out \<le> k" "\<forall>w \<in> set out. frame_rank w < r"
  shows "(\<Sum>w\<in>#mset out. (k + 1) ^ frame_rank w) < (k + 1) ^ r"
proof (cases r)
  case 0
  with assms(2) show ?thesis by (cases out) auto
next
  case (Suc q)
  have "(\<Sum>w\<in>#mset out. (k + 1) ^ frame_rank w) \<le> length out * (k + 1) ^ q"
    using assms(2)
  proof (induction out)
    case (Cons w out)
    have "(k + 1) ^ frame_rank w \<le> (k + 1) ^ q" using Cons.prems by (intro power_increasing) (auto simp: Suc)
    with Cons show ?case by (simp add: add_mono)
  qed simp
  also have "\<dots> \<le> k * (k + 1) ^ q" using assms(1) by (simp add: mult_le_mono1)
  also have "\<dots> < (k + 1) ^ r" by (simp add: Suc)
  finally show ?thesis .
qed

lemma net_step_weight:
  assumes "net_step lib h s s'" "net_ok s"
  shows "net_ok s' \<and> net_weight s' < net_weight s"
  using assms(1)
proof cases
  case (broadcast f "is" ns out)
  have r: "length ns = length (nodes s) \<and> (\<forall>n \<in> set ns. node_ok n) \<and> length out \<le> length is \<and>
      (\<forall>w \<in> set out. frame_rank w < frame_rank f)"
    using hear_ranks [OF broadcast(6)] broadcast(3,5) assms(2) by (simp add: net_ok_def)
  have "length is \<le> length (nodes s)"
    using distinct_card [OF broadcast(4)] card_mono [OF _ broadcast(5)] by simp
  then have "(\<Sum>w\<in>#mset out. (length (nodes s) + 1) ^ frame_rank w) < (length (nodes s) + 1) ^ frame_rank f"
    using r by (intro weight_bound) auto
  moreover have "air s = add_mset f (air s - {#f#})" using broadcast(2) by simp
  then have "net_weight s = (length (nodes s) + 1) ^ frame_rank f +
      (\<Sum>w\<in>#air s - {#f#}. (length (nodes s) + 1) ^ frame_rank w)"
    unfolding net_weight_def by (metis image_mset_add_mset sum_mset.add_mset)
  ultimately show ?thesis using r by (simp add: broadcast(1) net_ok_def net_weight_def)
qed

text \<open>Property C4: every flood ends. In a network of nodes that satisfy the invariant, whichever
  nodes hear which frame in whichever order, the number of frames heard (or lost) is at most the
  sum, over the frames initially on air, of \<open>(nodes + 1) ^ rank\<close>, where the rank of a routable
  frame is its hop count, of a key request 1, and of every other frame 0; and the invariant of all
  nodes is kept.\<close>
theorem flood_terminates:
  assumes "net_ok s" and "(net_step lib h ^^ k) s s'"
  shows "k + net_weight s' \<le> net_weight s \<and> net_ok s'"
  using assms
proof (induction k arbitrary: s')
  case (Suc k)
  then obtain m where m: "(net_step lib h ^^ k) s m" "net_step lib h m s'" by auto
  from Suc.IH [OF Suc.prems(1) m(1)] have "k + net_weight m \<le> net_weight s" "net_ok m" by simp_all
  with net_step_weight [OF m(2)] show ?case by simp
qed simp

theorem flood_terminates_witness:
  "\<exists>s'. (net_step toy_signal ample ^^ 1) \<lparr>nodes = [toy_node], air = {#ex_frame#}\<rparr> s' \<and>
     1 + net_weight s' \<le> net_weight \<lparr>nodes = [toy_node], air = {#ex_frame#}\<rparr>"
proof -
  let ?s = "\<lparr>nodes = [toy_node], air = {#ex_frame#}\<rparr>"
  have "length ex_frame \<le> 255" by (simp add: ex_frame_decodes)
  then have "net_step toy_signal ample ?s \<lparr>nodes = nodes ?s, air = air ?s - {#ex_frame#} + mset []\<rparr>"
    by (intro broadcast [of _ _ "[]"]) auto
  then have "\<exists>s'. (net_step toy_signal ample ^^ 1) ?s s'" by (auto simp: relpowp_1)
  moreover have "net_ok ?s" by (simp add: net_ok_def)
  ultimately show ?thesis using flood_terminates [of ?s 1 toy_signal ample] by blast
qed

end
