(* ===== verification/Delivery.thy ===== *)
theory Delivery
  imports App FloodNet
begin

text \<open>
  A message on its way through the network: what comes out of a chain of relaying nodes, and what
  the last one makes of it. The lemmas join the operations of \<open>Mesh\<close>, \<open>BleBridge\<close> and \<open>App\<close>.
\<close>

section \<open>A chain of relays\<close>

text \<open>Each node of the chain receives what the one before it put on air (\<open>None\<close>: one of them sends
  nothing, or more than one frame, or does not return).\<close>

fun relay_path :: "signal_lib \<Rightarrow> heap \<Rightarrow> node list \<Rightarrow> bytes \<Rightarrow> bytes option" where
  "relay_path lib h [] f = Some f"
| "relay_path lib h (n # ns) f =
     (case on_radio_rx lib h f n of
        None \<Rightarrow> None
      | Some n' \<Rightarrow> (case sent_frames n n' of [f'] \<Rightarrow> relay_path lib h ns f' | _ \<Rightarrow> None))"

text \<open>A node that takes part in passing a frame with this header on.\<close>

definition accepts :: "pkt_hdr \<Rightarrow> node \<Rightarrow> bool" where
  "accepts hdr n \<longleftrightarrow> node_ok n \<and> src_id hdr \<noteq> s_local_id n \<and> \<not> limited_now hdr n \<and>
     msg_id hdr \<notin> set (dedup_recent (dedup_st n))"

lemma stages_ttl [simp]:
  "limited_now (hdr\<lparr>ttl := t\<rparr>) n = limited_now hdr n" "after_limiter (hdr\<lparr>ttl := t\<rparr>) n = after_limiter hdr n"
  "after_presence (hdr\<lparr>ttl := t\<rparr>) n = after_presence hdr n" "accepts (hdr\<lparr>ttl := t\<rparr>) n = accepts hdr n"
  by (simp_all add: limited_now_def after_limiter_def after_presence_def accepts_def)

lemma accepted_rx:
  assumes "accepts hdr n" "pkt_decode f = Some (hdr, p)" "length f \<le> 255"
    "pkt_type hdr \<noteq> PKT_TYPE_BEACON" "pkt_type hdr \<noteq> PKT_TYPE_KEY_BUNDLE"
  shows "\<exists>n'. on_radio_rx lib h f n = Some n' \<and>
    spi_log (rad n') = spi_log (rad n) @ (if ttl hdr > 1 then tx_commands (relay_frame f) else []) \<and>
    delivered n' = delivered (deliver_local lib h hdr p (after_presence hdr (after_limiter hdr n)))"
proof -
  have "\<not> fst (dedup_check_and_mark (msg_id hdr) (dedup_st n))"
    using assms(1) by (simp add: accepts_def dedup.mark_seen node_ok_def)
  with assms relay_encode(2) [OF assms(2,3)] show ?thesis
    by (simp add: accepts_def on_radio_rx_stages Let_def forward_relays [OF assms(2,3)] delivered_deliver_local)
qed

text \<open>The frame as it stands after \<open>k\<close> relays: the same message with fewer hops left.\<close>

lemma relay_path_frame:
  assumes "\<forall>n \<in> set ns. accepts hdr n" "length f \<le> 255" "length ns < unat (ttl hdr)"
    and "pkt_decode f = Some (hdr, body @ replicate (sig_len (pkt_type hdr)) 0)" "length body = unat (payload_len hdr)"
    and "pkt_type hdr \<noteq> PKT_TYPE_BEACON" "pkt_type hdr \<noteq> PKT_TYPE_KEY_BUNDLE"
  shows "\<exists>g. relay_path lib h ns f = Some g \<and> length g \<le> 255 \<and>
    pkt_decode g = Some (hdr\<lparr>ttl := ttl hdr - of_nat (length ns)\<rparr>, body @ replicate (sig_len (pkt_type hdr)) 0)"
  using assms
proof (induction ns arbitrary: f hdr)
  case Nil
  then show ?case by simp
next
  case (Cons n ns)
  have acc: "accepts hdr n" using Cons.prems(1) by simp
  have hops: "ttl hdr > 1" using Cons.prems(3) by (simp add: word_less_nat_alt)
  from accepted_rx [OF acc Cons.prems(4,2,6,7)] hops obtain n' where
    n': "on_radio_rx lib h f n = Some n'" "spi_log (rad n') = spi_log (rad n) @ tx_commands (relay_frame f)" by auto
  note d = relay_frame_decodes [OF Cons.prems(4,2)] relay_encode(2) [OF Cons.prems(4,2)]
  let ?hdr = "hdr\<lparr>ttl := ttl hdr - 1\<rparr>"
  have u: "unat (ttl hdr - 1) = unat (ttl hdr) - 1" using hops by (intro unat_minus_one) auto
  have "\<exists>g. relay_path lib h ns (relay_frame f) = Some g \<and> length g \<le> 255 \<and>
      pkt_decode g = Some (?hdr\<lparr>ttl := ttl ?hdr - of_nat (length ns)\<rparr>, body @ replicate (sig_len (pkt_type ?hdr)) 0)"
    using Cons.prems d u by (intro Cons.IH) auto
  then show ?case by (simp add: n' diff_diff_add [symmetric] add.commute)
qed

section \<open>What the receiver makes of it\<close>

lemma device_rx_delivers:
  assumes "accepts hdr (mesh_node d)" "pkt_decode f = Some (hdr, p)" "length f \<le> 255" "pkt_type hdr = PKT_TYPE_DATA"
    and "dst_id hdr = s_local_id (mesh_node d)" "s_rx_cb (mesh_node d)"
    and "pcrypto_decrypt lib h (src_id hdr) (take (unat (payload_len hdr)) p) PKT_MAX_PAYLOAD
      (cry (after_presence hdr (after_limiter hdr (mesh_node d)))) = (Inr pt, c)"
  shows "\<exists>d'. device_rx st lib h f d = Some d' \<and> delivered (mesh_node d') = delivered (mesh_node d) @ [(pt, src_id hdr)] \<and>
    bridge d' = ble_bridge_on_mesh_rx st pt (src_id hdr) (bridge d)"
proof -
  have "pkt_type hdr \<noteq> PKT_TYPE_BEACON" "pkt_type hdr \<noteq> PKT_TYPE_KEY_BUNDLE" using assms(4) by (simp_all add: pkt_consts)
  from accepted_rx [OF assms(1-3) this] obtain n' where
    n': "on_radio_rx lib h f (mesh_node d) = Some n'"
    "delivered n' = delivered (deliver_local lib h hdr p (after_presence hdr (after_limiter hdr (mesh_node d))))" by auto
  have "delivered n' = delivered (mesh_node d) @ [(pt, src_id hdr)]"
    using assms(4-7) by (simp add: n'(2) delivered_deliver_local)
  then show ?thesis by (simp add: device_rx_def n'(1) on_message_def)
qed

section \<open>What a sender puts on air\<close>

lemma data_sent:
  assumes "node_ok n" "length dst = PKT_NODE_ID_LEN" "length pt \<le> PKT_MAX_PAYLOAD"
    and "pcrypto_has_session lib h dst (cry n) = (True, c)" "pcrypto_encrypt lib h dst pt PKT_MAX_PAYLOAD c = (Inr ct, c')"
  obtains f hdr where "sent_frames n (snd (mesh_send lib h dst pt n)) = [f]" "length f \<le> 255"
    "pkt_decode f = Some (hdr, ct @ replicate PKT_SIG_LEN 0)" "pkt_type hdr = PKT_TYPE_DATA" "ttl hdr = PKT_TTL_DEFAULT"
    "src_id hdr = s_local_id n" "dst_id hdr = dst" "unat (payload_len hdr) = length ct"
proof -
  have l: "length (s_local_id (n\<lparr>cry := c'\<rparr>)) = 8" "length dst = 8" "dedup_ok (dedup_st (n\<lparr>cry := c'\<rparr>))" "length ct \<le> 200"
    using assms(1,2) pcrypto_encrypt_cap [OF assms(5)] by (simp_all add: node_ok_def PKT_NODE_ID_LEN_def PKT_MAX_PAYLOAD_def)
  have m: "mesh_send lib h dst pt n = send_data dst ct (n\<lparr>cry := c'\<rparr>)"
    using assms(3) by (simp add: mesh_send_cases assms(4,5))
  from send_data_frame [OF l(1,2,4,3)] obtain f a where f: "length f \<le> 255"
    "spi_log (rad (snd (send_data dst ct (n\<lparr>cry := c'\<rparr>)))) = spi_log (rad n) @ tx_commands f"
    "pkt_decode f = Some (a, ct @ replicate PKT_SIG_LEN 0)" "pkt_type a = PKT_TYPE_DATA" "ttl a = PKT_TTL_DEFAULT"
    "src_id a = s_local_id n" "dst_id a = dst" "unat (payload_len a) = length ct" by auto
  show thesis by (rule that [of f a]) (simp_all add: f m)
qed

lemma key_frame_rx:
  assumes "pkt_decode f = Some (hdr, p)" "src_id hdr \<noteq> s_local_id n" "\<not> limited_now hdr n" "pkt_type hdr = PKT_TYPE_KEY_BUNDLE"
  shows "on_radio_rx lib h f n = handle_key_bundle lib h hdr p (after_presence hdr (after_limiter hdr n))"
  using assms by (simp add: on_radio_rx_stages Let_def pkt_consts)

lemma request_sent:
  assumes "node_ok n" "length dst = PKT_NODE_ID_LEN" "length pt \<le> PKT_MAX_PAYLOAD"
    and "pcrypto_has_session lib h dst (cry n) = (False, c)"
  obtains f hdr where "mesh_send lib h dst pt n = (ESP_ERR_NOT_FOUND, snd (mesh_send lib h dst pt n))"
    "sent_frames n (snd (mesh_send lib h dst pt n)) = [f]"
    "pkt_decode f = Some (hdr, [KEY_BUNDLE_REQUEST])" "pkt_type hdr = PKT_TYPE_KEY_BUNDLE"
    "src_id hdr = s_local_id n" "dst_id hdr = dst" "payload_len hdr \<noteq> 0"
proof -
  have l: "length (s_local_id (n\<lparr>cry := c\<rparr>)) = 8" "length dst = 8" "length ([] :: bytes) \<le> 199"
    using assms(1,2) by (simp_all add: node_ok_def PKT_NODE_ID_LEN_def)
  from key_bundle_frame_on_air [OF l, of KEY_BUNDLE_REQUEST] obtain f a where
    f: "spi_log (rad (send_key_bundle_frame dst KEY_BUNDLE_REQUEST [] (n\<lparr>cry := c\<rparr>))) = spi_log (rad n) @ tx_commands f"
    "pkt_decode f = Some (a, [KEY_BUNDLE_REQUEST])" "pkt_type a = PKT_TYPE_KEY_BUNDLE" "src_id a = s_local_id n"
    "dst_id a = dst" "unat (payload_len a) = 1" by auto
  have m: "mesh_send lib h dst pt n = (ESP_ERR_NOT_FOUND, send_key_bundle_frame dst KEY_BUNDLE_REQUEST [] (n\<lparr>cry := c\<rparr>))"
    using assms(3) by (simp add: mesh_send_cases assms(4))
  show thesis by (rule that [of f a]) (use f in \<open>auto simp: m\<close>)
qed

text \<open>The answer to a request.\<close>

lemma request_answered:
  assumes "node_ok b" "pkt_decode f = Some (hdr, [KEY_BUNDLE_REQUEST])" "pkt_type hdr = PKT_TYPE_KEY_BUNDLE"
    and "dst_id hdr = s_local_id b" "payload_len hdr \<noteq> 0" "src_id hdr \<noteq> s_local_id b" "\<not> limited_now hdr b"
    and "pcrypto_local_bundle lib h (cry (after_presence hdr (after_limiter hdr b))) = Some (Inr bundle, c)"
  obtains b' g hdr' where "on_radio_rx lib h f b = Some b'" "sent_frames b b' = [g]"
    "pkt_decode g = Some (hdr', KEY_BUNDLE_RESPONSE # bundle)" "pkt_type hdr' = PKT_TYPE_KEY_BUNDLE"
    "src_id hdr' = s_local_id b" "dst_id hdr' = src_id hdr" "unat (payload_len hdr') = 1 + length bundle"
proof -
  let ?m = "after_presence hdr (after_limiter hdr b)"
  have l: "length (s_local_id (?m\<lparr>cry := c\<rparr>)) = 8" "length (src_id hdr) = 8"
    using assms(1) pkt_decode_wf [OF assms(2)] by (simp_all add: node_ok_def wf_hdr_def PKT_NODE_ID_LEN_def)
  from key_bundle_frame_on_air [OF l bundle_fits [OF assms(8)], of KEY_BUNDLE_RESPONSE] obtain g a where
    g: "spi_log (rad (send_key_bundle_frame (src_id hdr) KEY_BUNDLE_RESPONSE bundle (?m\<lparr>cry := c\<rparr>))) = spi_log (rad b) @ tx_commands g"
    "pkt_decode g = Some (a, KEY_BUNDLE_RESPONSE # bundle)" "pkt_type a = PKT_TYPE_KEY_BUNDLE" "src_id a = s_local_id b"
    "dst_id a = src_id hdr" "unat (payload_len a) = 1 + length bundle" by auto
  have len: "\<not> unat (payload_len hdr) < 1" using assms(5) by (simp add: unat_eq_zero)
  have r: "on_radio_rx lib h f b = Some (send_key_bundle_frame (src_id hdr) KEY_BUNDLE_RESPONSE bundle (?m\<lparr>cry := c\<rparr>))"
    using assms(4,8) len
    by (simp add: key_frame_rx [OF assms(2,6,7,3)] handle_key_bundle_def send_key_bundle_response_def Let_def)
  show thesis by (rule that [OF r, of g a]) (use g in auto)
qed

text \<open>The answer taken in.\<close>

lemma response_processed:
  assumes "pkt_decode g = Some (hdr, KEY_BUNDLE_RESPONSE # bundle)" "pkt_type hdr = PKT_TYPE_KEY_BUNDLE"
    and "dst_id hdr = s_local_id a" "src_id hdr \<noteq> s_local_id a" "unat (payload_len hdr) = 1 + length bundle" "\<not> limited_now hdr a"
  shows "on_radio_rx lib h g a =
    (let m = after_presence hdr (after_limiter hdr a)
     in Some (m\<lparr>cry := snd (pcrypto_process_bundle lib h (src_id hdr) bundle (cry m))\<rparr>))"
  using assms(3,5)
  by (simp add: key_frame_rx [OF assms(1,4,6,2)] handle_key_bundle_def Let_def case_prod_beta
    KEY_BUNDLE_REQUEST_def KEY_BUNDLE_RESPONSE_def)

section \<open>The session that an answer sets up\<close>

text \<open>What libsignal documents of two of its calls: \<open>signal_protocol_session_contains_session\<close> answers
  what the store's callback says, and a successful \<open>session_builder_process_pre_key_bundle\<close> has
  stored a session record for the peer (on a store that works).\<close>

definition session_documented :: "signal_lib \<Rightarrow> bool" where
  "session_documented lib \<longleftrightarrow>
     (\<forall>h a w. run_sg h (session_contains lib a) w = (if contains_session_func a (nvs w) then 1 else 0, w)) \<and>
     (\<forall>h a b w w'. fs_healthy (nvs w) \<and> run_sg h (process_pre_key_bundle lib a b) w = (True, w') \<longrightarrow>
        contains_session_func a (nvs w'))"

lemma has_session_documented:
  "session_documented lib \<Longrightarrow> pcrypto_has_session lib h a w = (contains_session_func a (nvs w), w)"
  by (simp add: session_documented_def pcrypto_has_session_def)

lemma bundle_gives_session:
  assumes "session_documented lib" "fs_healthy (nvs w)" "pcrypto_process_bundle lib h peer data w = (ESP_OK, w')"
  shows "pcrypto_has_session lib h peer w' = (True, w')"
proof -
  obtain b where "run_sg h (process_pre_key_bundle lib peer b) w = (True, w')"
    using assms(3) by (auto simp: pcrypto_process_bundle_def Let_def split: option.splits if_splits prod.splits)
  with assms(1,2) show ?thesis by (auto simp: has_session_documented session_documented_def)
qed

lemma bundle_refused:
  assumes "session_documented lib" "parse_bundle data = None"
  shows "pcrypto_process_bundle lib h peer data w = (ESP_ERR_INVALID_ARG, w)"
  using assms(2) by (simp add: pcrypto_process_bundle_def)

section \<open>Concrete nodes\<close>

text \<open>A sender with a session with the receiver, a relay, the receiver with one phone, and a peer that
  can hand out a bundle.\<close>

definition ex_sender :: device where
  "ex_sender = toy_device\<lparr>mesh_node := toy_node\<lparr>cry :=
     \<lparr>nvs = snd (nvs_set_blob NVS_HANDLE (ss_key (replicate 8 3)) [7] host_fs_empty), plat = toy_platform\<rparr>\<rparr>\<rparr>"

definition ex_middle :: node where "ex_middle = toy_node\<lparr>s_local_id := replicate 8 4\<rparr>"

definition ex_receiver :: device where
  "ex_receiver = toy_device\<lparr>mesh_node := toy_node\<lparr>s_local_id := replicate 8 3\<rparr>, bridge := toy_ble\<rparr>"

definition ex_peer :: node where "ex_peer = toy_node\<lparr>s_local_id := replicate 8 3, cry := ex_crypto\<rparr>"

lemma ex_nodes_ok [simp]: "node_ok (mesh_node ex_sender)" "node_ok ex_middle" "node_ok (mesh_node ex_receiver)" "node_ok ex_peer"
  using toy_node_ok by (simp_all add: node_ok_def ex_sender_def ex_middle_def ex_receiver_def ex_peer_def PKT_NODE_ID_LEN_def)

lemma ex_accepts:
  "src_id hdr = replicate 8 2 \<Longrightarrow> accepts hdr ex_middle" "src_id hdr = replicate 8 2 \<Longrightarrow> accepts hdr (mesh_node ex_receiver)"
  "\<not> limited_now hdr ex_peer"
  by (simp_all add: accepts_def limited_now_def rate_verdict) (simp_all add: ex_middle_def ex_receiver_def ex_peer_def rate_verdict)

lemma ex_sender_session:
  "pcrypto_has_session toy_signal ample (replicate 8 3) (cry (mesh_node ex_sender)) = (True, cry (mesh_node ex_sender))"
  "pcrypto_encrypt toy_signal ample (replicate 8 3) [65] 200 (cry (mesh_node ex_sender)) = (Inr [2, 20], cry (mesh_node ex_sender))"
proof -
  let ?w = "cry (mesh_node ex_sender)"
  have w: "nvs ?w = snd (nvs_set_blob NVS_HANDLE (ss_key (replicate 8 3)) [7] host_fs_empty)" by (simp add: ex_sender_def)
  have ok: "fs_healthy (nvs ?w)" "nvs_read (ss_key (replicate 8 3)) (nvs ?w) = Inr [7]"
    unfolding w by (simp_all add: nvs_put_healthy NVS_MAX_LEN_def)
  have t: "session_contains toy_signal a = ContainsSession a (\<lambda>b. Return (if b then 1 else 0))"
    "session_cipher_create_ok toy_signal a"
    "session_cipher_encrypt toy_signal a pt = LoadSession a (\<lambda>r. case r of Inr (Some s) \<Rightarrow>
        Return (Some (2, map (xor 0x55) pt)) | _ \<Rightarrow> Return None)" for a pt
    by (simp_all add: toy_signal_def)
  show "pcrypto_has_session toy_signal ample (replicate 8 3) ?w = (True, ?w)"
    by (simp add: pcrypto_has_session_def t contains_healthy ok)
  show "pcrypto_encrypt toy_signal ample (replicate 8 3) [65] 200 ?w = (Inr [2, 20], ?w)"
    by (simp add: pcrypto_encrypt_def t load_session_healthy ok)
qed

lemma ex_decrypts: "pcrypto_decrypt toy_signal ample a [2, 20] 200 w = (Inr [65], w)"
  by (simp add: pcrypto_decrypt_def) (simp add: toy_signal_def)

lemma toy_session_documented: "session_documented toy_signal"
proof -
  have t: "session_contains toy_signal a = ContainsSession a (\<lambda>b. Return (if b then 1 else 0))"
    "process_pre_key_bundle toy_signal a b = StoreSession a [7] (\<lambda>c. Return (c = SG_SUCCESS))" for a b
    by (simp_all add: toy_signal_def)
  have "contains_session_func a fs'" if "fs_healthy fs" "store_session_func a [7] fs = (c, fs')" for a fs c fs'
  proof -
    have e: "fst (nvs_set_blob NVS_HANDLE (ss_key a) [7] fs) = ESP_OK"
      using that(1) by (simp add: nvs_set_healthy NVS_MAX_LEN_def)
    with that(2) have "fs' = snd (nvs_set_blob NVS_HANDLE (ss_key a) [7] fs)"
      by (auto simp: store_session_func_def nvs_commit_def split: prod.splits if_splits)
    with that(1) show ?thesis by (simp add: contains_healthy nvs_put_healthy NVS_MAX_LEN_def)
  qed
  then show ?thesis by (auto simp: session_documented_def t on_nvs_def split: prod.splits)
qed

text \<open>An answer to \<open>toy_node\<close> from the node with the ID of \<open>ex_peer\<close>, with a bundle that is accepted.\<close>

definition ex_answer_bundle :: bytes where "ex_answer_bundle = bundle_image ex_bundle"

definition ex_answer_hdr :: pkt_hdr where
  "ex_answer_hdr = ex_request_hdr\<lparr>src_id := replicate 8 3, payload_len := of_nat (1 + length ex_answer_bundle)\<rparr>"

lemma ex_answer_len: "length ex_answer_bundle \<le> 100"
  by (simp add: ex_answer_bundle_def bundle_image_def ex_bundle_def)

lemma ex_answer_decodes:
  "pkt_decode (hdr_bytes ex_answer_hdr @ KEY_BUNDLE_RESPONSE # ex_answer_bundle) = Some (ex_answer_hdr, KEY_BUNDLE_RESPONSE # ex_answer_bundle)"
  "unat (payload_len ex_answer_hdr) = 1 + length ex_answer_bundle"
proof -
  have wf: "wf_hdr ex_answer_hdr" by (simp add: wf_hdr_def ex_answer_hdr_def ex_request_hdr_def ex_hdr_def pkt_consts)
  have l: "length (hdr_bytes ex_answer_hdr) = 39"
    using length_hdr_bytes [OF wf] by (simp add: PKT_HDR_LEN_39)
  show n: "unat (payload_len ex_answer_hdr) = 1 + length ex_answer_bundle"
    using unat_of_nat_byte [of "1 + length ex_answer_bundle"] ex_answer_len by (simp add: ex_answer_hdr_def)
  have "sig_len (pkt_type ex_answer_hdr) = 0"
    by (simp add: ex_answer_hdr_def ex_request_hdr_def sig_len_def pkt_consts)
  with wf l n show "pkt_decode (hdr_bytes ex_answer_hdr @ KEY_BUNDLE_RESPONSE # ex_answer_bundle) =
      Some (ex_answer_hdr, KEY_BUNDLE_RESPONSE # ex_answer_bundle)"
    by (simp add: pkt_decode_Some_iff PKT_HDR_LEN_39)
qed

lemma ex_answer_accepted:
  assumes "fs_healthy (nvs w)"
  shows "\<exists>c. pcrypto_process_bundle toy_signal ample peer ex_answer_bundle w = (ESP_OK, c) \<and>
    pcrypto_encrypt toy_signal ample peer [65] 200 c = (Inr [2, 20], c)"
proof -
  have "parse_bundle ex_answer_bundle = Some ex_bundle"
    unfolding ex_answer_bundle_def by (rule parse_bundle_complete [of _ _ "[]"]) (simp_all add: ex_bundle_def blobs_fit_def)
  moreover have "store_session_func peer [7] (nvs w) = (SG_SUCCESS, snd (nvs_set_blob NVS_HANDLE (ss_key peer) [7] (nvs w)))"
    using assms by (simp add: store_session_func_def nvs_set_healthy NVS_MAX_LEN_def nvs_commit_def)
  moreover have "fs_healthy (snd (nvs_set_blob NVS_HANDLE (ss_key peer) [7] (nvs w)))"
    "nvs_read (ss_key peer) (snd (nvs_set_blob NVS_HANDLE (ss_key peer) [7] (nvs w))) = Inr [7]"
    using assms by (simp_all add: nvs_put_healthy NVS_MAX_LEN_def)
  moreover have t: "process_pre_key_bundle toy_signal a b = StoreSession a [7] (\<lambda>c. Return (c = SG_SUCCESS))"
    "session_cipher_create_ok toy_signal a" "curve_decode_point toy_signal d = (if d = [] then None else Some d)"
    "bundle_create_ok toy_signal b" "session_builder_create_ok toy_signal a"
    "session_cipher_encrypt toy_signal a pt = LoadSession a (\<lambda>r. case r of Inr (Some s) \<Rightarrow>
        Return (Some (2, map (xor 0x55) pt)) | _ \<Rightarrow> Return None)" for a b d pt
    by (simp_all add: toy_signal_def)
  ultimately show ?thesis
    by (simp add: pcrypto_process_bundle_def pcrypto_encrypt_def on_nvs_def load_session_healthy ex_bundle_def)
qed

end
