(* ===== verification/ChipRing.thy ===== *)
theory ChipRing
  imports Prelude
begin

text \<open>
  The data buffer of the radio chip: a ring of 256 bytes, written and read from any offset. The
  chip's data sheet is its only description; it serves both directions.
\<close>

fun ring_write :: "nat \<Rightarrow> bytes \<Rightarrow> bytes \<Rightarrow> bytes" where
  "ring_write off [] f = f"
| "ring_write off (b # bs) f = ring_write (Suc off) bs (f[off mod 256 := b])"

definition ring_read :: "nat \<Rightarrow> nat \<Rightarrow> bytes \<Rightarrow> bytes" where
  "ring_read off n f = map (\<lambda>i. f ! ((off + i) mod 256)) [0..<n]"

lemma length_ring_write [simp, len_simps]: "length (ring_write off bs f) = length f"
  by (induction off bs f rule: ring_write.induct) simp_all

lemma length_ring_read [simp, len_simps]: "length (ring_read off n f) = n"
  by (simp add: ring_read_def)

lemma ring_write_other:
  "length f = 256 \<Longrightarrow> (\<And>i. i < length bs \<Longrightarrow> (off + i) mod 256 \<noteq> j) \<Longrightarrow> ring_write off bs f ! j = f ! j"
proof (induction off bs f rule: ring_write.induct)
  case (2 off b bs f)
  have "(Suc off + i) mod 256 \<noteq> j" if "i < length bs" for i using "2.prems"(2) [of "Suc i"] that by simp
  moreover have "off mod 256 \<noteq> j" using "2.prems"(2) [of 0] by simp
  ultimately show ?case using "2.IH" "2.prems"(1) by simp
qed simp

lemma ring_ahead: "k < 255 \<Longrightarrow> (Suc off + k) mod 256 \<noteq> off mod 256"
proof
  assume k: "k < 255" and "(Suc off + k) mod 256 = off mod 256"
  then have "256 dvd Suc off + k - off" by (subst (asm) mod_eq_dvd_iff_nat) simp_all
  then have "256 dvd Suc k" by simp
  then have "256 \<le> Suc k" by (rule dvd_imp_le) simp
  with k show False by simp
qed

lemma ring_write_nth:
  "length f = 256 \<Longrightarrow> length bs \<le> 256 \<Longrightarrow> i < length bs \<Longrightarrow> ring_write off bs f ! ((off + i) mod 256) = bs ! i"
proof (induction off bs f arbitrary: i rule: ring_write.induct)
  case (2 off b bs f)
  show ?case
  proof (cases i)
    case 0
    have "(Suc off + k) mod 256 \<noteq> off mod 256" if "k < length bs" for k
      using that "2.prems"(2) by (intro ring_ahead) simp
    then have "ring_write (Suc off) bs (f[off mod 256 := b]) ! (off mod 256) = f[off mod 256 := b] ! (off mod 256)"
      using "2.prems"(1) by (intro ring_write_other) simp_all
    with 0 "2.prems"(1) show ?thesis by simp
  next
    case (Suc k)
    from Suc "2.prems" have "ring_write (Suc off) bs (f[off mod 256 := b]) ! ((Suc off + k) mod 256) = bs ! k"
      by (intro "2.IH") simp_all
    with Suc show ?thesis by simp
  qed
qed simp

lemma ring_read_write:
  assumes "length f = 256" "length bs \<le> 256"
  shows "ring_read off (length bs) (ring_write off bs f) = bs"
  by (rule nth_equalityI) (simp_all add: ring_read_def ring_write_nth assms)

text \<open>Reading back a part of what was written.\<close>

lemma ring_read_write_take:
  assumes "length f = 256" "length bs \<le> 256" "n \<le> length bs"
  shows "ring_read off n (ring_write off bs f) = take n bs"
  by (rule nth_equalityI) (use assms in \<open>simp_all add: ring_read_def ring_write_nth\<close>)

end
