(* ===== verification/Sx1262Chip.thy ===== *)
theory Sx1262Chip
  imports FloodNet ChipRing
begin

text \<open>
  What the commands of the driver (\<open>Sx1262\<close>) mean to the chip, as its data sheet documents them:
  an abstract specification of the SPI log. The chip has a ring of 256 bytes that is shared by
  both directions, the settings of the channel (packet type, frequency, modulation, framing), a
  mode, and interrupt bits. Executing a transaction changes this state; the bytes that the chip
  answers are a function of it. A transmission is taken to its end at once: the frame goes on air,
  the enabled TxDone bit is raised and the chip falls back to standby.
\<close>

section \<open>The chip of the data sheet\<close>

datatype chip_mode = Standby | RxMode

text \<open>The settings that a sender and a receiver must share. In explicit header mode the payload
  length travels with the packet, so it is not among them.\<close>

record channel =
  packet_type :: bytes
  synth :: bytes
  modulation :: bytes
  framing :: bytes

record chip =
  ring :: bytes
  tx_base :: nat
  payload_size :: nat
  chan :: channel
  chip_state :: chip_mode
  irq_bits :: u16
  irq_mask :: u16
  rx_size :: nat
  rx_start :: nat
  signal :: bytes
  aired :: "(channel \<times> bytes) list"

definition join16 :: "byte \<Rightarrow> byte \<Rightarrow> u16" where
  "join16 hi lo = push_bit 8 (ucast hi) OR ucast lo"

text \<open>One transaction: the bytes the driver shifts out, the operation code first.\<close>

definition chip_exec :: "bytes \<Rightarrow> chip \<Rightarrow> chip" where
  "chip_exec t c = (case t of [] \<Rightarrow> c | op # d \<Rightarrow>
     if op = SX1262_OP_WRITE_BUFFER then c\<lparr>ring := ring_write (unat (d ! 0)) (drop 1 d) (ring c)\<rparr>
     else if op = SX1262_OP_SET_PACKET_PARAMS
       then c\<lparr>payload_size := unat (d ! 3), chan := (chan c)\<lparr>framing := [d ! 0, d ! 1, d ! 2, d ! 4, d ! 5]\<rparr>\<rparr>
     else if op = SX1262_OP_SET_TX
       then c\<lparr>aired := aired c @ [(chan c, ring_read (tx_base c) (payload_size c) (ring c))],
              irq_bits := irq_bits c OR (irq_mask c AND SX1262_IRQ_TX_DONE), chip_state := Standby\<rparr>
     else if op = SX1262_OP_SET_RX then c\<lparr>chip_state := RxMode\<rparr>
     else if op = SX1262_OP_SET_STANDBY then c\<lparr>chip_state := Standby\<rparr>
     else if op = SX1262_OP_CLEAR_IRQ_STATUS then c\<lparr>irq_bits := irq_bits c AND NOT (join16 (d ! 0) (d ! 1))\<rparr>
     else if op = SX1262_OP_SET_DIO_IRQ_PARAMS then c\<lparr>irq_mask := join16 (d ! 0) (d ! 1)\<rparr>
     else if op = SX1262_OP_SET_PACKET_TYPE then c\<lparr>chan := (chan c)\<lparr>packet_type := d\<rparr>\<rparr>
     else if op = SX1262_OP_SET_RF_FREQUENCY then c\<lparr>chan := (chan c)\<lparr>synth := d\<rparr>\<rparr>
     else if op = SX1262_OP_SET_MODULATION_PARAMS then c\<lparr>chan := (chan c)\<lparr>modulation := d\<rparr>\<rparr>
     else if op = SX1262_OP_SET_BUFFER_BASE_ADDR then c\<lparr>tx_base := unat (d ! 0)\<rparr>
     else c)"

definition chip_run :: "bytes list \<Rightarrow> chip \<Rightarrow> chip" where
  "chip_run ts c = fold chip_exec ts c"

text \<open>The byte that the chip shifts out at position \<open>i\<close> of a transaction; the first ones are status
  bytes, which the driver skips.\<close>

definition chip_reply :: "bytes \<Rightarrow> chip \<Rightarrow> nat \<Rightarrow> byte" where
  "chip_reply t c i = (case t of [] \<Rightarrow> 0 | op # d \<Rightarrow>
     if op = SX1262_OP_GET_IRQ_STATUS then [0, 0, hi_byte (irq_bits c), lo_byte (irq_bits c)] ! i
     else if op = SX1262_OP_GET_RX_BUFFER_STATUS then [0, 0, of_nat (rx_size c), of_nat (rx_start c)] ! i
     else if op = SX1262_OP_READ_BUFFER then ring c ! ((unat (d ! 0) + (i - 3)) mod 256)
     else if op = SX1262_OP_GET_PACKET_STATUS then ([0, 0] @ signal c) ! i
     else 0)"

text \<open>A packet with a correct CRC arrives at a receiving chip: it is written to the ring from some
  offset, and the enabled RxDone bit is raised.\<close>

definition chip_hears :: "nat \<Rightarrow> bytes \<Rightarrow> bytes \<Rightarrow> chip \<Rightarrow> chip" where
  "chip_hears off pkt sig c =
     c\<lparr>ring := ring_write off pkt (ring c), rx_size := length pkt, rx_start := off, signal := sig,
       irq_bits := irq_bits c OR (irq_mask c AND SX1262_IRQ_RX_DONE)\<rparr>"

section \<open>What the driver's commands do to the chip\<close>

text \<open>The channel that \<open>mesh_cfg\<close> stands for: LoRa, 868.1 MHz, SF7, 125 kHz, 4/5, a preamble of 8,
  explicit header, CRC, no inversion.\<close>

definition mesh_channel :: channel where
  "mesh_channel = \<lparr>packet_type = [1], synth = [0x36, 0x41, 0x99, 0x99], modulation = [7, 4, 1, 0],
     framing = [0, 8, 0, 1, 0]\<rparr>"

text \<open>A chip that has been set up by \<open>mesh_init\<close>.\<close>

definition chip_up :: "chip \<Rightarrow> bool" where
  "chip_up c \<longleftrightarrow> length (ring c) = 256 \<and> tx_base c = 0 \<and> chan c = mesh_channel \<and> irq_mask c = 0x43"

lemma chip_run_simps [simp]:
  "chip_run [] c = c" "chip_run (t # ts) c = chip_run ts (chip_exec t c)"
  "chip_run (ts @ us) c = chip_run us (chip_run ts c)"
  by (simp_all add: chip_run_def)

lemma exec_tx [simp]:
  "chip_exec (0x0E # 0 # buf) c = c\<lparr>ring := ring_write 0 buf (ring c)\<rparr>"
  "chip_exec [0x8C, 0, 8, 0, n, 1, 0] c = c\<lparr>payload_size := unat n, chan := (chan c)\<lparr>framing := [0, 8, 0, 1, 0]\<rparr>\<rparr>"
  "chip_exec [0x83, 0, 0, 0] c = c\<lparr>aired := aired c @ [(chan c, ring_read (tx_base c) (payload_size c) (ring c))],
     irq_bits := irq_bits c OR (irq_mask c AND SX1262_IRQ_TX_DONE), chip_state := Standby\<rparr>"
  "chip_exec [0x82, 0xFF, 0xFF, 0xFF] c = c\<lparr>chip_state := RxMode\<rparr>"
  by (simp_all add: chip_exec_def sx_ops)

lemma mesh_channel_framing [simp]: "mesh_channel\<lparr>framing := [0, 8, 0, 1, 0]\<rparr> = mesh_channel"
  by (simp add: mesh_channel_def)

lemma chip_tx:
  assumes "chip_up c" "length buf \<le> 255"
  shows "chip_up (chip_run (tx_commands buf) c)"
    and "aired (chip_run (tx_commands buf) c) = aired c @ [(mesh_channel, buf)]"
proof -
  have r: "ring_read 0 (length buf) (ring_write 0 buf (ring c)) = buf"
    using assms by (intro ring_read_write) (simp_all add: chip_up_def)
  have n: "unat (of_nat (length buf) :: byte) = length buf" using assms(2) by (intro unat_of_nat_byte) simp
  show "chip_up (chip_run (tx_commands buf) c)"
    using assms by (simp add: tx_commands_def sx_ops chip_up_def)
  show "aired (chip_run (tx_commands buf) c) = aired c @ [(mesh_channel, buf)]"
    using assms r n by (simp add: tx_commands_def sx_ops chip_up_def)
qed

lemma bring_up_chip:
  assumes "length (ring c) = 256"
    and "spi_log (rad n') = spi_log (rad n) @
      [[0x80, 0x00], [0x96, 0x01], [0x89, 0x7F], [0x8A, 0x01],
       [0x86, 0x36, 0x41, 0x99, 0x99], [0x8B, 7, 4, 1, 0],
       [0x8C, 0, 8, 0, 255, 1, 0], [0x95, 0x04, 0x07, 0x00, 0x01], [0x8E, 14, 0x04], [0x8F, 0, 0],
       [0x08, 0, 0x43, 0, 0x43, 0, 0, 0, 0],
       [0x8C, 0, 8, 0, 255, 1, 0], [0x82, 0xFF, 0xFF, 0xFF]]"
  shows "chip_up (chip_run (drop (length (spi_log (rad n))) (spi_log (rad n'))) c) \<and>
    chip_state (chip_run (drop (length (spi_log (rad n))) (spi_log (rad n'))) c) = RxMode \<and>
    aired (chip_run (drop (length (spi_log (rad n))) (spi_log (rad n'))) c) = aired c"
  using assms by (simp add: chip_exec_def sx_ops chip_up_def mesh_channel_def join16_def)

section \<open>What an operation of the node does to the chip\<close>

text \<open>The commands between two states of a node; the operation sends at most one frame.\<close>

definition new_commands :: "node \<Rightarrow> node \<Rightarrow> bytes list" where
  "new_commands n n' = drop (length (spi_log (rad n))) (spi_log (rad n'))"

definition at_most_one :: "node \<Rightarrow> node \<Rightarrow> bool" where
  "at_most_one n n' \<longleftrightarrow> spi_log (rad n') = spi_log (rad n) \<or>
     (\<exists>w. length w \<le> 255 \<and> spi_log (rad n') = spi_log (rad n) @ tx_commands w)"

lemma at_most_one_aired:
  assumes "chip_up c" "at_most_one n n'"
  shows "aired (chip_run (new_commands n n') c) = aired c @ map (Pair mesh_channel) (sent_frames n n') \<and>
    chip_up (chip_run (new_commands n n') c)"
  using assms(2) unfolding at_most_one_def
proof (elim disjE exE conjE)
  fix w :: bytes
  assume "length w \<le> 255" "spi_log (rad n') = spi_log (rad n) @ tx_commands w"
  with chip_tx [OF assms(1)] show ?thesis by (simp add: new_commands_def)
qed (use assms(1) in \<open>simp add: new_commands_def\<close>)

lemma radio_send_one: "rad m = rad n \<Longrightarrow> at_most_one n (snd (radio_send w m))"
  unfolding at_most_one_def by (cases "length w \<le> 255") auto

lemma at_most_one_quiet: "rad m = rad n \<Longrightarrow> at_most_one n m"
  by (simp add: at_most_one_def)

lemma forward_one: "rad m = rad n \<Longrightarrow> at_most_one n (forward hdr p m)"
  by (simp add: forward_def Let_def radio_send_one at_most_one_quiet split: option.split)

lemma key_frame_one: "rad m = rad n \<Longrightarrow> at_most_one n (send_key_bundle_frame dst st extra m)"
  by (simp add: send_key_bundle_frame_def case_prod_beta Let_def radio_send_one at_most_one_quiet split: option.split)

lemma send_beacon_one: "rad m = rad n \<Longrightarrow> at_most_one n (send_beacon m)"
  unfolding at_most_one_def
  by (auto simp: send_beacon_def case_prod_beta Let_def not_less split: option.split)

lemma mesh_poll_one: "at_most_one n (mesh_poll n)"
  by (simp add: mesh_poll_cases send_beacon_one at_most_one_quiet)

lemma mesh_send_one: "at_most_one n (snd (mesh_send lib h dst pt n))"
  by (simp add: mesh_send_def send_key_bundle_request_def case_prod_beta Let_def key_frame_one radio_send_one
      at_most_one_quiet split: sum.split option.split)

lemma on_radio_rx_one:
  assumes "on_radio_rx lib h f n = Some n'"
  shows "at_most_one n n'"
proof (cases "pkt_decode f")
  case None
  with assms show ?thesis by (simp add: on_radio_rx_def at_most_one_quiet)
next
  case (Some hp)
  let ?m = "after_presence (fst hp) (after_limiter (fst hp) n)"
  have key: "at_most_one n k" if "handle_key_bundle lib h hdr p ?m = Some k" for hdr p k
    using that
    by (auto simp: handle_key_bundle_def send_key_bundle_response_def Let_def key_frame_one at_most_one_quiet
      split: if_splits option.splits prod.splits sum.splits)
  from assms Some key show ?thesis
    by (cases hp) (auto simp: on_radio_rx_stages Let_def at_most_one_quiet forward_one split: if_splits)
qed

section \<open>Reception\<close>

text \<open>What the driver reads in a call that leads from \<open>r\<close> to \<open>r'\<close> is what a chip in state \<open>c\<close> answers,
  transaction by transaction.\<close>

definition chip_answers :: "chip \<Rightarrow> radio \<Rightarrow> radio \<Rightarrow> bool" where
  "chip_answers c r r' \<longleftrightarrow> (\<forall>k i. length (spi_log r) \<le> k \<and> k < length (spi_log r') \<longrightarrow>
     miso r k i = chip_reply (spi_log r' ! k) (chip_run (drop (length (spi_log r)) (take k (spi_log r'))) c) i)"

lemma chip_answers_nth:
  assumes "chip_answers c r r'" "spi_log r' = spi_log r @ ts @ t # us"
  shows "miso r (length (spi_log r) + length ts) i = chip_reply t (chip_run ts c) i"
  using assms(1) [unfolded chip_answers_def, rule_format, of "length (spi_log r) + length ts" i]
  by (simp add: assms(2) nth_append)

text \<open>The log of the handler: status, acknowledgement and the rest; for a received packet, exactly.\<close>

lemma handle_irq_log: "\<exists>us. spi_log (snd (handle_irq r)) = spi_log r @ irq_prefix r @ us"
proof (rule handle_irq_unfold [of r])
  fix r3 :: radio
  assume l: "spi_log r3 = spi_log r @ irq_prefix r"
  assume h: "handle_irq r =
      (if has_irq (irq_reported r) SX1262_IRQ_RX_DONE
       then if has_irq (irq_reported r) SX1262_IRQ_CRC_ERR then (None, r3)
       else let (buf_status, r4) = sx1262_read SX1262_OP_GET_RX_BUFFER_STATUS [] 2 r3;
                (rx_buf, r5) = sx1262_read SX1262_OP_READ_BUFFER [buf_status ! 1] (unat (buf_status ! 0)) r4;
                (status3, r6) = sx1262_read SX1262_OP_GET_PACKET_STATUS [] 3 r5
            in (if rx_cb_set r6 then Some \<lparr>rx_data = rx_buf, rx_rssi = - (c_div (uint (status3 ! 0)) 2),
                  rx_snr = c_div (sint (status3 ! 1)) 4\<rparr> else None, r6)
       else (None, r3))"
  show ?thesis by (simp add: h l Let_def case_prod_beta)
qed

definition rx_commands :: "byte \<Rightarrow> byte \<Rightarrow> bytes list" where
  "rx_commands sz start = [[0x12, 0, 0, 0], [0x02, 0, 2], [0x13, 0, 0, 0],
     [0x1E, start] @ replicate (1 + unat sz) 0, [0x14, 0, 0, 0, 0]]"

lemma handle_irq_packet:
  assumes "miso r (length (spi_log r)) 2 = 0" "miso r (length (spi_log r)) 3 = 2" "rx_cb_set r"
  defines "sz \<equiv> miso r (length (spi_log r) + 2) 2" and "start \<equiv> miso r (length (spi_log r) + 2) 3"
  shows "spi_log (snd (handle_irq r)) = spi_log r @ rx_commands sz start"
    and "\<exists>p. fst (handle_irq r) = Some p \<and>
      rx_data p = map (\<lambda>i. miso r (length (spi_log r) + 3) (3 + i)) [0..<unat sz]"
proof -
  have irq: "irq_reported r = 2" using assms(1,2) by (simp add: irq_reported_def)
  then have rx: "has_irq (irq_reported r) SX1262_IRQ_RX_DONE" "\<not> has_irq (irq_reported r) SX1262_IRQ_CRC_ERR"
    "\<not> has_irq (irq_reported r) SX1262_IRQ_TX_DONE" by (simp_all add: has_irq_def sx_irqs)
  have "spi_log (snd (handle_irq r)) = spi_log r @ rx_commands sz start \<and> (\<exists>p. fst (handle_irq r) = Some p \<and>
      rx_data p = map (\<lambda>i. miso r (length (spi_log r) + 3) (3 + i)) [0..<unat sz])"
  proof (rule handle_irq_unfold [of r])
    fix r3 :: radio
    assume l: "spi_log r3 = spi_log r @ irq_prefix r" and m: "rx_cb_set r3 = rx_cb_set r" "miso r3 = miso r"
    assume h: "handle_irq r =
      (if has_irq (irq_reported r) SX1262_IRQ_RX_DONE
       then if has_irq (irq_reported r) SX1262_IRQ_CRC_ERR then (None, r3)
       else let (buf_status, r4) = sx1262_read SX1262_OP_GET_RX_BUFFER_STATUS [] 2 r3;
                (rx_buf, r5) = sx1262_read SX1262_OP_READ_BUFFER [buf_status ! 1] (unat (buf_status ! 0)) r4;
                (status3, r6) = sx1262_read SX1262_OP_GET_PACKET_STATUS [] 3 r5
            in (if rx_cb_set r6 then Some \<lparr>rx_data = rx_buf, rx_rssi = - (c_div (uint (status3 ! 0)) 2),
                  rx_snr = c_div (sint (status3 ! 1)) 4\<rparr> else None, r6)
       else (None, r3))"
    have two: "[0..<2] = [0, 1 :: nat]" and three: "[0..<3] = [0, 1, 2 :: nat]" by (simp_all add: upt_rec numeral_eq_Suc)
    have l: "spi_log r3 = spi_log r @ [[0x12, 0, 0, 0], [0x02, 0, 2]]"
      using l rx(3) assms(1,2) by (simp add: irq_prefix_def sx_ops)
    show ?thesis
      unfolding h using rx
      by (simp add: Let_def case_prod_beta l m assms(3) two three sz_def start_def rx_commands_def sx_ops
          add.commute numeral_eq_Suc)
  qed
  then show "spi_log (snd (handle_irq r)) = spi_log r @ rx_commands sz start"
    "\<exists>p. fst (handle_irq r) = Some p \<and> rx_data p = map (\<lambda>i. miso r (length (spi_log r) + 3) (3 + i)) [0..<unat sz]"
    by blast+
qed

lemma join16_rx [simp]: "join16 0 2 = 2"
  by (simp add: join16_def)

lemma heard_irq: "irq_mask c = 0x43 \<Longrightarrow> irq_bits c = 0 \<Longrightarrow> irq_bits (chip_hears off pkt sig c) = 2"
  by (simp add: chip_hears_def sx_irqs)

lemma hi_lo_two: "hi_byte 2 = 0" "lo_byte 2 = 2"
  by (simp_all add: hi_byte_def lo_byte_def)

lemma exec_rx [simp]:
  "chip_exec [0x12, 0, 0, 0] c = c" "chip_exec [0x02, 0, 2] c = c\<lparr>irq_bits := irq_bits c AND NOT 2\<rparr>"
  "chip_exec [0x13, 0, 0, 0] c = c" "chip_exec (0x1E # d) c = c" "chip_exec [0x14, 0, 0, 0, 0] c = c"
  by (simp_all add: chip_exec_def sx_ops)

lemma chip_run_rx: "chip_run (rx_commands sz st) c = c\<lparr>irq_bits := irq_bits c AND NOT 2\<rparr>"
  by (simp add: rx_commands_def)

lemma handle_irq_reads_chip:
  assumes "chip_answers c r (snd (handle_irq r))" "rx_cb_set r" "irq_bits c = 2" "length (ring c) = 256"
    "rx_size c \<le> 255" "rx_start c < 256"
  shows "\<exists>p. fst (handle_irq r) = Some p \<and> rx_data p = ring_read (rx_start c) (rx_size c) (ring c) \<and>
    spi_log (snd (handle_irq r)) = spi_log r @ rx_commands (of_nat (rx_size c)) (of_nat (rx_start c))"
proof -
  let ?k = "length (spi_log r)"
  obtain us where "spi_log (snd (handle_irq r)) = spi_log r @ irq_prefix r @ us" using handle_irq_log by blast
  then have "\<exists>vs. spi_log (snd (handle_irq r)) = spi_log r @ [] @ [0x12, 0, 0, 0] # vs"
    by (simp add: irq_prefix_def sx_ops)
  then obtain vs where "spi_log (snd (handle_irq r)) = spi_log r @ [] @ [0x12, 0, 0, 0] # vs" by blast
  note a = chip_answers_nth [OF assms(1) this]
  have st: "miso r ?k 2 = 0" "miso r ?k 3 = 2"
    using a [of 2] a [of 3] assms(3) by (simp_all add: chip_reply_def sx_ops hi_lo_two)
  let ?sz = "miso r (?k + 2) 2" and ?st = "miso r (?k + 2) 3"
  note packet = handle_irq_packet [OF st assms(2)]
  have log: "spi_log (snd (handle_irq r)) = spi_log r @ [[0x12, 0, 0, 0], [0x02, 0, 2]] @ [0x13, 0, 0, 0] #
      [[0x1E, ?st] @ replicate (1 + unat ?sz) 0, [0x14, 0, 0, 0, 0]]"
    using packet(1) by (simp add: rx_commands_def)
  from chip_answers_nth [OF assms(1) this] have sz: "?sz = of_nat (rx_size c)" "?st = of_nat (rx_start c)"
    by (simp_all add: chip_reply_def sx_ops)
  have n: "unat ?sz = rx_size c" "unat ?st = rx_start c"
    unfolding sz using unat_of_nat_byte [of "rx_size c"] unat_of_nat_byte [of "rx_start c"] assms(5,6) by simp_all
  have "spi_log (snd (handle_irq r)) = spi_log r @ [[0x12, 0, 0, 0], [0x02, 0, 2], [0x13, 0, 0, 0]] @
      ([0x1E, ?st] @ replicate (1 + unat ?sz) 0) # [[0x14, 0, 0, 0, 0]]"
    using log by simp
  note b = chip_answers_nth [OF assms(1) this]
  have "length [[0x12 :: byte, 0, 0, 0], [0x02, 0, 2], [0x13, 0, 0, 0]] = 3" by simp
  from b [unfolded this] have "miso r (?k + 3) (3 + i) = ring c ! ((rx_start c + i) mod 256)" for i
    using n by (simp add: chip_reply_def sx_ops)
  then have "map (\<lambda>i. miso r (?k + 3) (3 + i)) [0..<unat ?sz] = ring_read (rx_start c) (rx_size c) (ring c)"
    unfolding n ring_read_def by simp
  with packet sz show ?thesis by auto
qed

section \<open>A concrete chip\<close>

definition ex_chip :: chip where
  "ex_chip = \<lparr>ring = replicate 256 0, tx_base = 0, payload_size = 255, chan = mesh_channel, chip_state = RxMode,
     irq_bits = 0, irq_mask = 0x43, rx_size = 0, rx_start = 0, signal = [0, 0, 0], aired = []\<rparr>"

text \<open>A driver that reads from this chip after it has heard two bytes, stored across the ring's end.\<close>

definition ex_heard :: chip where
  "ex_heard = chip_hears 255 [1, 2] [80, 40, 80] ex_chip"

definition ex_reader :: radio where
  "ex_reader = toy_radio\<lparr>miso := \<lambda>k i. chip_reply (rx_commands 2 255 ! k) (chip_run (take k (rx_commands 2 255)) ex_heard) i\<rparr>"

lemma ex_chip_up [simp]: "chip_up ex_chip" "irq_bits ex_chip = 0" "chip_state ex_chip = RxMode" "aired ex_chip = []"
  by (simp_all add: chip_up_def ex_chip_def)

lemma ex_reader_log: "spi_log (snd (handle_irq ex_reader)) = spi_log ex_reader @ rx_commands 2 255"
proof -
  have h: "irq_bits ex_heard = 2" "rx_size ex_heard = 2" "rx_start ex_heard = 255"
    by (simp_all add: ex_heard_def chip_hears_def ex_chip_def sx_irqs)
  have m: "miso ex_reader 0 2 = 0" "miso ex_reader 0 3 = 2" "miso ex_reader 2 2 = 2" "miso ex_reader 2 3 = 255" "rx_cb_set ex_reader"
    "spi_log ex_reader = []"
    using h by (simp_all add: ex_reader_def toy_radio_def rx_commands_def chip_reply_def sx_ops hi_lo_two numeral_2_eq_2 numeral_3_eq_3)
  with handle_irq_packet(1) [of ex_reader] show ?thesis by (simp del: add_2_eq_Suc' add_2_eq_Suc)
qed

lemma ex_reader_answers: "chip_answers ex_heard ex_reader (snd (handle_irq ex_reader))"
  by (simp add: chip_answers_def ex_reader_log) (simp add: ex_reader_def toy_radio_def)

section \<open>Properties\<close>

text \<open>Property C6: the SPI log means what it should. Whatever state the chip is in, \<open>mesh_init\<close>
  (when it succeeds) sets it to the channel of the mesh (LoRa, 868.1 MHz, SF7, 125 kHz, 4/5,
  explicit header, CRC), with the interrupts of transmission and reception enabled, in reception,
  and puts nothing on air. From then on, receiving a frame, sending a message and polling put
  exactly the frames of \<open>sent_frames\<close> on air, unchanged, in order and on that channel, and keep the
  set-up.\<close>
theorem aired_is_sent:
  assumes "length (ring c0) = 256" and "chip_up c"
  shows "(mesh_init lib h mac n0 = (ESP_OK, n1) \<longrightarrow> chip_up (chip_run (new_commands n0 n1) c0) \<and>
      chip_state (chip_run (new_commands n0 n1) c0) = RxMode \<and> aired (chip_run (new_commands n0 n1) c0) = aired c0) \<and>
    (\<forall>n'. on_radio_rx lib h f n = Some n' \<or> n' = snd (mesh_send lib h dst pt n) \<or> n' = mesh_poll n \<longrightarrow>
      aired (chip_run (new_commands n n') c) = aired c @ map (Pair mesh_channel) (sent_frames n n') \<and>
      chip_up (chip_run (new_commands n n') c))"
proof (intro conjI [of "_ \<longrightarrow> _"] impI allI)
  fix n'
  assume "on_radio_rx lib h f n = Some n' \<or> n' = snd (mesh_send lib h dst pt n) \<or> n' = mesh_poll n"
  then have "at_most_one n n'" using on_radio_rx_one mesh_send_one mesh_poll_one by blast
  with assms(2) show "aired (chip_run (new_commands n n') c) = aired c @ map (Pair mesh_channel) (sent_frames n n') \<and>
      chip_up (chip_run (new_commands n n') c)" by (rule at_most_one_aired)
next
  assume "mesh_init lib h mac n0 = (ESP_OK, n1)"
  then have "rad n1 = snd (sx1262_start_rx (snd (sx1262_init mesh_cfg (rad n0))))"
    by (auto simp: mesh_init_def derive_local_id_def case_prod_beta Let_def split: if_splits)
  with sx1262_bring_up [of "rad n0"] bring_up_chip [OF assms(1), of n1 n0]
  show "chip_up (chip_run (new_commands n0 n1) c0) \<and>
      chip_state (chip_run (new_commands n0 n1) c0) = RxMode \<and> aired (chip_run (new_commands n0 n1) c0) = aired c0"
    by (simp add: new_commands_def case_prod_beta Let_def mesh_cfg_def mesh_radio_cfg_def)
qed

theorem aired_is_sent_witness:
  "aired (chip_run (new_commands toy_node (snd (mesh_send toy_signal ample (replicate 8 3) [65] toy_node))) ex_chip) =
     map (Pair mesh_channel) (sent_frames toy_node (snd (mesh_send toy_signal ample (replicate 8 3) [65] toy_node)))"
proof -
  have "length (ring ex_chip) = 256" by (simp add: ex_chip_def)
  from aired_is_sent [OF this ex_chip_up(1), of toy_signal ample "[]" toy_node toy_node "[]" toy_node "replicate 8 3" "[65]"]
  show ?thesis by simp
qed

text \<open>Property C5: the link between two drivers. One driver sends a buffer of up to 255 bytes; its
  chip puts the buffer on air; the chip of a second node, set up alike and receiving, hears the
  packet and stores it anywhere in its ring, across the end included. Then the interrupt handler
  of the second driver, which reads what that chip answers, hands exactly the buffer to the
  receive callback, acknowledges the interrupt, and leaves the chip receiving.\<close>
theorem radio_link:
  assumes "chip_up ca" and "chip_up cb" and "irq_bits cb = 0" and "chip_state cb = RxMode" and "length buf \<le> 255"
    and "ca' = chip_run (drop (length (spi_log ra)) (spi_log (snd (sx1262_send buf ra)))) ca"
    and "aired ca' = aired ca @ [(ch, pkt)]" and "off < 256"
    and "chip_answers (chip_hears off pkt sig cb) rb (snd (handle_irq rb))" and "rx_cb_set rb"
    and "cb' = chip_run (drop (length (spi_log rb)) (spi_log (snd (handle_irq rb)))) (chip_hears off pkt sig cb)"
  shows "ch = chan cb \<and> (\<exists>p. fst (handle_irq rb) = Some p \<and> rx_data p = buf) \<and>
    chip_up cb' \<and> irq_bits cb' = 0 \<and> chip_state cb' = RxMode"
proof -
  let ?c = "chip_hears off pkt sig cb"
  from chip_tx [OF assms(1,5)] assms(5-7) have ch: "ch = mesh_channel" "pkt = buf" by simp_all
  have c: "irq_bits ?c = 2" "length (ring ?c) = 256" "rx_size ?c = length buf" "rx_start ?c = off"
    "ring ?c = ring_write off buf (ring cb)"
    using assms(2,3) heard_irq [of cb off pkt sig] by (simp_all add: chip_up_def chip_hears_def ch)
  have "\<exists>p. fst (handle_irq rb) = Some p \<and> rx_data p = ring_read off (length buf) (ring_write off buf (ring cb)) \<and>
      spi_log (snd (handle_irq rb)) = spi_log rb @ rx_commands (of_nat (length buf)) (of_nat off)"
    using handle_irq_reads_chip [OF assms(9,10) c(1,2)] assms(5,8) by (simp add: c(3-5))
  moreover have "ring_read off (length buf) (ring_write off buf (ring cb)) = buf"
    using assms(2,5) by (intro ring_read_write) (simp_all add: chip_up_def)
  ultimately show ?thesis
    using assms(2,4) c(1) by (auto simp: ch assms(11) chip_run_rx chip_up_def chip_hears_def)
qed

theorem radio_link_witness:
  "\<exists>p. fst (handle_irq ex_reader) = Some p \<and> rx_data p = [1, 2]"
proof -
  let ?c = "chip_run (drop (length (spi_log toy_radio)) (spi_log (snd (sx1262_send [1, 2] toy_radio)))) ex_chip"
  have l: "length [1, 2 :: byte] \<le> 255" "(255 :: nat) < 256" "rx_cb_set ex_reader"
    by (simp_all add: ex_reader_def toy_radio_def)
  have air: "aired ?c = aired ex_chip @ [(mesh_channel, [1, 2])]"
    using chip_tx(2) [OF ex_chip_up(1) l(1)] by (simp add: toy_radio_def)
  from radio_link [OF ex_chip_up(1) ex_chip_up(1-3) l(1) refl air l(2) ex_reader_answers [unfolded ex_heard_def] l(3) refl]
  show ?thesis by blast
qed

end
