(* ===== verification/Typing.thy ===== *)
theory Typing
  imports Sx1262Chip
begin

text \<open>
  The types that C checks and lists do not: the sizes of the arrays in the static variables of a
  node. Node IDs have 8 bytes, message IDs 16, the tables 32 and 64 entries, and what goes over
  the SPI bus fits the longest buffer that the driver builds. \<open>Routing\<close> states what the tables
  mean; here it is their shape, with one predicate per part. The operations write their tables with
  \<open>c_store\<close>, which loses the array when the index is outside it: that the sizes are kept says that
  no operation ever writes outside a table.
\<close>

section \<open>The predicates\<close>

definition rate_entry_typed :: "rate_entry \<Rightarrow> bool" where
  "rate_entry_typed e \<longleftrightarrow> length (re_node_id e) = PKT_NODE_ID_LEN \<and> 0 \<le> re_count e"

definition presence_entry_typed :: "presence_entry \<Rightarrow> bool" where
  "presence_entry_typed e \<longleftrightarrow> length (pe_node_id e) = PKT_NODE_ID_LEN"

definition dedup_typed :: "dedup \<Rightarrow> bool" where
  "dedup_typed d \<longleftrightarrow> length (s_cache d) = DEDUP_CACHE_SIZE \<and> s_next_slot d < DEDUP_CACHE_SIZE \<and>
     (\<forall>e \<in> set (s_cache d). length (de_msg_id e) = PKT_MSG_ID_LEN)"

definition transaction_typed :: "bytes \<Rightarrow> bool" where
  "transaction_typed t \<longleftrightarrow> 1 \<le> length t \<and> length t \<le> 258"

definition tables_typed :: "node \<Rightarrow> bool" where
  "tables_typed n \<longleftrightarrow> length (s_local_id n) = PKT_NODE_ID_LEN \<and>
     length (s_rate_table n) = RATE_TABLE_SIZE \<and> (\<forall>e \<in> set (s_rate_table n). rate_entry_typed e) \<and>
     length (s_table (presence_st n)) = PRESENCE_TABLE_SIZE \<and>
     (\<forall>e \<in> set (s_table (presence_st n)). presence_entry_typed e) \<and>
     dedup_typed (dedup_st n) \<and>
     (\<forall>(pt, src) \<in> set (delivered n). length pt \<le> PKT_MAX_PAYLOAD \<and> length src = PKT_NODE_ID_LEN)"

definition node_typed :: "node \<Rightarrow> bool" where
  "node_typed n \<longleftrightarrow> tables_typed n \<and> (\<forall>t \<in> set (spi_log (rad n)). transaction_typed t)"

section \<open>The tables\<close>

lemma all_update: "(\<forall>e \<in> set t. P e) \<Longrightarrow> P x \<Longrightarrow> \<forall>e \<in> set (t[i := x]). P e"
proof
  fix e
  assume all: "\<forall>e \<in> set t. P e" and x: "P x" and e: "e \<in> set (t[i := x])"
  from e set_update_subset_insert [of t i x] have "e = x \<or> e \<in> set t" by auto
  with all x show "P e" by auto
qed

lemma slot_touch_all:
  assumes "\<forall>e \<in> set t. P e" "\<And>e. P e \<Longrightarrow> P (refresh now e)" "P (fresh k now)"
  shows "\<forall>e \<in> set (slot_touch key used stamp refresh fresh k now t). P e"
proof (cases "slot_scan (\<lambda>e. key e = k) used 0 None t")
  case (Inl i)
  from slot_scan_Inl [OF this] have "P (t ! i)" using assms(1) by auto
  have "slot_touch key used stamp refresh fresh k now t = t[i := refresh now (t ! i)]"
    using Inl by (simp add: slot_touch_def)
  with all_update [OF assms(1) assms(2) [OF \<open>P (t ! i)\<close>]] show ?thesis by simp
next
  case (Inr r)
  then have "\<exists>j. slot_touch key used stamp refresh fresh k now t = t[j := fresh k now]"
    by (cases r) (auto simp: slot_touch_def)
  with all_update [OF assms(1,3)] show ?thesis by auto
qed

lemma length_slot_touch [simp]: "length (slot_touch key used stamp refresh fresh k now t) = length t"
  by (simp add: slot_touch_def split: sum.split option.split)

lemma rate_limited_typed:
  assumes "\<forall>e \<in> set t. rate_entry_typed e" "length a = PKT_NODE_ID_LEN"
  shows "\<forall>e \<in> set (snd (rate_limited a now t)). rate_entry_typed e"
    and "length (snd (rate_limited a now t)) = length t"
proof -
  have e: "snd (rate_limited a now t) = slot_touch re_node_id re_used window_start_us rate_refresh rate_fresh a now t"
    using rate_slots.touch_loops [of a now t] by (simp add: rate_step_def)
  show "\<forall>e \<in> set (snd (rate_limited a now t)). rate_entry_typed e"
    unfolding e using assms
    by (intro slot_touch_all) (auto simp: rate_entry_typed_def rate_refresh_def rate_fresh_def)
  show "length (snd (rate_limited a now t)) = length t" by (simp add: e)
qed

lemma presence_touch_typed:
  assumes "\<forall>e \<in> set t. presence_entry_typed e" "length a = PKT_NODE_ID_LEN"
  shows "\<forall>e \<in> set (presence_touch_table a now t). presence_entry_typed e"
    and "length (presence_touch_table a now t) = length t"
proof -
  note e = presence_slots.touch_loops [of a now t]
  show "\<forall>e \<in> set (presence_touch_table a now t). presence_entry_typed e"
    unfolding e using assms
    by (intro slot_touch_all) (auto simp: presence_entry_typed_def presence_refresh_def presence_fresh_def)
  show "length (presence_touch_table a now t) = length t" by (simp add: e)
qed

lemma dedup_mark_typed:
  assumes "dedup_typed d" "length m = PKT_MSG_ID_LEN"
  shows "dedup_typed (snd (dedup_check_and_mark m d))"
proof -
  let ?e = "\<lparr>de_msg_id = m, de_used = True\<rparr>"
  have "\<forall>e \<in> set ((s_cache d)[s_next_slot d := ?e]). length (de_msg_id e) = PKT_MSG_ID_LEN"
    using assms by (intro all_update) (simp_all add: dedup_typed_def)
  moreover have "c_store (s_cache d) (s_next_slot d) ?e = (s_cache d)[s_next_slot d := ?e]"
    using assms by (simp add: dedup_typed_def)
  moreover have "0 < DEDUP_CACHE_SIZE" by (simp add: DEDUP_CACHE_SIZE_def)
  ultimately show ?thesis using assms by (simp add: dedup_typed_def dedup_check_and_mark_def)
qed

section \<open>The operations\<close>

lemma same_tables_typed: "same_tables n n' \<Longrightarrow> tables_typed n \<Longrightarrow> tables_typed n'"
  by (simp add: same_tables_def tables_typed_def)

lemma log_typed:
  assumes "at_most_one n n'" "\<forall>t \<in> set (spi_log (rad n)). transaction_typed t"
  shows "\<forall>t \<in> set (spi_log (rad n')). transaction_typed t"
  using assms unfolding at_most_one_def
  by (elim disjE exE) (auto simp: tx_commands_def transaction_typed_def)

lemma tables_typed_dedup:
  "tables_typed n \<Longrightarrow> length m = PKT_MSG_ID_LEN \<Longrightarrow>
    tables_typed (n\<lparr>dedup_st := snd (dedup_check_and_mark m (dedup_st n))\<rparr>)"
  by (simp add: tables_typed_def dedup_mark_typed)

lemma stages_typed:
  assumes "tables_typed n" "length (src_id hdr) = PKT_NODE_ID_LEN"
  shows "tables_typed (after_limiter hdr n)" "tables_typed (after_presence hdr n)"
  using assms rate_limited_typed [of "s_rate_table n" "src_id hdr"]
    presence_touch_typed [of "s_table (presence_st n)" "src_id hdr"]
  by (simp_all add: after_limiter_def after_presence_def tables_typed_def)

lemma deliver_local_typed:
  assumes "tables_typed n" "length (src_id hdr) = PKT_NODE_ID_LEN"
  shows "tables_typed (deliver_local lib h hdr p n)"
proof -
  obtain r c where d: "pcrypto_decrypt lib h (src_id hdr) (take (unat (payload_len hdr)) p) PKT_MAX_PAYLOAD (cry n) = (r, c)"
    by fastforce
  with assms pcrypto_decrypt_cap [of lib h "src_id hdr" _ PKT_MAX_PAYLOAD "cry n" _ c] show ?thesis
    by (cases r) (auto simp: deliver_local_def tables_typed_def Let_def)
qed

lemma on_radio_rx_typed:
  assumes "tables_typed n" "on_radio_rx lib h buf n = Some n'"
  shows "tables_typed n'"
proof (cases "pkt_decode buf")
  case (Some hp)
  obtain hdr p where hp: "hp = (hdr, p)" by fastforce
  from Some hp have "wf_hdr hdr" by (intro pkt_decode_wf) simp
  then have ids: "length (src_id hdr) = PKT_NODE_ID_LEN" "length (msg_id hdr) = PKT_MSG_ID_LEN"
    by (simp_all add: wf_hdr_def)
  let ?m = "after_presence hdr (after_limiter hdr n)"
  let ?m2 = "?m\<lparr>dedup_st := snd (dedup_check_and_mark (msg_id hdr) (dedup_st n))\<rparr>"
  have m: "tables_typed ?m" "tables_typed (after_limiter hdr n)"
    using stages_typed [OF _ ids(1)] assms(1) by blast+
  have m2: "tables_typed ?m2" using tables_typed_dedup [OF m(1) ids(2)] by simp
  have f: "tables_typed (forward hdr p (deliver_local lib h hdr p ?m2))"
    using same_tables_typed [OF forward_tables deliver_local_typed [OF m2 ids(1)]] .
  have "tables_typed k" if "handle_key_bundle lib h hdr p ?m = Some k" for k
    using same_tables_typed [OF handle_key_bundle_tables [OF that] m(1)] .
  with assms Some hp m m2 f show ?thesis
    by (auto simp: on_radio_rx_stages Let_def split: if_splits)
qed (use assms in \<open>simp add: on_radio_rx_def\<close>)

lemma mesh_poll_typed: "tables_typed n \<Longrightarrow> tables_typed (mesh_poll n)"
  by (auto simp: mesh_poll_cases send_beacon_def case_prod_beta Let_def tables_typed_def
    presence_beacon_reset_timer_def split: option.split)

lemma mesh_send_typed:
  assumes "tables_typed n"
  shows "tables_typed (snd (mesh_send lib h dst pt n))"
proof -
  have cry: "tables_typed (m\<lparr>cry := c\<rparr>)" if "tables_typed m" for m c
    using that by (simp add: tables_typed_def)
  have request: "tables_typed (send_key_bundle_frame dst st [] (n\<lparr>cry := c\<rparr>))" for st c
    by (rule same_tables_typed [OF key_bundle_frame_tables cry [OF assms]])
  have data: "tables_typed (snd (send_data dst ct (n\<lparr>cry := c\<rparr>)))" for ct c
  proof -
    let ?h = "new_hdr PKT_TYPE_DATA PKT_TTL_DEFAULT dst (n\<lparr>cry := c\<rparr>)"
    have "tables_typed (snd ?h)" using assms by (simp add: tables_typed_def)
    then have t: "tables_typed ((snd ?h)\<lparr>dedup_st := snd (dedup_check_and_mark (msg_id (fst ?h)) (dedup_st (snd ?h)))\<rparr>)"
      by (rule tables_typed_dedup) simp
    then have "tables_typed (snd (radio_send w ((snd ?h)\<lparr>dedup_st :=
        snd (dedup_check_and_mark (msg_id (fst ?h)) (dedup_st (snd ?h)))\<rparr>)))" for w
      by (simp add: tables_typed_def)
    with t show ?thesis by (simp add: send_data_def case_prod_beta Let_def split: option.split)
  qed
  show ?thesis
    using assms cry [OF assms] request data
    by (auto simp: mesh_send_cases split: sum.split prod.split)
qed

text \<open>The transactions of the interrupt handler; the longest one reads a packet of 255 bytes.\<close>

lemma handle_irq_transactions:
  assumes "\<forall>t \<in> set (spi_log r). transaction_typed t"
  shows "\<forall>t \<in> set (spi_log (snd (handle_irq r))). transaction_typed t"
proof (rule handle_irq_unfold [of r])
  fix r3
  assume r3: "spi_log r3 = spi_log r @ irq_prefix r"
    and h: "handle_irq r =
      (if has_irq (irq_reported r) SX1262_IRQ_RX_DONE
       then if has_irq (irq_reported r) SX1262_IRQ_CRC_ERR then (None, r3)
       else let (buf_status, r4) = sx1262_read SX1262_OP_GET_RX_BUFFER_STATUS [] 2 r3;
                (rx_buf, r5) = sx1262_read SX1262_OP_READ_BUFFER [buf_status ! 1] (unat (buf_status ! 0)) r4;
                (status3, r6) = sx1262_read SX1262_OP_GET_PACKET_STATUS [] 3 r5
            in (if rx_cb_set r6 then Some \<lparr>rx_data = rx_buf, rx_rssi = - (c_div (uint (status3 ! 0)) 2),
                  rx_snr = c_div (sint (status3 ! 1)) 4\<rparr> else None, r6)
       else (None, r3))"
  have n: "unat b < 256" for b :: byte by simp
  have "\<forall>t \<in> set (irq_prefix r). transaction_typed t"
    by (auto simp: irq_prefix_def transaction_typed_def)
  then show ?thesis
    unfolding h Let_def case_prod_beta
    using assms n by (auto simp: r3 transaction_typed_def less_Suc_eq_le [symmetric] simp del: sx1262_read_data upt_Suc)
qed

section \<open>Properties\<close>

text \<open>Property C8: the node is well typed. \<open>mesh_init\<close> gives every static array its size (8-byte node
  IDs, 16-byte message IDs, tables of 32, 32 and 64 entries, a slot index inside the ring), and
  every operation keeps it, whatever bytes arrive, whatever the chip answers and whatever the
  library does; so no operation writes outside a table. Every transaction that an operation or the
  interrupt handler hands to the SPI driver has between 1 and 258 bytes, and the handler reads at
  most 255 bytes into its 256-byte buffer.\<close>
theorem node_types:
  assumes "length mac = 6" and "delivered n0 = []" and "list_all transaction_typed (spi_log (rad n0))" and "node_typed n"
  shows "node_typed (snd (mesh_init lib h mac n0)) \<and>
    (on_radio_rx lib h buf n = Some n' \<longrightarrow> node_typed n') \<and> node_typed (snd (mesh_send lib h dst pt n)) \<and>
    node_typed (mesh_poll n) \<and> node_typed (mesh_set_rx_callback cb n) \<and>
    node_typed (n\<lparr>rad := snd (handle_irq (rad n))\<rparr>) \<and>
    list_all (\<lambda>p. length (rx_data p) \<le> 255) (case fst (handle_irq (rad n)) of None \<Rightarrow> [] | Some p \<Rightarrow> [p])"
proof (intro conjI impI)
  have t: "tables_typed n" "\<forall>t \<in> set (spi_log (rad n)). transaction_typed t"
    using assms(4) by (simp_all add: node_typed_def)
  show "node_typed n'" if "on_radio_rx lib h buf n = Some n'"
    unfolding node_typed_def using on_radio_rx_typed [OF t(1) that] log_typed [OF on_radio_rx_one [OF that] t(2)] by blast
  show "node_typed (snd (mesh_send lib h dst pt n))"
    unfolding node_typed_def using mesh_send_typed [OF t(1)] log_typed [OF mesh_send_one t(2)] by blast
  show "node_typed (mesh_poll n)"
    unfolding node_typed_def using mesh_poll_typed [OF t(1)] log_typed [OF mesh_poll_one t(2)] by blast
  show "node_typed (mesh_set_rx_callback cb n)"
    using assms(4) by (simp add: node_typed_def tables_typed_def mesh_set_rx_callback_def)
  show "node_typed (n\<lparr>rad := snd (handle_irq (rad n))\<rparr>)"
    using t handle_irq_transactions [OF t(2)] by (simp add: node_typed_def tables_typed_def)
  show "list_all (\<lambda>p. length (rx_data p) \<le> 255) (case fst (handle_irq (rad n)) of None \<Rightarrow> [] | Some p \<Rightarrow> [p])"
    using handle_irq_correct [of "rad n"] by (auto split: option.splits)
  have log: "\<forall>t \<in> set (spi_log (rad (snd (mesh_init lib h mac n0)))). transaction_typed t"
    using assms(3)
    by (auto simp: mesh_init_def derive_local_id_def case_prod_beta Let_def sx1262_init_def sx1262_start_rx_def
      set_rf_frequency_def set_modulation_params_def set_dio_irq_params_def list_all_iff transaction_typed_def)
  have "tables_typed (snd (mesh_init lib h mac n0))"
    using assms(1,2)
    by (auto simp: mesh_init_def derive_local_id_def mac_node_id_def case_prod_beta Let_def tables_typed_def
      dedup_typed_def dedup_init_def DEDUP_CACHE_SIZE_def PKT_NODE_ID_LEN_def presence_init_def rate_table_init_def
      rate_entry_typed_def presence_entry_typed_def)
  with log show "node_typed (snd (mesh_init lib h mac n0))" by (simp add: node_typed_def)
qed

theorem node_types_witness:
  "node_typed (snd (mesh_init toy_signal ample [1, 2, 3, 4, 5, 6] toy_node)) \<and> node_typed (mesh_poll toy_node) \<and>
   node_typed (toy_node\<lparr>rad := snd (handle_irq (rad toy_node))\<rparr>)"
proof -
  have d: "delivered toy_node = []" "list_all transaction_typed (spi_log (rad toy_node))"
    by (simp_all add: toy_radio_def)
  have "presence_st toy_node = presence_init 0 0" by (simp add: toy_node_def)
  then have "node_typed toy_node"
    by (simp add: node_typed_def tables_typed_def toy_radio_def dedup_typed_def dedup_init_def DEDUP_CACHE_SIZE_def
        rate_table_init_def presence_init_def rate_entry_typed_def presence_entry_typed_def PKT_NODE_ID_LEN_def)
  from node_types [of "[1, 2, 3, 4, 5, 6]", OF _ d this, of toy_signal ample "[]" toy_node] show ?thesis by simp
qed

end
