(* ===== verification/Schedules.thy ===== *)
theory Schedules
  imports Prelude
begin

text \<open>
  Interleavings as schedules. Tasks that share variables are given as one partial function
  \<open>step\<close> from a label (which task does what next) and a state to the state after it, \<open>None\<close> where
  the label is not enabled. A schedule is a list of labels. The contract of an invariant under the
  schedules of some labels is a locale.
\<close>

fun run_steps :: "('l \<Rightarrow> 's \<Rightarrow> 's option) \<Rightarrow> 'l list \<Rightarrow> 's \<Rightarrow> 's option" where
  "run_steps step [] s = Some s"
| "run_steps step (l # ls) s = (case step l s of None \<Rightarrow> None | Some s' \<Rightarrow> run_steps step ls s')"

lemma run_steps_append:
  "run_steps step (ls @ ks) s = (case run_steps step ls s of None \<Rightarrow> None | Some s' \<Rightarrow> run_steps step ks s')"
  by (induction ls arbitrary: s) (auto split: option.split)

lemma run_steps_Cons_Some:
  "run_steps step (l # ls) s = Some t \<longleftrightarrow> (\<exists>s'. step l s = Some s' \<and> run_steps step ls s' = Some t)"
  by (auto split: option.splits)

locale scheduled =
  fixes step :: "'l \<Rightarrow> 's \<Rightarrow> 's option"
    and allowed :: "'l \<Rightarrow> bool"
    and inv :: "'s \<Rightarrow> bool"
  assumes step_keeps: "allowed l \<Longrightarrow> inv s \<Longrightarrow> step l s = Some s' \<Longrightarrow> inv s'"
begin

lemma run_keeps: "list_all allowed ls \<Longrightarrow> inv s \<Longrightarrow> run_steps step ls s = Some s' \<Longrightarrow> inv s'"
  by (induction ls arbitrary: s) (auto split: option.splits intro: step_keeps)

text \<open>A quantity that every step moves by at most one moves by at most the length of a schedule.\<close>

lemma run_moves:
  assumes "\<And>l s s'. inv s \<Longrightarrow> step l s = Some s' \<Longrightarrow> (f s' :: nat) \<le> Suc (f s)"
    and "list_all allowed ls" "inv s" "run_steps step ls s = Some s'"
  shows "f s' \<le> f s + length ls"
  using assms(2-4)
proof (induction ls arbitrary: s)
  case (Cons l ls)
  then obtain s1 where s1: "step l s = Some s1" "run_steps step ls s1 = Some s'"
    by (auto split: option.splits)
  have "inv s1" using step_keeps [OF _ Cons.prems(2) s1(1)] Cons.prems(1) by simp
  with Cons.IH s1(2) Cons.prems(1) have "f s' \<le> f s1 + length ls" by simp
  with assms(1) [OF Cons.prems(2) s1(1)] show ?case by simp
qed simp

end

end
