(* ===== verification/BleTasks.thy ===== *)
theory BleTasks
  imports BleBridge Schedules
begin

text \<open>
  The subscriber array of the BLE bridge seen from two tasks. The NimBLE host task runs
  \<open>ble_gap_event\<close>, which calls \<open>subscriber_add\<close> and \<open>subscriber_remove\<close>; the interrupt task of the radio
  runs \<open>ble_bridge_on_mesh_rx\<close>, which walks over the same array. There is no lock. A step is one
  statement that touches the shared variables; the two effects of \<open>conns[count++] = handle\<close> may
  happen in either order, as C leaves it open. The search loops of the host task are part of the
  step that follows them: only this task writes what they read.
\<close>

section \<open>State and steps\<close>

datatype host_pc =
    HostIdle
  | Adding u16 nat bool bool
  | Removing nat
  | Shrinking

datatype rx_pc =
    RxIdle
  | RxLoop nat
  | RxHasBuf nat

record ble_tasks =
  shared :: ble
  host_at :: host_pc
  rx_at :: rx_pc
  pushed :: "u16 list"

datatype host_label = HostAdd u16 | HostStore | HostCount | HostRemove u16 | HostMove | HostShrink

text \<open>\<open>Adding c i stored counted\<close>: the handle \<open>c\<close> goes to slot \<open>i\<close>, and which of the two effects have
  happened.\<close>

definition added :: "u16 \<Rightarrow> nat \<Rightarrow> bool \<Rightarrow> bool \<Rightarrow> host_pc" where
  "added c i st ct = (if st \<and> ct then HostIdle else Adding c i st ct)"

fun host_step :: "host_label \<Rightarrow> ble_tasks \<Rightarrow> ble_tasks option" where
  "host_step (HostAdd c) s = (if host_at s \<noteq> HostIdle then None
     else let b = shared s in
       case conn_index c (take (s_subscriber_count b) (s_subscriber_conns b)) of
         Some i \<Rightarrow> Some s
       | None \<Rightarrow> if s_subscriber_count b < BLE_MAX_SUBSCRIBERS
                 then Some (s\<lparr>host_at := Adding c (s_subscriber_count b) False False\<rparr>) else Some s)"
| "host_step HostStore s = (case host_at s of
     Adding c i False ct \<Rightarrow> Some (s\<lparr>host_at := added c i True ct,
       shared := (shared s)\<lparr>s_subscriber_conns := (s_subscriber_conns (shared s))[i := c]\<rparr>\<rparr>)
   | _ \<Rightarrow> None)"
| "host_step HostCount s = (case host_at s of
     Adding c i st False \<Rightarrow> Some (s\<lparr>host_at := added c i st True,
       shared := (shared s)\<lparr>s_subscriber_count := s_subscriber_count (shared s) + 1\<rparr>\<rparr>)
   | _ \<Rightarrow> None)"
| "host_step (HostRemove c) s = (if host_at s \<noteq> HostIdle then None
     else let b = shared s in
       case conn_index c (take (s_subscriber_count b) (s_subscriber_conns b)) of
         Some i \<Rightarrow> Some (s\<lparr>host_at := Removing i\<rparr>)
       | None \<Rightarrow> Some s)"
| "host_step HostMove s = (case host_at s of
     Removing i \<Rightarrow> let b = shared s in Some (s\<lparr>host_at := Shrinking, shared := b\<lparr>s_subscriber_conns :=
       (s_subscriber_conns b)[i := s_subscriber_conns b ! (s_subscriber_count b - 1)]\<rparr>\<rparr>)
   | _ \<Rightarrow> None)"
| "host_step HostShrink s = (case host_at s of
     Shrinking \<Rightarrow> Some (s\<lparr>host_at := HostIdle,
       shared := (shared s)\<lparr>s_subscriber_count := s_subscriber_count (shared s) - 1\<rparr>\<rparr>)
   | _ \<Rightarrow> None)"

text \<open>The walk of the interrupt task: the test of the loop with the allocation of a buffer that
  follows (which may fail), and the notification, which reads the slot.\<close>

datatype rx_label = RxStart | RxTest bool | RxNotify

fun rx_step :: "rx_label \<Rightarrow> ble_tasks \<Rightarrow> ble_tasks option" where
  "rx_step RxStart s = (if rx_at s \<noteq> RxIdle then None
     else if s_subscriber_count (shared s) = 0 then Some (s\<lparr>pushed := []\<rparr>)
     else Some (s\<lparr>rx_at := RxLoop 0, pushed := []\<rparr>))"
| "rx_step (RxTest granted) s = (case rx_at s of
     RxLoop i \<Rightarrow> if i < s_subscriber_count (shared s)
       then Some (s\<lparr>rx_at := (if granted then RxHasBuf i else RxLoop (Suc i))\<rparr>) else Some (s\<lparr>rx_at := RxIdle\<rparr>)
   | _ \<Rightarrow> None)"
| "rx_step RxNotify s = (case rx_at s of
     RxHasBuf i \<Rightarrow> Some (s\<lparr>rx_at := RxLoop (Suc i), pushed := pushed s @ [s_subscriber_conns (shared s) ! i]\<rparr>)
   | _ \<Rightarrow> None)"

datatype ble_label = Host host_label | Rx rx_label

fun ble_step :: "ble_label \<Rightarrow> ble_tasks \<Rightarrow> ble_tasks option" where
  "ble_step (Host l) s = host_step l s"
| "ble_step (Rx l) s = rx_step l s"


section \<open>A task that is not interrupted\<close>

text \<open>Without interleaving the steps are the functions of the bridge.\<close>

lemma host_add_alone:
  assumes "host_at s = HostIdle"
  shows "\<exists>ls s'. run_steps ble_step (map Host (HostAdd c # ls)) s = Some s' \<and> host_at s' = HostIdle \<and>
    shared s' = subscriber_add c (shared s)"
proof (cases "conn_index c (take (s_subscriber_count (shared s)) (s_subscriber_conns (shared s))) = None \<and>
    s_subscriber_count (shared s) < BLE_MAX_SUBSCRIBERS")
  case True
  with assms show ?thesis
    by (intro exI [of _ "[HostStore, HostCount]"]) (simp add: subscriber_add_def added_def)
next
  case False
  with assms show ?thesis
    by (intro exI [of _ "[]"]) (auto simp: subscriber_add_def Let_def split: option.split)
qed

lemma host_remove_alone:
  assumes "host_at s = HostIdle"
  shows "\<exists>ls s'. run_steps ble_step (map Host (HostRemove c # ls)) s = Some s' \<and> host_at s' = HostIdle \<and>
    shared s' = subscriber_remove c (shared s)"
proof (cases "conn_index c (take (s_subscriber_count (shared s)) (s_subscriber_conns (shared s)))")
  case (Some i)
  with assms show ?thesis
    by (intro exI [of _ "[HostMove, HostShrink]"]) (simp add: subscriber_remove_def Let_def)
next
  case None
  with assms show ?thesis by (intro exI [of _ "[]"]) (simp add: subscriber_remove_def Let_def)
qed

section \<open>The array is never left\<close>

fun host_ok :: "nat \<Rightarrow> host_pc \<Rightarrow> bool" where
  "host_ok n HostIdle = True"
| "host_ok n (Adding c i st ct) = (i < 3 \<and> n = (if ct then Suc i else i))"
| "host_ok n (Removing i) = (i < n)"
| "host_ok n Shrinking = (0 < n)"

fun rx_ok :: "rx_pc \<Rightarrow> nat \<Rightarrow> bool" where
  "rx_ok RxIdle k = (k \<le> 3)"
| "rx_ok (RxLoop i) k = (k \<le> i \<and> i \<le> 3)"
| "rx_ok (RxHasBuf i) k = (k \<le> i \<and> i < 3)"

definition tasks_ok :: "ble_tasks \<Rightarrow> bool" where
  "tasks_ok s \<longleftrightarrow> length (s_subscriber_conns (shared s)) = 3 \<and> s_subscriber_count (shared s) \<le> 3 \<and>
     host_ok (s_subscriber_count (shared s)) (host_at s) \<and> rx_ok (rx_at s) (length (pushed s))"

lemma conn_index_less: "conn_index c ds = Some i \<Longrightarrow> i < length ds"
  by (induction ds arbitrary: i) (auto split: if_splits)

interpretation ble_tasks: scheduled ble_step "\<lambda>_. True" tasks_ok
proof
  fix l s s'
  assume ok: "tasks_ok s" and st: "ble_step l s = Some s'"
  show "tasks_ok s'"
  proof (cases l)
    case (Host hl)
    with ok st show ?thesis
      by (cases hl) (auto simp: tasks_ok_def added_def Let_def BLE_MAX_SUBSCRIBERS_def
        split: if_splits option.splits host_pc.splits bool.splits dest!: conn_index_less)
  next
    case (Rx rl)
    with ok st show ?thesis
      by (cases rl) (auto simp: tasks_ok_def split: if_splits rx_pc.splits)
  qed
qed

section \<open>Without removals nobody is missed\<close>







section \<open>Properties\<close>








end
