(* ===== verification/DedupTasks.thy ===== *)
theory DedupTasks
  imports Dedup Schedules
begin

text \<open>
  The duplicate filter seen from several tasks. \<open>dedup_check_and_mark\<close> runs on the interrupt task
  (for frames from the radio) and on the application and Bluetooth tasks (\<open>mesh_send\<close> marks its own
  frames), without a lock. A step is one turn of the search loop or one of the three statements
  after it; every statement reads \<open>s_next_slot\<close> anew, as the source is written.
\<close>

section \<open>State and steps\<close>

datatype dedup_pc =
    DIdle
  | Scan bytes nat
  | Copy bytes
  | SetUsed bytes
  | Advance bytes

record dedup_tasks =
  flt :: dedup
  at :: "nat \<Rightarrow> dedup_pc"
  answers :: "(nat \<times> bytes \<times> bool) list"

datatype dedup_label = DCall nat bytes | DStep nat

definition move_to :: "nat \<Rightarrow> dedup_pc \<Rightarrow> dedup_tasks \<Rightarrow> dedup_tasks" where
  "move_to t p s = s\<lparr>at := (at s)(t := p)\<rparr>"

definition answered :: "nat \<Rightarrow> bytes \<Rightarrow> bool \<Rightarrow> dedup_tasks \<Rightarrow> dedup_tasks" where
  "answered t m r s = move_to t DIdle s\<lparr>answers := answers s @ [(t, m, r)]\<rparr>"

fun dedup_task_step :: "dedup_label \<Rightarrow> dedup_tasks \<Rightarrow> dedup_tasks option" where
  "dedup_task_step (DCall t m) s = (if at s t = DIdle then Some (move_to t (Scan m 0) s) else None)"
| "dedup_task_step (DStep t) s = (let d = flt s in case at s t of
     DIdle \<Rightarrow> None
   | Scan m i \<Rightarrow>
       if i < DEDUP_CACHE_SIZE
       then if de_used (s_cache d ! i) \<and> de_msg_id (s_cache d ! i) = m then Some (answered t m True s)
            else Some (move_to t (Scan m (Suc i)) s)
       else Some (move_to t (Copy m) s)
   | Copy m \<Rightarrow> Some (move_to t (SetUsed m) s\<lparr>flt := d\<lparr>s_cache :=
       (s_cache d)[s_next_slot d := (s_cache d ! s_next_slot d)\<lparr>de_msg_id := m\<rparr>]\<rparr>\<rparr>)
   | SetUsed m \<Rightarrow> Some (move_to t (Advance m) s\<lparr>flt := d\<lparr>s_cache :=
       (s_cache d)[s_next_slot d := (s_cache d ! s_next_slot d)\<lparr>de_used := True\<rparr>]\<rparr>\<rparr>)
   | Advance m \<Rightarrow> Some (answered t m False s\<lparr>flt := d\<lparr>s_next_slot := (s_next_slot d + 1) mod DEDUP_CACHE_SIZE\<rparr>\<rparr>))"

definition filter_start :: dedup_tasks where
  "filter_start = \<lparr>flt = dedup_init, at = (\<lambda>_. DIdle), answers = []\<rparr>"

lemma move_to_simps [simp]:
  "flt (move_to t p s) = flt s" "at (move_to t p s) = (at s)(t := p)" "answers (move_to t p s) = answers s"
  "flt (answered t m r s) = flt s" "at (answered t m r s) = (at s)(t := DIdle)"
  "answers (answered t m r s) = answers s @ [(t, m, r)]"
  by (simp_all add: move_to_def answered_def)

section \<open>A call that is not interrupted\<close>

text \<open>Without interleaving the steps are the function of \<open>Dedup\<close>.\<close>

lemma scan_finds:
  assumes "at s t = Scan m i" "dedup_scan m (drop i (s_cache (flt s)))" "length (s_cache (flt s)) = DEDUP_CACHE_SIZE"
  shows "\<exists>k s'. run_steps dedup_task_step (replicate k (DStep t)) s = Some s' \<and> flt s' = flt s \<and>
    at s' = (at s)(t := DIdle) \<and> answers s' = answers s @ [(t, m, True)]"
  using assms
proof (induction "DEDUP_CACHE_SIZE - i" arbitrary: i s)
  case 0
  then show ?case by simp
next
  case (Suc n)
  then have i: "i < DEDUP_CACHE_SIZE" and n: "n = DEDUP_CACHE_SIZE - Suc i" by simp_all
  let ?e = "s_cache (flt s) ! i"
  show ?case
  proof (cases "de_used ?e \<and> de_msg_id ?e = m")
    case True
    with i Suc.prems(1) show ?thesis by (intro exI [of _ 1] exI [of _ "answered t m True s"]) simp
  next
    case False
    let ?s = "move_to t (Scan m (Suc i)) s"
    have "drop i (s_cache (flt s)) = ?e # drop (Suc i) (s_cache (flt s))"
      using i Suc.prems(3) by (simp add: Cons_nth_drop_Suc)
    with Suc.prems(2) False have "dedup_scan m (drop (Suc i) (s_cache (flt ?s)))" by (simp split: if_splits)
    with Suc.hyps(1) [of "Suc i" ?s, OF n] Suc.prems(3) obtain k s' where
      s': "run_steps dedup_task_step (replicate k (DStep t)) ?s = Some s'" "flt s' = flt s"
      "at s' = (at s)(t := DIdle)" "answers s' = answers s @ [(t, m, True)]" by auto
    moreover have "dedup_task_step (DStep t) s = Some ?s" using i False Suc.prems(1) by (auto simp: Let_def)
    ultimately show ?thesis by (intro exI [of _ "Suc k"] exI [of _ s']) simp
  qed
qed

lemma scan_misses:
  assumes "at s t = Scan m i" "\<not> dedup_scan m (drop i (s_cache (flt s)))" "length (s_cache (flt s)) = DEDUP_CACHE_SIZE"
    "i \<le> DEDUP_CACHE_SIZE"
  shows "\<exists>s'. run_steps dedup_task_step (replicate (Suc (DEDUP_CACHE_SIZE - i)) (DStep t)) s = Some s' \<and> flt s' = flt s \<and>
    at s' = (at s)(t := Copy m) \<and> answers s' = answers s"
  using assms
proof (induction "DEDUP_CACHE_SIZE - i" arbitrary: i s)
  case 0
  then show ?case by (simp add: fun_eq_iff)
next
  case (Suc n)
  then have i: "i < DEDUP_CACHE_SIZE" and n: "n = DEDUP_CACHE_SIZE - Suc i" by simp_all
  let ?e = "s_cache (flt s) ! i"
  let ?s = "move_to t (Scan m (Suc i)) s"
  have d: "drop i (s_cache (flt s)) = ?e # drop (Suc i) (s_cache (flt s))"
    using i Suc.prems(3) by (simp add: Cons_nth_drop_Suc)
  with Suc.prems(2) have ne: "\<not> (de_used ?e \<and> de_msg_id ?e = m)" "\<not> dedup_scan m (drop (Suc i) (s_cache (flt ?s)))"
    by (auto split: if_splits)
  with Suc.hyps(1) [of "Suc i" ?s, OF n] Suc.prems(3) i obtain s' where
    s': "run_steps dedup_task_step (replicate (Suc (DEDUP_CACHE_SIZE - Suc i)) (DStep t)) ?s = Some s'" "flt s' = flt s"
    "at s' = (at s)(t := Copy m)" "answers s' = answers s" by auto
  have "dedup_task_step (DStep t) s = Some ?s" using i ne(1) Suc.prems(1) by (auto simp: Let_def)
  moreover have "Suc (DEDUP_CACHE_SIZE - i) = Suc (Suc (DEDUP_CACHE_SIZE - Suc i))" using i by simp
  ultimately show ?case using s' by (intro exI [of _ s']) simp
qed

lemma whole_records:
  "(d :: dedup)\<lparr>s_cache := es, s_next_slot := n\<rparr> = \<lparr>s_cache = es, s_next_slot = n\<rparr>"
  "(e :: dedup_entry)\<lparr>de_msg_id := m, de_used := u\<rparr> = \<lparr>de_msg_id = m, de_used = u\<rparr>"
  by (cases d, simp) (cases e, simp)

lemma call_alone:
  assumes "at s t = DIdle" "length (s_cache (flt s)) = DEDUP_CACHE_SIZE" "s_next_slot (flt s) < DEDUP_CACHE_SIZE"
  shows "\<exists>k s'. run_steps dedup_task_step (DCall t m # replicate k (DStep t)) s = Some s' \<and>
    flt s' = snd (dedup_check_and_mark m (flt s)) \<and> at s' = at s \<and>
    answers s' = answers s @ [(t, m, fst (dedup_check_and_mark m (flt s)))]"
proof (cases "dedup_scan m (s_cache (flt s))")
  case True
  with assms scan_finds [of "move_to t (Scan m 0) s" t m 0] obtain k s' where
    "run_steps dedup_task_step (replicate k (DStep t)) (move_to t (Scan m 0) s) = Some s'" "flt s' = flt s"
    "at s' = (at s)(t := DIdle)" "answers s' = answers s @ [(t, m, True)]" by auto
  with True assms(1) show ?thesis
    by (intro exI [of _ k] exI [of _ s']) (auto simp: dedup_check_and_mark_def fun_upd_idem)
next
  case False
  with assms scan_misses [of "move_to t (Scan m 0) s" t m 0] obtain s1 where
    s1: "run_steps dedup_task_step (replicate (Suc DEDUP_CACHE_SIZE) (DStep t)) (move_to t (Scan m 0) s) = Some s1"
    "flt s1 = flt s" "at s1 = (at s)(t := Copy m)" "answers s1 = answers s" by auto
  have "\<exists>s'. run_steps dedup_task_step (replicate 3 (DStep t)) s1 = Some s' \<and>
      flt s' = snd (dedup_check_and_mark m (flt s)) \<and> at s' = at s \<and> answers s' = answers s @ [(t, m, False)]"
    using False assms s1(2-4)
    by (simp add: numeral_3_eq_3 dedup_check_and_mark_def Let_def fun_upd_idem whole_records)
  then obtain s' where s': "run_steps dedup_task_step (replicate 3 (DStep t)) s1 = Some s'"
      "flt s' = snd (dedup_check_and_mark m (flt s))" "at s' = at s" "answers s' = answers s @ [(t, m, False)]" by blast
  have "run_steps dedup_task_step (replicate (Suc DEDUP_CACHE_SIZE + 3) (DStep t)) (move_to t (Scan m 0) s) = Some s'"
    unfolding replicate_add by (simp only: run_steps_append s1(1) s'(1) option.case)
  moreover have "fst (dedup_check_and_mark m (flt s)) = False" using False by (simp add: dedup_check_and_mark_def)
  ultimately show ?thesis
    using s' assms(1) by (intro exI [of _ "Suc DEDUP_CACHE_SIZE + 3"] exI [of _ s']) simp
qed

section \<open>What every interleaving keeps\<close>

text \<open>A call has accepted an ID when it has written it into the ring.\<close>

definition accepted_id :: "bytes \<Rightarrow> dedup_tasks \<Rightarrow> bool" where
  "accepted_id m s \<longleftrightarrow> (\<exists>t. (t, m, False) \<in> set (answers s) \<or> at s t = SetUsed m \<or> at s t = Advance m)"

abbreviation zero_id :: bytes where
  "zero_id \<equiv> replicate PKT_MSG_ID_LEN 0"

definition ring_ok :: "dedup_tasks \<Rightarrow> bool" where
  "ring_ok s \<longleftrightarrow> length (s_cache (flt s)) = DEDUP_CACHE_SIZE \<and> s_next_slot (flt s) < DEDUP_CACHE_SIZE"

definition ids_ok :: "dedup_tasks \<Rightarrow> bool" where
  "ids_ok s \<longleftrightarrow> (\<forall>e \<in> set (s_cache (flt s)). de_msg_id e = zero_id \<or> accepted_id (de_msg_id e) s) \<and>
     (\<forall>t m. (t, m, True) \<in> set (answers s) \<longrightarrow> m = zero_id \<or> accepted_id m s)"

lemma accepted_mono:
  assumes "dedup_task_step l s = Some s'" "accepted_id m s"
  shows "accepted_id m s'"
proof -
  from assms(2) obtain t where t: "(t, m, False) \<in> set (answers s) \<or> at s t = SetUsed m \<or> at s t = Advance m"
    by (auto simp: accepted_id_def)
  then have "(t, m, False) \<in> set (answers s') \<or> at s' t = SetUsed m \<or> at s' t = Advance m"
    using assms(1) by (cases l) (auto simp: Let_def split: if_splits dedup_pc.splits)
  then show ?thesis by (auto simp: accepted_id_def)
qed

lemma ids_ok_update:
  assumes "ids_ok s" "dedup_task_step l s = Some s'"
    "\<And>e. e \<in> set (s_cache (flt s')) \<Longrightarrow>
       e \<in> set (s_cache (flt s)) \<or> accepted_id (de_msg_id e) s' \<or> (\<exists>e' \<in> set (s_cache (flt s)). de_msg_id e = de_msg_id e')"
    "\<And>t m. (t, m, True) \<in> set (answers s') \<Longrightarrow> (t, m, True) \<in> set (answers s) \<or> (\<exists>e \<in> set (s_cache (flt s)). de_msg_id e = m)"
  shows "ids_ok s'"
  using assms(1,3,4) accepted_mono [OF assms(2)] unfolding ids_ok_def by metis

lemma ids_ok_step:
  assumes "ring_ok s" "ids_ok s" "dedup_task_step l s = Some s'"
  shows "ids_ok s'"
proof (rule ids_ok_update [OF assms(2,3)])
  have at_slot: "s_cache (flt s) ! i \<in> set (s_cache (flt s))" if "i < DEDUP_CACHE_SIZE" for i
    using that assms(1) by (simp add: ring_ok_def)
  have slot: "s_next_slot (flt s) < DEDUP_CACHE_SIZE" using assms(1) by (simp add: ring_ok_def)
  fix e
  assume e: "e \<in> set (s_cache (flt s'))"
  show "e \<in> set (s_cache (flt s)) \<or> accepted_id (de_msg_id e) s' \<or> (\<exists>e' \<in> set (s_cache (flt s)). de_msg_id e = de_msg_id e')"
  proof (cases "\<exists>t m. l = DStep t \<and> (at s t = Copy m \<or> at s t = SetUsed m)")
    case True
    then obtain t m where l: "l = DStep t" "at s t = Copy m \<or> at s t = SetUsed m" by blast
    show ?thesis
    proof (cases "at s t = Copy m")
      case True
      with assms(3) l(1) e have "e \<in> set (s_cache (flt s)) \<or> de_msg_id e = m" and "at s' t = SetUsed m"
        by (auto simp: Let_def dest!: subsetD [OF set_update_subset_insert])
      then show ?thesis by (auto simp: accepted_id_def)
    next
      case False
      with l assms(3) e have "e \<in> set (s_cache (flt s)) \<or> de_msg_id e = de_msg_id (s_cache (flt s) ! s_next_slot (flt s))"
        by (auto simp: Let_def dest!: subsetD [OF set_update_subset_insert])
      with at_slot [OF slot] show ?thesis by auto
    qed
  next
    case False
    then have "s_cache (flt s') = s_cache (flt s)"
      using assms(3) by (cases l) (auto simp: Let_def split: if_splits dedup_pc.splits)
    with e show ?thesis by simp
  qed
next
  have at_slot: "s_cache (flt s) ! i \<in> set (s_cache (flt s))" if "i < DEDUP_CACHE_SIZE" for i
    using that assms(1) by (simp add: ring_ok_def)
  fix t m
  assume "(t, m, True) \<in> set (answers s')"
  then show "(t, m, True) \<in> set (answers s) \<or> (\<exists>e \<in> set (s_cache (flt s)). de_msg_id e = m)"
    using assms(3) at_slot by (cases l) (auto simp: Let_def split: if_splits dedup_pc.splits)
qed

interpretation dedup_tasks: scheduled dedup_task_step "\<lambda>_. True" "\<lambda>s. ring_ok s \<and> ids_ok s"
proof
  fix l s s'
  assume ok: "ring_ok s \<and> ids_ok s" and st: "dedup_task_step l s = Some s'"
  have "0 < DEDUP_CACHE_SIZE" by (simp add: DEDUP_CACHE_SIZE_def)
  with ok st have "ring_ok s'"
    by (cases l) (auto simp: ring_ok_def Let_def split: if_splits dedup_pc.splits)
  with ids_ok_step ok st show "ring_ok s' \<and> ids_ok s'" by blast
qed

section \<open>Two calls at once\<close>

text \<open>Both search loops end before either call writes; then the statements alternate.\<close>

lemma both_scanned:
  "\<exists>ls s. run_steps dedup_task_step ls filter_start = Some s \<and> flt s = dedup_init \<and>
     at s = (\<lambda>_. DIdle)(0 := Copy m, Suc 0 := Copy m') \<and> answers s = []"
proof -
  have z: "\<not> dedup_scan k (drop 0 (s_cache dedup_init))" "length (s_cache dedup_init) = DEDUP_CACHE_SIZE" for k
    by (simp_all add: dedup_scan_iff dedup_init_def)
  let ?r = "\<lambda>t. replicate (Suc DEDUP_CACHE_SIZE) (DStep t)"
  from scan_misses [of "move_to 0 (Scan m 0) filter_start" 0 m 0] z obtain s1 where
    s1: "run_steps dedup_task_step (?r 0) (move_to 0 (Scan m 0) filter_start) = Some s1" "flt s1 = dedup_init"
    "at s1 = (\<lambda>_. DIdle)(0 := Copy m)" "answers s1 = []" by (auto simp: filter_start_def)
  from scan_misses [of "move_to (Suc 0) (Scan m' 0) s1" "Suc 0" m' 0] z s1 obtain s2 where
    s2: "run_steps dedup_task_step (?r (Suc 0)) (move_to (Suc 0) (Scan m' 0) s1) = Some s2" "flt s2 = dedup_init"
    "at s2 = (\<lambda>_. DIdle)(0 := Copy m, Suc 0 := Copy m')" "answers s2 = []" by auto
  have "run_steps dedup_task_step ((DCall 0 m # ?r 0) @ (DCall (Suc 0) m' # ?r (Suc 0))) filter_start = Some s2"
    unfolding run_steps_append using s1 s2(1) by (simp add: filter_start_def del: replicate_Suc)
  with s2(2-4) show ?thesis by blast
qed

lemma first_mark_lost:
  assumes "m \<noteq> m'"
  shows "\<exists>ls s. run_steps dedup_task_step ls filter_start = Some s \<and>
    answers s = [(0, m, False), (1, m', False), (0, m, False)]"
proof -
  from both_scanned [of m m'] obtain ls s1 where
    s1: "run_steps dedup_task_step ls filter_start = Some s1" "flt s1 = dedup_init"
    "at s1 = (\<lambda>_. DIdle)(0 := Copy m, Suc 0 := Copy m')" "answers s1 = []" by blast
  let ?d = "\<lparr>s_cache = (s_cache dedup_init)[0 := \<lparr>de_msg_id = m', de_used = True\<rparr>], s_next_slot = Suc (Suc 0)\<rparr>"
  have z: "0 < DEDUP_CACHE_SIZE" "s_next_slot dedup_init = 0" "length (s_cache dedup_init) = DEDUP_CACHE_SIZE"
    "Suc 0 mod DEDUP_CACHE_SIZE = Suc 0" "Suc (Suc 0) mod DEDUP_CACHE_SIZE = Suc (Suc 0)" "Suc (Suc 0) < DEDUP_CACHE_SIZE"
    by (simp_all add: DEDUP_CACHE_SIZE_def dedup_init_def)
  let ?alt = "[DStep 0, DStep (Suc 0), DStep 0, DStep (Suc 0), DStep 0, DStep (Suc 0)]"
  have "\<exists>s2. run_steps dedup_task_step ?alt s1 = Some s2 \<and> flt s2 = ?d \<and> at s2 = (\<lambda>_. DIdle) \<and>
      answers s2 = [(0, m, False), (1, m', False)]"
    using s1(2-4) z by (simp add: Let_def whole_records fun_eq_iff)
  then obtain s2 where s2: "run_steps dedup_task_step ?alt s1 = Some s2" "flt s2 = ?d" "at s2 = (\<lambda>_. DIdle)"
      "answers s2 = [(0, m, False), (1, m', False)]" by blast
  have "\<not> dedup_scan m (s_cache (flt s2))"
    using assms by (auto simp: s2(2) dedup_scan_iff dedup_init_def dest!: subsetD [OF set_update_subset_insert])
  then have "fst (dedup_check_and_mark m (flt s2)) = False" by (simp add: dedup_check_and_mark_def)
  with call_alone [of s2 0 m] s2(2-4) z obtain k s3 where
    s3: "run_steps dedup_task_step (DCall 0 m # replicate k (DStep 0)) s2 = Some s3"
    "answers s3 = [(0, m, False), (1, m', False), (0, m, False)]" by auto
  have "run_steps dedup_task_step (ls @ ?alt @ (DCall 0 m # replicate k (DStep 0))) filter_start = Some s3"
    by (simp only: run_steps_append s1(1) s2(1) s3(1) option.case)
  with s3(2) show ?thesis by blast
qed

section \<open>Properties\<close>

text \<open>Property C28: the duplicate filter without a lock. Under every interleaving of any number of
  tasks the slot index stays within the ring, and a message is taken for a duplicate only when
  its ID has been accepted by some call before (or is the all-zero ID of an unused slot, which
  a half-finished call can mark as used); and a call that is not interrupted is the sequential
  function. But two calls at once can write the same slot: both answer "new", one ID is lost, and
  a copy that arrives directly afterwards is accepted, relayed and delivered a second time.\<close>
theorem dedup_concurrent:
  assumes "run_steps dedup_task_step ls filter_start = Some s"
  shows "s_next_slot (flt s) < length (s_cache (flt s)) \<and>
    ((t, m, True) \<in> set (answers s) \<longrightarrow> m = zero_id \<or>
       (\<exists>t'. (t', m, False) \<in> set (answers s) \<or> at s t' = SetUsed m \<or> at s t' = Advance m)) \<and>
    (at s t = DIdle \<longrightarrow> (\<exists>k s'. run_steps dedup_task_step (DCall t m # replicate k (DStep t)) s = Some s' \<and>
       flt s' = snd (dedup_check_and_mark m (flt s)) \<and>
       answers s' = answers s @ [(t, m, fst (dedup_check_and_mark m (flt s)))])) \<and>
    (m1 \<noteq> m2 \<longrightarrow> (\<exists>ls s. run_steps dedup_task_step ls filter_start = Some s \<and>
       answers s = [(0, m1, False), (1, m2, False), (0, m1, False)]))"
proof -
  have "ring_ok filter_start \<and> ids_ok filter_start"
    by (simp add: ring_ok_def ids_ok_def filter_start_def dedup_init_def DEDUP_CACHE_SIZE_def)
  from dedup_tasks.run_keeps [OF _ this assms] have ok: "ring_ok s \<and> ids_ok s" by (simp add: list_all_iff)
  then have "at s t = DIdle \<longrightarrow> (\<exists>k s'. run_steps dedup_task_step (DCall t m # replicate k (DStep t)) s = Some s' \<and>
       flt s' = snd (dedup_check_and_mark m (flt s)) \<and>
       answers s' = answers s @ [(t, m, fst (dedup_check_and_mark m (flt s)))])"
    using call_alone [of s t m] unfolding ring_ok_def by blast
  moreover have "(t, m, True) \<in> set (answers s) \<longrightarrow> m = zero_id \<or>
       (\<exists>t'. (t', m, False) \<in> set (answers s) \<or> at s t' = SetUsed m \<or> at s t' = Advance m)"
    using ok unfolding ids_ok_def accepted_id_def by blast
  moreover have "s_next_slot (flt s) < length (s_cache (flt s))" using ok by (simp add: ring_ok_def)
  ultimately show ?thesis using first_mark_lost [of m1 m2] by blast
qed

theorem dedup_concurrent_witness:
  "\<exists>k s'. run_steps dedup_task_step (DCall 0 (ex_id 1) # replicate k (DStep 0)) filter_start = Some s' \<and>
     answers s' = [(0, ex_id 1, False)]"
proof -
  have st: "run_steps dedup_task_step [] filter_start = Some filter_start" by simp
  have idle: "at filter_start 0 = DIdle" "answers filter_start = []" by (simp_all add: filter_start_def)
  have "fst (dedup_check_and_mark (ex_id 1) (flt filter_start)) = False"
    by (simp add: filter_start_def dedup.mark_seen)
  with dedup_concurrent [OF st, of 0 "ex_id 1" "ex_id 1" "ex_id 2"] idle show ?thesis by auto
qed

end
