(* ===== verification/RadioTasks.thy ===== *)
theory RadioTasks
  imports Sx1262 ChipRing Schedules
begin

text \<open>
  The radio driver seen as concurrent tasks. \<open>sx1262_send\<close> is called from the application
  tasks (\<open>app_main\<close>, the BLE host task) and also from the interrupt task, because
  \<open>handle_irq\<close> runs the receive callback and the mesh relays and answers from there. There is
  no lock around the driver. A step is one command to the chip or one call of the scheduler's: the
  statements of \<open>sx1262_send\<close> and \<open>handle_irq\<close> of all tasks interleave with each other and with
  the events of the chip. The driver is as \<open>sx1262_start_rx\<close> leaves it: \<open>s_rx_enabled\<close> and
  \<open>s_rx_cb\<close> are set, and nothing resets them. \<open>GET_PACKET_STATUS\<close>, which only reads signal
  strengths, is no step of its own.

  The chip's side is what its data sheet documents: \<open>WRITE_BUFFER\<close> at offset 0 writes the ring from
  its start; \<open>SET_TX\<close> leaves reception and starts to send as many bytes from the start of the ring as
  the packet parameters say (taken from the ring at this point), and when the frame is on air the
  chip is in standby; \<open>SET_RX\<close> ends whatever the chip does, also a transmission; a packet that is
  received is written to the same ring (\<open>sx1262_init\<close> sets both base addresses to 0) from some
  offset; and the DIO1 line is high as long as an enabled interrupt bit is set. The interrupt of
  DIO1 is configured for the rising edge (\<open>board.c\<close>), and \<open>dio1_isr\<close> notifies the interrupt task.
\<close>

section \<open>State\<close>

datatype thread = IrqTask | AppTask nat

text \<open>
  Where a task is. \<open>Idle\<close>: an application task outside \<open>sx1262_send\<close>, the interrupt task
  blocked in \<open>ulTaskNotifyTake\<close>. Then the positions of the interrupt task in \<open>handle_irq\<close>, after
  the command or call they are named for: awake; the status read (TxDone, RxDone, CRC error); TxDone
  found and the status cleared; the semaphore given; the packet parameters reset; at the test for
  RxDone; the buffer status read; the packet read; in the receive callback. Then those of a task
  in \<open>sx1262_send\<close>.
\<close>

datatype pc =
    Idle
  | Woken
  | ReadStatus bool bool bool
  | TxCleared bool bool
  | SemGiven bool bool
  | ParamsReset bool bool
  | RxTest bool bool
  | BufStatus nat nat
  | PacketRead bytes
  | InCallback
  | Written bytes
  | ParamsSet bytes
  | SemCleared bytes
  | Waiting bytes

datatype radio_mode = ChipStandby | ChipRx | ChipTx bytes

text \<open>Beside the chip, the positions, the semaphore and the notification: what was asked to be sent, what
  went on air, what was received, what was handed to the receive callback, and the results of
  \<open>sx1262_send\<close>, in order.\<close>

record tasks =
  mode :: radio_mode
  pcs :: "thread \<Rightarrow> pc"
  fifo :: bytes
  fifo_len :: nat
  rx_len :: nat
  rx_off :: nat
  sem :: bool
  notified :: bool
  irq_tx :: bool
  irq_rx :: bool
  irq_crc :: bool
  asked :: "bytes list"
  on_air :: "bytes list"
  heard :: "bytes list"
  handed :: "bytes list"
  results :: "(thread \<times> bytes \<times> esp_err) list"

definition tasks_init :: tasks where
  "tasks_init = \<lparr>mode = ChipRx, pcs = (\<lambda>_. Idle), fifo = replicate 256 0, fifo_len = 255, rx_len = 0, rx_off = 0,
     sem = False, notified = False, irq_tx = False, irq_rx = False, irq_crc = False,
     asked = [], on_air = [], heard = [], handed = [], results = []\<rparr>"

definition dio1_high :: "tasks \<Rightarrow> bool" where
  "dio1_high s \<longleftrightarrow> irq_tx s \<or> irq_rx s \<or> irq_crc s"

text \<open>A task may enter \<open>sx1262_send\<close> when it is not inside it: the interrupt task only from the
  callback. After the call it is back where it was.\<close>

fun outside :: "thread \<Rightarrow> pc" where
  "outside IrqTask = InCallback"
| "outside (AppTask i) = Idle"

definition goto :: "thread \<Rightarrow> pc \<Rightarrow> tasks \<Rightarrow> tasks" where
  "goto t p s = s\<lparr>pcs := (pcs s)(t := p)\<rparr>"

section \<open>Steps\<close>

text \<open>\<open>sx1262_send\<close>: the length check and \<open>WRITE_BUFFER\<close>, and then one statement after the other; the
  wait ends with the semaphore or, without it, with the timeout.\<close>

definition send_begin :: "thread \<Rightarrow> bytes \<Rightarrow> tasks \<Rightarrow> tasks option" where
  "send_begin t buf s =
     (if pcs s t = outside t \<and> length buf \<le> 255
      then Some (goto t (Written buf) s\<lparr>fifo := ring_write 0 buf (fifo s), asked := asked s @ [buf]\<rparr>)
      else None)"

definition send_next :: "thread \<Rightarrow> tasks \<Rightarrow> tasks option" where
  "send_next t s =
     (case pcs s t of
        Written buf \<Rightarrow> Some (goto t (ParamsSet buf) s\<lparr>fifo_len := length buf\<rparr>)
      | ParamsSet buf \<Rightarrow> Some (goto t (SemCleared buf) s\<lparr>sem := False\<rparr>)
      | SemCleared buf \<Rightarrow> Some (goto t (Waiting buf) s\<lparr>mode := ChipTx (ring_read 0 (fifo_len s) (fifo s))\<rparr>)
      | Waiting buf \<Rightarrow>
          Some (if sem s
                then goto t (outside t) s\<lparr>sem := False, results := results s @ [(t, buf, ESP_OK)]\<rparr>
                else goto t (outside t) s\<lparr>results := results s @ [(t, buf, ESP_ERR_TIMEOUT)]\<rparr>)
      | _ \<Rightarrow> None)"

text \<open>\<open>irq_task\<close> and \<open>handle_irq\<close>. Clearing takes only the bits that were read.\<close>

definition irq_next :: "tasks \<Rightarrow> tasks option" where
  "irq_next s =
     (case pcs s IrqTask of
        Idle \<Rightarrow> if notified s then Some (goto IrqTask Woken s\<lparr>notified := False\<rparr>) else None
      | Woken \<Rightarrow> Some (goto IrqTask (ReadStatus (irq_tx s) (irq_rx s) (irq_crc s)) s)
      | ReadStatus tx rx crc \<Rightarrow>
          Some (goto IrqTask (if tx then TxCleared rx crc else RxTest rx crc) s
            \<lparr>irq_tx := (irq_tx s \<and> \<not> tx), irq_rx := (irq_rx s \<and> \<not> rx), irq_crc := (irq_crc s \<and> \<not> crc)\<rparr>)
      | TxCleared rx crc \<Rightarrow> Some (goto IrqTask (SemGiven rx crc) s\<lparr>sem := True\<rparr>)
      | SemGiven rx crc \<Rightarrow> Some (goto IrqTask (ParamsReset rx crc) s\<lparr>fifo_len := 255\<rparr>)
      | ParamsReset rx crc \<Rightarrow> Some (goto IrqTask (RxTest rx crc) s\<lparr>mode := ChipRx\<rparr>)
      | RxTest rx crc \<Rightarrow> Some (goto IrqTask (if rx \<and> \<not> crc then BufStatus (rx_len s) (rx_off s) else Idle) s)
      | BufStatus len off \<Rightarrow> Some (goto IrqTask (PacketRead (ring_read off len (fifo s))) s)
      | PacketRead pkt \<Rightarrow> Some (goto IrqTask InCallback s\<lparr>handed := handed s @ [pkt]\<rparr>)
      | InCallback \<Rightarrow> Some (goto IrqTask Idle s)
      | _ \<Rightarrow> None)"

text \<open>The chip: the end of a transmission, and a reception; a rising edge of DIO1 notifies the
  interrupt task.\<close>

definition tx_done :: "tasks \<Rightarrow> tasks option" where
  "tx_done s =
     (case mode s of
        ChipTx f \<Rightarrow> Some (s\<lparr>irq_tx := True, mode := ChipStandby, on_air := on_air s @ [f],
          notified := (notified s \<or> \<not> dio1_high s)\<rparr>)
      | _ \<Rightarrow> None)"

definition rx_done :: "nat \<Rightarrow> bytes \<Rightarrow> bool \<Rightarrow> tasks \<Rightarrow> tasks option" where
  "rx_done off pkt crc s =
     (if mode s = ChipRx \<and> off < 256 \<and> length pkt \<le> 255
      then Some (s\<lparr>irq_rx := True, irq_crc := (irq_crc s \<or> crc), fifo := ring_write off pkt (fifo s),
        rx_len := length pkt, rx_off := off, heard := heard s @ [pkt], notified := (notified s \<or> \<not> dio1_high s)\<rparr>)
      else None)"

datatype label = Send thread bytes | Go thread | Irq | TxDone | RxDone nat bytes bool

fun do_step :: "label \<Rightarrow> tasks \<Rightarrow> tasks option" where
  "do_step (Send t buf) s = send_begin t buf s"
| "do_step (Go t) s = send_next t s"
| "do_step Irq s = irq_next s"
| "do_step TxDone s = tx_done s"
| "do_step (RxDone off pkt crc) s = rx_done off pkt crc s"

lemmas step_defs = send_begin_def send_next_def irq_next_def tx_done_def rx_done_def

definition task_step :: "tasks \<Rightarrow> tasks \<Rightarrow> bool" where
  "task_step s s' \<longleftrightarrow> (\<exists>l. do_step l s = Some s')"

text \<open>Reachability is the reflexive transitive closure of the steps.\<close>

definition task_reach :: "tasks \<Rightarrow> bool" where
  "task_reach s \<longleftrightarrow> task_step\<^sup>*\<^sup>* tasks_init s"

lemma goto_simps [simp]:
  "pcs (goto t p s) = (pcs s)(t := p)" "fifo (goto t p s) = fifo s" "fifo_len (goto t p s) = fifo_len s"
  "sem (goto t p s) = sem s" "notified (goto t p s) = notified s" "irq_tx (goto t p s) = irq_tx s"
  "irq_rx (goto t p s) = irq_rx s" "irq_crc (goto t p s) = irq_crc s" "asked (goto t p s) = asked s"
  "on_air (goto t p s) = on_air s" "heard (goto t p s) = heard s" "handed (goto t p s) = handed s"
  "results (goto t p s) = results s" "mode (goto t p s) = mode s" "rx_len (goto t p s) = rx_len s"
  "rx_off (goto t p s) = rx_off s"
  by (simp_all add: goto_def)

lemma do_step_task: "do_step l s = Some s' \<Longrightarrow> task_step s s'"
  by (auto simp: task_step_def)

lemma steps_schedule: "run_steps do_step ls s = Some s' \<Longrightarrow> task_step\<^sup>*\<^sup>* s s'"
  by (induction ls arbitrary: s)
     (auto split: option.splits dest!: do_step_task intro: converse_rtranclp_into_rtranclp)

lemma schedule_reach: "run_steps do_step ls tasks_init = Some s \<Longrightarrow> task_reach s"
  by (simp add: task_reach_def steps_schedule)

lemma steps_invariant:
  assumes "\<And>l s s'. do_step l s = Some s' \<Longrightarrow> P s \<Longrightarrow> P s'"
  shows "task_step\<^sup>*\<^sup>* s s' \<Longrightarrow> P s \<Longrightarrow> P s'"
  by (induction rule: rtranclp_induct) (auto simp: task_step_def dest: assms)

section \<open>The interrupt task waits for itself\<close>

text \<open>
  Only the interrupt task gives the semaphore. While it is inside \<open>sx1262_send\<close>, from the point
  where it has dropped a stale signal, nobody does.
\<close>

definition irq_self_wait :: "tasks \<Rightarrow> bool" where
  "irq_self_wait s \<longleftrightarrow>
     (\<forall>buf. pcs s IrqTask = SemCleared buf \<or> pcs s IrqTask = Waiting buf \<longrightarrow> \<not> sem s) \<and>
     (\<forall>buf. (IrqTask, buf, ESP_OK) \<notin> set (results s))"

lemma outside_not_sending [simp]:
  "outside t \<noteq> SemCleared buf" "outside t \<noteq> Waiting buf" "outside t \<noteq> Written buf" "outside t \<noteq> ParamsSet buf"
  by (cases t, simp_all)+

lemma irq_self_wait_step: "do_step l s = Some s' \<Longrightarrow> irq_self_wait s \<Longrightarrow> irq_self_wait s'"
  by (cases l) (auto simp: step_defs irq_self_wait_def split: pc.splits radio_mode.splits if_splits)

lemma reach_irq_self_wait: "task_reach s \<Longrightarrow> irq_self_wait s"
  unfolding task_reach_def
  by (rule steps_invariant [of irq_self_wait, OF irq_self_wait_step]) (auto simp: irq_self_wait_def tasks_init_def)

section \<open>The lost edge\<close>

text \<open>An interrupt bit is pending, the interrupt task is blocked and nobody will wake it.\<close>

definition irq_stuck :: "tasks \<Rightarrow> bool" where
  "irq_stuck s \<longleftrightarrow> pcs s IrqTask = Idle \<and> \<not> notified s \<and> dio1_high s \<and> \<not> sem s"

lemma irq_stuck_step: "do_step l s = Some s' \<Longrightarrow> irq_stuck s \<Longrightarrow> irq_stuck s'"
proof (cases l)
  case (Send t buf)
  then show "do_step l s = Some s' \<Longrightarrow> irq_stuck s \<Longrightarrow> irq_stuck s'"
    by (cases t) (auto simp: step_defs irq_stuck_def dio1_high_def split: if_splits)
next
  case (Go t)
  then show "do_step l s = Some s' \<Longrightarrow> irq_stuck s \<Longrightarrow> irq_stuck s'"
    by (cases t) (auto simp: step_defs irq_stuck_def dio1_high_def split: pc.splits if_splits)
qed (auto simp: step_defs irq_stuck_def dio1_high_def split: radio_mode.splits if_splits)

section \<open>Schedules\<close>

text \<open>A relay from the receive callback.\<close>

definition ex_relay :: "label list" where
  "ex_relay = [RxDone 0 [5] False, Irq, Irq, Irq, Irq, Irq, Irq, Send IrqTask [1, 2], Go IrqTask, Go IrqTask, Go IrqTask, TxDone]"

text \<open>The transmission of an application task ends while the handler is between reading the status
  of a received packet and clearing it.\<close>

definition ex_lost_edge :: "label list" where
  "ex_lost_edge = [Send (AppTask 0) [1], Go (AppTask 0), Go (AppTask 0), RxDone 1 [5] False, Irq, Irq, Go (AppTask 0), TxDone,
     Irq, Irq, Irq, Irq, Irq, Go (AppTask 0)]"

text \<open>Two application tasks send at the same time.\<close>

definition ex_mixed :: "label list" where
  "ex_mixed = [Send (AppTask 0) [1, 2, 3], Send (AppTask 1) [9], Go (AppTask 1), Go (AppTask 0), Go (AppTask 0), Go (AppTask 0), TxDone]"

text \<open>A packet is received while an application task prepares a transmission.\<close>

definition ex_overwritten :: "label list" where
  "ex_overwritten = [Send (AppTask 0) [1, 2, 3], RxDone 0 [7, 7] False, Go (AppTask 0), Go (AppTask 0), Go (AppTask 0), TxDone]"

text \<open>An application task whose transmission the interrupt task acknowledges.\<close>

definition ex_acknowledged :: "label list" where
  "ex_acknowledged = [Send (AppTask 0) [1, 2, 3], Go (AppTask 0), Go (AppTask 0), Go (AppTask 0), TxDone, Irq, Irq, Irq, Irq, Go (AppTask 0)]"

text \<open>The next transmission begins before the interrupt task has put the chip back into reception: it
  resets the packet length between \<open>SET_PACKET_PARAMS\<close> and \<open>SET_TX\<close> of the sender.\<close>

definition ex_padded :: "label list" where
  "ex_padded = ex_acknowledged @ [Send (AppTask 0) [4], Go (AppTask 0), Irq, Go (AppTask 0), Go (AppTask 0), TxDone]"

text \<open>An application task begins to send while the interrupt task is about to read a received packet.\<close>

definition ex_garbled :: "label list" where
  "ex_garbled = [RxDone 0 [5, 6] False, Irq, Irq, Irq, Irq, Send (AppTask 0) [1], Irq, Irq]"

lemmas run_defs = tasks_init_def step_defs dio1_high_def goto_def

text \<open>What these schedules lead to.\<close>

lemma ex_relay_run:
  "\<exists>s. task_reach s \<and> pcs s IrqTask = Waiting [1, 2] \<and> irq_tx s \<and> \<not> sem s \<and> on_air s = [[1, 2]]"
proof -
  obtain s where "run_steps do_step ex_relay tasks_init = Some s" "pcs s IrqTask = Waiting [1, 2]" "irq_tx s" "\<not> sem s"
      "on_air s = [[1, 2]]"
    by (simp add: ex_relay_def run_defs ring_read_def)
  with schedule_reach show ?thesis by blast
qed

lemma ex_lost_edge_run:
  "\<exists>s. task_reach s \<and> irq_stuck s \<and> results s = [(AppTask 0, [1], ESP_ERR_TIMEOUT)] \<and> on_air s = [[1]]"
proof -
  obtain s where "run_steps do_step ex_lost_edge tasks_init = Some s" "irq_stuck s"
      "results s = [(AppTask 0, [1], ESP_ERR_TIMEOUT)]" "on_air s = [[1]]"
    by (simp add: ex_lost_edge_def run_defs irq_stuck_def ring_read_def)
  with schedule_reach show ?thesis by blast
qed

lemma ex_mixed_run: "\<exists>s. task_reach s \<and> asked s = [[1, 2, 3], [9]] \<and> on_air s = [[9, 2, 3]]"
proof -
  obtain s where "run_steps do_step ex_mixed tasks_init = Some s" "asked s = [[1, 2, 3], [9]]" "on_air s = [[9, 2, 3]]"
    by (simp add: ex_mixed_def run_defs ring_read_def)
  with schedule_reach show ?thesis by blast
qed

lemma ex_overwritten_run: "\<exists>s. task_reach s \<and> asked s = [[1, 2, 3]] \<and> on_air s = [[7, 7, 3]]"
proof -
  obtain s where "run_steps do_step ex_overwritten tasks_init = Some s" "asked s = [[1, 2, 3]]" "on_air s = [[7, 7, 3]]"
    by (simp add: ex_overwritten_def run_defs ring_read_def)
  with schedule_reach show ?thesis by blast
qed

lemma ex_acknowledged_run:
  "\<exists>s. task_reach s \<and> asked s = [[1, 2, 3]] \<and> on_air s = [[1, 2, 3]] \<and> results s = [(AppTask 0, [1, 2, 3], ESP_OK)]"
proof -
  obtain s where "run_steps do_step ex_acknowledged tasks_init = Some s" "asked s = [[1, 2, 3]]" "on_air s = [[1, 2, 3]]"
      "results s = [(AppTask 0, [1, 2, 3], ESP_OK)]"
    by (simp add: ex_acknowledged_def run_defs ring_read_def)
  with schedule_reach show ?thesis by blast
qed

lemma ex_padded_run:
  "\<exists>s f. task_reach s \<and> asked s = [[1, 2, 3], [4]] \<and> on_air s = [[1, 2, 3], f] \<and> length f = 255 \<and> heard s = []"
proof -
  have r: "ring_read 0 (Suc (Suc (Suc 0))) ((replicate 256 0)[0 := 1, Suc 0 := 2, Suc (Suc 0) := 3]) = [1, 2, 3 :: byte]"
    by (simp add: ring_read_def)
  obtain s where "run_steps do_step ex_padded tasks_init = Some s" "asked s = [[1, 2, 3], [4]]"
      "on_air s = [[1, 2, 3], ring_read 0 255 (fifo s)]" "length (ring_read 0 255 (fifo s)) = 255" "heard s = []"
    by (simp add: ex_padded_def ex_acknowledged_def run_defs r)
  with schedule_reach show ?thesis by blast
qed

lemma ex_garbled_run: "\<exists>s. task_reach s \<and> heard s = [[5, 6]] \<and> handed s = [[1, 6]]"
proof -
  obtain s where "run_steps do_step ex_garbled tasks_init = Some s" "heard s = [[5, 6]]" "handed s = [[1, 6]]"
    by (simp add: ex_garbled_def run_defs ring_read_def)
  with schedule_reach show ?thesis by blast
qed

section \<open>Sends one at a time\<close>

text \<open>The buffer of a task that is preparing a transmission: from \<open>WRITE_BUFFER\<close> to before \<open>SET_TX\<close>.\<close>

fun prep :: "pc \<Rightarrow> bytes option" where
  "prep (Written b) = Some b"
| "prep (ParamsSet b) = Some b"
| "prep (SemCleared b) = Some b"
| "prep p = None"

text \<open>A transmission is under way: a task prepares it, or the chip sends it.\<close>

definition sending :: "tasks \<Rightarrow> bool" where
  "sending s \<longleftrightarrow> (\<exists>t b. prep (pcs s t) = Some b) \<or> (\<exists>f. mode s = ChipTx f)"

text \<open>The interrupt task is about to put the chip back into reception: its next statement is
  \<open>SET_PACKET_PARAMS\<close> with length 255, or \<open>SET_RX\<close>.\<close>

fun rearming :: "pc \<Rightarrow> bool" where
  "rearming (SemGiven rx crc) = True"
| "rearming (ParamsReset rx crc) = True"
| "rearming p = False"

text \<open>Steps under a discipline: while a transmission is under way, no other begins, nothing is received
  into the ring, and the interrupt task does not put the chip back into reception.\<close>

definition serial_step :: "tasks \<Rightarrow> tasks \<Rightarrow> bool" where
  "serial_step s s' \<longleftrightarrow> task_step s s' \<and>
     (sending s \<longrightarrow> asked s' = asked s \<and> heard s' = heard s \<and>
        (rearming (pcs s IrqTask) \<longrightarrow> pcs s' IrqTask = pcs s IrqTask))"

definition serial_ok :: "tasks \<Rightarrow> bool" where
  "serial_ok s \<longleftrightarrow> length (fifo s) = 256 \<and>
     (\<forall>t u b c. prep (pcs s t) = Some b \<and> prep (pcs s u) = Some c \<longrightarrow> t = u) \<and>
     (\<forall>t b. prep (pcs s t) = Some b \<longrightarrow> length b \<le> 255 \<and> ring_read 0 (length b) (fifo s) = b \<and>
        asked s = on_air s @ [b] \<and> (\<forall>f. mode s \<noteq> ChipTx f) \<and> (pcs s t \<noteq> Written b \<longrightarrow> fifo_len s = length b)) \<and>
     (\<forall>f. mode s = ChipTx f \<longrightarrow> asked s = on_air s @ [f]) \<and>
     (\<not> sending s \<longrightarrow> asked s = on_air s)"

text \<open>A step of a task that leaves the ring, the mode and what was asked for alone and does not begin
  or end a preparation.\<close>

lemma serial_ok_same:
  assumes "serial_ok s" "\<And>t. prep (pcs s' t) = prep (pcs s t)" "fifo s' = fifo s" "asked s' = asked s" "on_air s' = on_air s"
    and "mode s' = mode s" "\<And>t b. prep (pcs s t) = Some b \<Longrightarrow> pcs s' t \<noteq> Written b \<Longrightarrow> fifo_len s' = length b"
  shows "serial_ok s'"
  using assms(1,7) unfolding serial_ok_def sending_def assms(2-6) by blast

lemma prep_outside [simp]: "prep (outside t) = None"
  by (cases t) simp_all

lemma serial_ok_idle:
  assumes "serial_ok s" "\<And>t. pcs s' t = pcs s t \<or> prep (pcs s t) = None \<and> prep (pcs s' t) = None"
    and "fifo s' = fifo s" "asked s' = asked s" "on_air s' = on_air s" "mode s' = mode s" "fifo_len s' = fifo_len s"
  shows "serial_ok s'"
proof (rule serial_ok_same [OF assms(1)])
  show "prep (pcs s' t) = prep (pcs s t)" for t using assms(2) [of t] by auto
  show "fifo_len s' = length b" if "prep (pcs s t) = Some b" "pcs s' t \<noteq> Written b" for t b
  proof -
    have "pcs s' t = pcs s t" using assms(2) [of t] that(1) by auto
    with assms(1,7) that show ?thesis by (simp add: serial_ok_def)
  qed
qed (use assms(3-6) in simp_all)

lemma not_sendingD: "\<not> sending s \<Longrightarrow> prep (pcs s t) = None" "\<not> sending s \<Longrightarrow> mode s \<noteq> ChipTx f"
  by (auto simp: sending_def)

text \<open>Nobody prepares and nothing is sent: the ring, the length and the mode (but for sending) are free.\<close>

lemma serial_ok_free:
  assumes "serial_ok s" "\<not> sending s" "\<And>t. prep (pcs s' t) = None" "\<And>f. mode s' \<noteq> ChipTx f"
    and "length (fifo s') = 256" "asked s' = asked s" "on_air s' = on_air s"
  shows "serial_ok s'"
proof -
  have "asked s = on_air s" using assms(1,2) by (simp add: serial_ok_def)
  with assms(3-7) show ?thesis by (simp add: serial_ok_def)
qed

lemma serial_ok_send:
  assumes "serial_ok s" "send_begin t buf s = Some s'" "sending s \<longrightarrow> asked s' = asked s"
  shows "serial_ok s'"
proof -
  have n: "\<not> sending s" using assms(2,3) by (auto simp: send_begin_def split: if_splits)
  have "length (fifo s) = 256" "asked s = on_air s" using assms(1) n by (simp_all add: serial_ok_def)
  with assms(2) not_sendingD [OF n] show ?thesis
    by (auto simp: send_begin_def serial_ok_def sending_def ring_read_write split: if_splits)
qed

lemma serial_ok_go:
  assumes "serial_ok s" "send_next t s = Some s'"
  shows "serial_ok s'"
proof -
  have one: "prep (pcs s t) = Some b \<Longrightarrow> prep (pcs s u) = Some c \<Longrightarrow> u = t" for u b c
    using assms(1) unfolding serial_ok_def by blast
  have ready: "prep (pcs s t) = Some b \<Longrightarrow> ring_read 0 (length b) (fifo s) = b \<and> asked s = on_air s @ [b] \<and>
      (pcs s t \<noteq> Written b \<longrightarrow> fifo_len s = length b)" for b
    using assms(1) unfolding serial_ok_def by blast
  show ?thesis
  proof (cases "pcs s t")
    case (Written buf)
    then have "s' = goto t (ParamsSet buf) s\<lparr>fifo_len := length buf\<rparr>" using assms(2) by (simp add: send_next_def)
    with one [of buf] Written show ?thesis by (intro serial_ok_same [OF assms(1)]) auto
  next
    case (ParamsSet buf)
    then have "s' = goto t (SemCleared buf) s\<lparr>sem := False\<rparr>" using assms(2) by (simp add: send_next_def)
    with one [of buf] ready [of buf] ParamsSet show ?thesis by (intro serial_ok_same [OF assms(1)]) auto
  next
    case (SemCleared buf)
    then have s': "s' = goto t (Waiting buf) s\<lparr>mode := ChipTx (ring_read 0 (fifo_len s) (fifo s))\<rparr>"
      using assms(2) by (simp add: send_next_def)
    have "ring_read 0 (fifo_len s) (fifo s) = buf" "asked s = on_air s @ [buf]" using ready [of buf] SemCleared by auto
    moreover have "prep (pcs s' u) = None" for u
      using one [of buf u] SemCleared by (cases "prep (pcs s u)") (auto simp: s')
    ultimately show ?thesis using assms(1) by (simp add: serial_ok_def sending_def s')
  next
    case (Waiting buf)
    then have "s' = goto t (outside t) s\<lparr>sem := False, results := results s @ [(t, buf, ESP_OK)]\<rparr> \<or>
        s' = goto t (outside t) s\<lparr>results := results s @ [(t, buf, ESP_ERR_TIMEOUT)]\<rparr>"
      using assms(2) by (auto simp: send_next_def split: if_splits)
    with Waiting show ?thesis by (intro serial_ok_idle [OF assms(1)]) (auto split: if_splits)
  qed (use assms(2) in \<open>simp_all add: send_next_def\<close>)
qed

lemma serial_ok_irq:
  assumes "serial_ok s" "irq_next s = Some s'" "sending s \<longrightarrow> rearming (pcs s IrqTask) \<longrightarrow> pcs s' IrqTask = pcs s IrqTask"
  shows "serial_ok s'"
proof (cases "rearming (pcs s IrqTask)")
  case True
  have n: "\<not> sending s"
  proof
    assume "sending s"
    with assms(3) True have "pcs s' IrqTask = pcs s IrqTask" by simp
    with assms(2) True show False by (cases "pcs s IrqTask") (auto simp: irq_next_def)
  qed
  have p: "prep (pcs s t) = None" for t by (rule not_sendingD(1) [OF n])
  have "asked s' = asked s" "on_air s' = on_air s" "fifo s' = fifo s" "mode s' = mode s \<or> mode s' = ChipRx"
    "prep (pcs s' t) = None" for t
    using assms(2) True p by (cases "pcs s IrqTask"; auto simp: irq_next_def)+
  with assms(1) not_sendingD(2) [OF n] show ?thesis by (intro serial_ok_free [OF assms(1) n]) (auto simp: serial_ok_def)
next
  case False
  have "asked s' = asked s" "on_air s' = on_air s" "fifo s' = fifo s" "mode s' = mode s" "fifo_len s' = fifo_len s"
    "pcs s' t = pcs s t \<or> prep (pcs s t) = None \<and> prep (pcs s' t) = None" for t
    using assms(2) False by (cases "pcs s IrqTask"; auto simp: irq_next_def split: if_splits)+
  then show ?thesis by (intro serial_ok_idle [OF assms(1)]) auto
qed

lemma serial_ok_step:
  assumes "serial_step s s'" "serial_ok s"
  shows "serial_ok s'"
proof -
  from assms(1) obtain l where l: "do_step l s = Some s'" and
    quiet: "sending s \<Longrightarrow> asked s' = asked s \<and> heard s' = heard s \<and>
      (rearming (pcs s IrqTask) \<longrightarrow> pcs s' IrqTask = pcs s IrqTask)"
    by (auto simp: serial_step_def task_step_def)
  show ?thesis
  proof (cases l)
    case (Send t buf)
    with l quiet show ?thesis by (intro serial_ok_send [OF assms(2)]) auto
  next
    case (Go t)
    with l show ?thesis by (intro serial_ok_go [OF assms(2)]) auto
  next
    case Irq
    with l quiet show ?thesis by (intro serial_ok_irq [OF assms(2)]) auto
  next
    case TxDone
    then obtain f where f: "mode s = ChipTx f" and s': "s' = s\<lparr>irq_tx := True, mode := ChipStandby, on_air := on_air s @ [f],
        notified := (notified s \<or> \<not> dio1_high s)\<rparr>"
      using l by (auto simp: tx_done_def split: radio_mode.splits)
    have "prep (pcs s t) = None" for t
      using assms(2) f by (cases "prep (pcs s t)") (auto simp: serial_ok_def)
    with assms(2) f show ?thesis by (simp add: serial_ok_def sending_def s')
  next
    case (RxDone off pkt crc)
    then have n: "\<not> sending s" using l quiet by (auto simp: rx_done_def split: if_splits)
    from RxDone l assms(2) not_sendingD [OF n] show ?thesis
      by (intro serial_ok_free [OF assms(2) n]) (auto simp: rx_done_def serial_ok_def split: if_splits)
  qed
qed

lemma serial_ok_init: "serial_ok tasks_init"
  by (simp add: serial_ok_def sending_def tasks_init_def)

lemma serial_ok_steps: "serial_step\<^sup>*\<^sup>* tasks_init s \<Longrightarrow> serial_ok s"
  by (induction rule: rtranclp_induct) (auto intro: serial_ok_init serial_ok_step)

section \<open>Properties\<close>

text \<open>Property C36: a transmission started from the receive callback (every relayed packet and every
  key answer) never reports success. The only task that gives the TxDone semaphore is the one
  that is waiting for it, so in every reachable state such a call can only end in
  \<open>ESP_ERR_TIMEOUT\<close>, and while it waits no other task's transmission can succeed either.\<close>
theorem relay_send_never_acknowledged:
  assumes "task_reach s"
  shows "(IrqTask, buf, ESP_OK) \<notin> set (results s) \<and>
    (pcs s IrqTask = Waiting buf' \<longrightarrow>
      (\<forall>s'. task_step s s' \<longrightarrow> (\<forall>t b. results s' \<noteq> results s @ [(t, b, ESP_OK)])))"
proof (intro conjI impI allI)
  from reach_irq_self_wait [OF assms] show "(IrqTask, buf, ESP_OK) \<notin> set (results s)"
    by (simp add: irq_self_wait_def)
next
  fix s' t b
  assume w: "pcs s IrqTask = Waiting buf'" and st: "task_step s s'"
  from reach_irq_self_wait [OF assms] w have "\<not> sem s" by (auto simp: irq_self_wait_def)
  moreover obtain l where "do_step l s = Some s'" using st by (auto simp: task_step_def)
  ultimately show "results s' \<noteq> results s @ [(t, b, ESP_OK)]"
    by (cases l) (auto simp: step_defs split: pc.splits radio_mode.splits if_splits)
qed

theorem relay_send_never_acknowledged_witness:
  "\<exists>s. task_reach s \<and> pcs s IrqTask = Waiting [1, 2] \<and> irq_tx s \<and> \<not> sem s \<and> on_air s = [[1, 2]] \<and>
     (\<forall>s'. task_step s s' \<longrightarrow> (\<forall>t b. results s' \<noteq> results s @ [(t, b, ESP_OK)]))"
proof -
  obtain s where s: "task_reach s" "pcs s IrqTask = Waiting [1, 2]" "irq_tx s" "\<not> sem s" "on_air s = [[1, 2]]"
    using ex_relay_run by blast
  from relay_send_never_acknowledged [OF s(1), of _ "[1, 2]"] s show ?thesis by blast
qed

text \<open>Property C37: an interrupt can be lost for good. There is a reachable state (a transmission ends
  between the read of the interrupt status and its acknowledgement) from which, whatever
  happens later, the DIO1 line stays high, no edge ever notifies the interrupt task again, and it
  stays blocked: no packet is handed on and no transmission is acknowledged any more.\<close>
theorem irq_edge_lost:
  "\<exists>s. task_reach s \<and> results s = [(AppTask 0, [1], ESP_ERR_TIMEOUT)] \<and> on_air s = [[1]] \<and>
     (\<forall>s'. task_step\<^sup>*\<^sup>* s s' \<longrightarrow> pcs s' IrqTask = Idle \<and> \<not> notified s' \<and> dio1_high s' \<and> \<not> sem s')"
proof -
  obtain s where s: "task_reach s" "irq_stuck s" "results s = [(AppTask 0, [1], ESP_ERR_TIMEOUT)]" "on_air s = [[1]]"
    using ex_lost_edge_run by blast
  have "irq_stuck s'" if "task_step\<^sup>*\<^sup>* s s'" for s'
    by (rule steps_invariant [of irq_stuck, OF irq_stuck_step that s(2)])
  with s show ?thesis unfolding irq_stuck_def by blast
qed

theorem irq_edge_lost_witness:
  "\<exists>s. task_reach s \<and> pcs s IrqTask = Idle \<and> \<not> notified s \<and> dio1_high s"
  using irq_edge_lost by blast

text \<open>Property C38: what isolation the driver needs, and that it lacks it. If, from the
  \<open>WRITE_BUFFER\<close> of a transmission until it is on air, no other task begins one, no packet is received
  and the interrupt task does not put the chip back into reception, then under every interleaving
  of any number of tasks the frames on air are exactly the buffers that were asked for, in order,
  up to one that is still under way; and a transmission can end in success. Nothing in the driver
  enforces this. With two tasks in \<open>sx1262_send\<close> at once, a frame that neither asked to send goes on
  air (the bytes of one with the length of the other). With a single sender, a packet received
  between the commands replaces the bytes that go on air; and with a single sender and nothing
  received at all, a transmission that begins as soon as the one before it is reported goes on air
  with 255 bytes, because the interrupt task, having given the semaphore, only then resets the
  packet length for reception.\<close>
theorem send_isolation:
  assumes "serial_step\<^sup>*\<^sup>* tasks_init s"
  shows "(asked s = on_air s \<or>
      (\<exists>f. asked s = on_air s @ [f] \<and> ((\<exists>t. prep (pcs s t) = Some f) \<or> mode s = ChipTx f))) \<and>
    (\<exists>s. task_reach s \<and> asked s = [[1, 2, 3]] \<and> on_air s = [[1, 2, 3]] \<and> results s = [(AppTask 0, [1, 2, 3], ESP_OK)]) \<and>
    (\<exists>s. task_reach s \<and> asked s = [[1, 2, 3], [9]] \<and> on_air s = [[9, 2, 3]]) \<and>
    (\<exists>s. task_reach s \<and> asked s = [[1, 2, 3]] \<and> on_air s = [[7, 7, 3]]) \<and>
    (\<exists>s f. task_reach s \<and> asked s = [[1, 2, 3], [4]] \<and> on_air s = [[1, 2, 3], f] \<and> length f = 255 \<and> heard s = [])"
proof (intro conjI)
  from serial_ok_steps [OF assms]
  show "asked s = on_air s \<or>
      (\<exists>f. asked s = on_air s @ [f] \<and> ((\<exists>t. prep (pcs s t) = Some f) \<or> mode s = ChipTx f))"
    unfolding serial_ok_def sending_def by blast
qed (fact ex_acknowledged_run ex_mixed_run ex_overwritten_run ex_padded_run)+

theorem send_isolation_witness:
  "\<exists>s. serial_step\<^sup>*\<^sup>* tasks_init s \<and> prep (pcs s (AppTask 0)) = Some [5] \<and> asked s = on_air s @ [[5]]"
proof -
  obtain s where s: "do_step (Send (AppTask 0) [5]) tasks_init = Some s" "prep (pcs s (AppTask 0)) = Some [5]"
      "\<And>t. t \<noteq> AppTask 0 \<Longrightarrow> prep (pcs s t) = None" "asked s \<noteq> on_air s" "mode s = ChipRx"
    by (simp add: run_defs)
  have "\<not> sending tasks_init" by (simp add: sending_def tasks_init_def)
  with s(1) have r: "serial_step\<^sup>*\<^sup>* tasks_init s"
    by (intro r_into_rtranclp) (simp add: serial_step_def do_step_task del: do_step.simps)
  from send_isolation [OF r] s(4,5) obtain t f where "asked s = on_air s @ [f]" "prep (pcs s t) = Some f" by auto
  with s(2,3) r show ?thesis by (cases "t = AppTask 0") auto
qed

end
