(* ===== verification/Spec2Isabelle.thy ===== *)
theory Spec2Isabelle
  imports ProviderHeap HostLock Delivery Typing BleTasks DedupTasks RadioTasks
begin

text \<open>
  PabianiceMeshOS: the firmware of a LoRa mesh node that carries end-to-end encrypted messages
  between phones. This library models the C sources of the node (\<open>firmware/components\<close>,
  \<open>firmware/main\<close>) and of the shim that lets the crypto layer run on a desktop
  (\<open>client/desktop/csrc/host_shim\<close>), and proves what makes them correct. Paths below are under
  the repository's root.

  The program. A phone writes an ID and a message over Bluetooth (\<open>ble_bridge.c\<close>). The node
  encrypts it with libsignal (\<open>pcrypto.c\<close>; its callbacks to the key-value store are \<open>store.c\<close>,
  its primitives \<open>provider.c\<close>), puts it in a frame (\<open>pkt.c\<close>) and hands it to the radio
  (\<open>sx1262.c\<close>). A node that hears a frame (\<open>mesh.c\<close>, \<open>on_radio_rx\<close>) applies the rate limit of the
  sender, notes its presence (\<open>presence.c\<close>), handles beacons and key exchanges itself, drops what it
  has seen before (\<open>dedup.c\<close>), delivers what is for it, and repeats everything else with one hop less.
  What is delivered goes to the subscribed phones. \<open>main.c\<close> starts the parts and polls the beacon.

  How the code is modelled. The static variables of a C file are a record; a function that
  changes them takes the record and returns it updated; an error code is a value of \<open>esp_err\<close>, a
  result that may be an error is a sum, a C function that may not return has an option as its
  result (\<open>None\<close>: it does not). Bytes, 16- and 32-bit integers are words; C arrays are lists of
  their fixed length, and a write outside one loses it (\<open>c_store\<close>), so that what is proved of its
  size also says that there is no such write. What is not in the repository is a parameter: the streams of timer values and
  random bytes (\<open>Platform\<close>), what the radio chip answers and when BUSY falls (\<open>Sx1262\<close>), libsignal
  as a record of programs that may call the store callbacks in any order (\<open>PCrypto\<close>), the primitives
  of mbedTLS (\<open>Provider\<close>), the allocator (\<open>heap\<close> in \<open>Store\<close>), NimBLE and the ESP-IDF drivers as
  logs of calls with answers (\<open>BleBridge\<close>, \<open>Board\<close>), the flash partition (\<open>App\<close>). Where a theorem needs
  documented behaviour of one of these, it is a named hypothesis (\<open>aes_documented\<close>,
  \<open>digest_documented\<close>, \<open>key_helper_documented\<close>, \<open>session_documented\<close>, \<open>to_flat_documented\<close>, \<open>heap_ok\<close>, \<open>fs_healthy\<close>), and a
  witness shows an instance.

  The theories, from the bottom:
  \<^item> \<open>Prelude\<close>: types, error codes, little-endian words. \<open>CFormat\<close>: \<open>snprintf\<close> and the conversions
    that build keys and paths. \<open>Platform\<close>: timer and random generator.
  \<^item> Interfaces, as locales with their client lemmas: \<open>SeenWindow\<close> (a first-in first-out memory of
    message IDs), \<open>SlotTable\<close> (a table that evicts its oldest entry), \<open>BlobStore\<close> (a key-value store,
    and a store of records under keys of one kind), \<open>BoundedSet\<close> (a set with a fixed number of places).
    Each is interpreted on the model of the code: \<open>Dedup\<close>, \<open>Presence\<close> and \<open>RateLimit\<close>, \<open>HostShim\<close> and
    \<open>Store\<close>, \<open>Phones\<close>. \<open>Schedules\<close>: tasks that share variables, as schedules of statements, and what
    it takes to be an invariant of them; interpreted in \<open>DedupTasks\<close> and \<open>BleTasks\<close>.
  \<^item> \<open>Pkt\<close> (\<open>pkt.c\<close>): the frame; encoder and decoder are inverse, the decoder never reads beyond the
    input, the encoder never writes beyond the buffer.
  \<^item> \<open>Dedup\<close> (\<open>dedup.c\<close>), \<open>RateLimit\<close> (\<open>rate_limited\<close> of \<open>mesh.c\<close>), \<open>Presence\<close> (\<open>presence.c\<close>): the tables,
    their invariants and their refinement of abstract windows and maps. \<open>DedupTasks\<close>: the duplicate
    filter as the tasks that call it without a lock see it.
  \<^item> \<open>Sx1262\<close> (\<open>sx1262.c\<close>): the commands to the chip, the interrupt handler, sending; \<open>ChipRing\<close>: the
    data buffer of the chip; \<open>RadioTasks\<close>: the
    interrupt task and the sending tasks as interleaved steps, one command to the chip or call of the
    scheduler each: sends that nothing interferes with put on air what was asked, and the
    behaviours of the interleaving that the code does not intend (a send from the receive callback is never
    acknowledged, an interrupt is lost for good, frames are mixed, overwritten or padded to 255
    bytes, a received packet is garbled). \<open>Sx1262Chip\<close>: the chip that the data sheet
    documents, as the specification of the SPI commands: what the node's commands put on air, and
    that a buffer sent by one driver comes out of the interrupt handler of another.
  \<^item> \<open>HostShim\<close> and \<open>HostLock\<close> (\<open>shim.c\<close>): the key-value store on a file system of directories and files
    with its paths, and the recursive semaphore on a POSIX mutex with
    mutual exclusion of threads in libsignal.
  \<^item> \<open>Store\<close> (\<open>store.c\<close>): every callback of libsignal; sessions (under the folds of
    node IDs) and prekeys are maps, keys of different records never coincide. \<open>Provider\<close> (\<open>provider.c\<close>): ciphers,
    padding and digests. \<open>ProviderHeap\<close>: the digest callbacks on allocated contexts, called through
    the table that \<open>crypto_provider_fill\<close> fills.
  \<^item> \<open>PCrypto\<close> (\<open>pcrypto.c\<close>): identity, prekeys, bundles, sessions. \<open>Sessions\<close>: what any run of libsignal
    can and cannot touch, trust on first use, and that the prekey numbers of a batch are fresh. \<open>Bundles\<close>: the
    bundle format, making and processing a bundle, the first start and what an interrupted one leaves,
    the prekey numbers of a node's whole life, message framing.
  \<^item> \<open>Mesh\<close> (\<open>mesh.c\<close>): the whole node. \<open>Routing\<close>: its invariant, relaying, dropping, the key exchange,
    sending, beacons. \<open>FloodNet\<close>: over sequences of events no message is relayed twice,
    what relayed copies do to the sender's rate limit, and that in a network of nodes every flood ends.
    \<open>Typing\<close>: the sizes of all arrays of a node, which C's types fix and every operation keeps, and
    the sizes of the transactions on the SPI bus.
  \<^item> \<open>BleBridge\<close> (\<open>ble_bridge.c\<close>) and \<open>Phones\<close>: the bridge and what it does for phones.
    \<open>BleTasks\<close>: the subscriber array shared by the Bluetooth task and the interrupt task. \<open>Board\<close>
    (\<open>board.c\<close>), \<open>App\<close> (\<open>main.c\<close>): the device, its start and its loop. \<open>Delivery\<close>: chains of relays, and the
    lemmas that join the parts.
  \<^item> This theory: the properties that span all components: from phone to phone, the set-up of
    a session between two nodes, and the first message after it.

  Termination, bounds and fuel. No function has fuel. The search for an unused prekey is a partial
  function with an option, since its C loop does not end when the prekey counter is zero;
  \<open>local_bundle_returns\<close> proves that it returns on a healthy file system while the counter is neither
  0 nor about to leave the 24 bits of prekey numbers. The wait for BUSY is a function with a
  termination proof. The flood of a network is bounded by a number computed from hop counts and
  the number of nodes (\<open>flood_terminates\<close>); the network itself (who hears what, in which order, or not
  at all) is a step relation, as the air is no code. The microsecond timer is an unbounded integer
  (its 64 bits last for 290,000 years); the conversion to the 32-bit seconds of a header wraps.

  Abstractions. Calls of the receive callback are recorded in \<open>delivered\<close> and passed to the bridge
  when reception returns; the callback only reads its arguments and changes the bridge, which
  reception does not read, so the order against the relay that follows makes no difference to either. A node
  handles one call at a time; interleavings are modelled where tasks share state without a lock: the radio driver
  (\<open>RadioTasks\<close>, one command or scheduler call per step), the duplicate filter (\<open>DedupTasks\<close>) and the
  subscriber array (\<open>BleTasks\<close>), one statement per step; a memory copy or comparison is one step. The rate and presence tables are used by the
  interrupt task alone. The
  result of \<open>sx1262_send\<close> (whether TxDone came in time) is a stream in the node model. The node and the
  desktop share the key-value model of the host shim; on the node the store is the flash library of
  ESP-IDF, with the same interface. The peer that the test loop of \<open>main.c\<close> sends to is an argument.

  Not modelled: log output; delays; freeing of memory other than the digest contexts; the
  event loop of NimBLE (\<open>ble_host_task\<close>) and its reset callback, which only logs; pairing, which the
  stack does; the servers, the desktop client around the shim and the web client, which are programs in
  other languages; libsignal, mbedTLS, NimBLE and ESP-IDF themselves.
\<close>

section \<open>From phone to phone\<close>

text \<open>Property C1: a message from a phone to a phone. A phone writes an ID and a message to its node,
  which has a session with that ID. The phone is told that this worked, and exactly one frame goes on
  air: a data frame from the node to the ID, with the ciphertext as its payload. Let this frame
  pass through any chain of at most seven nodes that each take part (their invariant holds, they
  are not the sender, they have not seen the message and the sender is within their rate limit), and
  let what comes out reach the node with that ID, whose callback is set and whose crypto layer
  decrypts the ciphertext from this sender to the message. Then that node delivers the message
  once, with the sender's ID, and when its stack has buffers every subscribed phone is notified of
  the sender's ID followed by the message.\<close>
theorem phone_to_phone:
  assumes "to_flat_documented stA" and "node_ok (mesh_node a)" and "length dst = 8" and "pt \<noteq> []" and "length pt \<le> 200"
    and "pcrypto_has_session libA hA dst (cry (mesh_node a)) = (True, c)"
    and "pcrypto_encrypt libA hA dst pt 200 c = (Inr ct, c')"
    and "device_write stA libA hA (dst @ pt) a = (r, a')"
  shows "r = ATT_OK \<and> (\<exists>f hdr. sent_frames (mesh_node a) (mesh_node a') = [f] \<and>
    pkt_decode f = Some (hdr, ct @ replicate 16 0) \<and> pkt_type hdr = PKT_TYPE_DATA \<and> ttl hdr = 8 \<and>
    src_id hdr = s_local_id (mesh_node a) \<and> dst_id hdr = dst \<and>
    (length ns \<le> 7 \<and> (\<forall>n \<in> set ns. accepts hdr n) \<and> accepts hdr (mesh_node b) \<and>
     s_local_id (mesh_node b) = dst \<and> s_rx_cb (mesh_node b) \<and>
     fst (pcrypto_decrypt libB hB (src_id hdr) ct 200 (cry (after_presence hdr (after_limiter hdr (mesh_node b))))) = Inr pt \<longrightarrow>
     (\<exists>g b'. relay_path libR hR ns f = Some g \<and> device_rx stB libB hB g b = Some b' \<and>
        delivered (mesh_node b') = delivered (mesh_node b) @ [(pt, s_local_id (mesh_node a))] \<and>
        ((\<forall>log. answer stB log (MbufFromFlat (s_local_id (mesh_node a) @ pt)) = 0) \<longrightarrow>
          (\<forall>conn \<in> set (subscribers (bridge b)).
             NotifyCustom conn (s_tx_val_handle (bridge b)) (s_local_id (mesh_node a) @ pt) \<in> set (ble_log (bridge b')))))))"
proof -
  let ?n = "mesh_node a"
  have l: "length dst = PKT_NODE_ID_LEN" "length pt \<le> PKT_MAX_PAYLOAD"
    using assms(3,5) by (simp_all add: PKT_NODE_ID_LEN_def PKT_MAX_PAYLOAD_def)
  have "device_write stA libA hA (dst @ pt) a = (ATT_OK, a\<lparr>mesh_node := snd (mesh_send libA hA dst pt ?n)\<rparr>)"
    using assms(1,3-5) by (simp add: device_write_def gatt_svr_chr_access_def to_flat_documented_def PKT_NODE_ID_LEN_def
      PKT_MAX_PAYLOAD_def case_prod_beta Let_def)
  then have r: "r = ATT_OK" "mesh_node a' = snd (mesh_send libA hA dst pt ?n)" using assms(8) by auto
  obtain f hdr where f: "sent_frames ?n (snd (mesh_send libA hA dst pt ?n)) = [f]" "length f \<le> 255"
    "pkt_decode f = Some (hdr, ct @ replicate PKT_SIG_LEN 0)" "pkt_type hdr = PKT_TYPE_DATA" "ttl hdr = PKT_TTL_DEFAULT"
    "src_id hdr = s_local_id ?n" "dst_id hdr = dst" "unat (payload_len hdr) = length ct"
    by (rule data_sent [OF assms(2) l assms(6), of ct c']) (use assms(7) in \<open>simp_all add: PKT_MAX_PAYLOAD_def\<close>)
  have sl: "sig_len (pkt_type hdr) = PKT_SIG_LEN" by (simp add: f(4) sig_len_def)
  have ty: "pkt_type hdr \<noteq> PKT_TYPE_BEACON" "pkt_type hdr \<noteq> PKT_TYPE_KEY_BUNDLE" by (simp_all add: f(4) pkt_consts)
  have "\<exists>g b'. relay_path libR hR ns f = Some g \<and> device_rx stB libB hB g b = Some b' \<and>
        delivered (mesh_node b') = delivered (mesh_node b) @ [(pt, s_local_id ?n)] \<and>
        bridge b' = ble_bridge_on_mesh_rx stB pt (s_local_id ?n) (bridge b)"
    if t: "length ns \<le> 7" "\<forall>n \<in> set ns. accepts hdr n" "accepts hdr (mesh_node b)" "s_local_id (mesh_node b) = dst"
      "s_rx_cb (mesh_node b)"
      "fst (pcrypto_decrypt libB hB (src_id hdr) ct 200 (cry (after_presence hdr (after_limiter hdr (mesh_node b))))) = Inr pt"
  proof -
    obtain cB where "pcrypto_decrypt libB hB (src_id hdr) ct 200 (cry (after_presence hdr (after_limiter hdr (mesh_node b)))) = (Inr pt, cB)"
      using t(6) by (metis prod.collapse)
    note that = t(1-5) this
    have "length ns < unat (ttl hdr)" using that(1) by (simp add: f(5) PKT_TTL_DEFAULT_def)
    from relay_path_frame [OF that(2) f(2) this _ _ ty, of ct libR hR] f(3,8) obtain g where
      g: "relay_path libR hR ns f = Some g" "length g \<le> 255"
      "pkt_decode g = Some (hdr\<lparr>ttl := ttl hdr - of_nat (length ns)\<rparr>, ct @ replicate PKT_SIG_LEN 0)"
      by (auto simp: sl)
    have "\<exists>b'. device_rx stB libB hB g b = Some b' \<and>
        delivered (mesh_node b') = delivered (mesh_node b) @ [(pt, src_id (hdr\<lparr>ttl := ttl hdr - of_nat (length ns)\<rparr>))] \<and>
        bridge b' = ble_bridge_on_mesh_rx stB pt (src_id (hdr\<lparr>ttl := ttl hdr - of_nat (length ns)\<rparr>)) (bridge b)"
      by (rule device_rx_delivers [OF _ g(3,2), where c = cB]) (use that f in \<open>simp_all add: PKT_MAX_PAYLOAD_def\<close>)
    with g(1) show ?thesis by (simp add: f(6))
  qed
  then show ?thesis
    using r f push_reaches_all [OF l(2)] by (intro conjI exI [of _ f] exI [of _ hdr]) (auto simp: PKT_TTL_DEFAULT_def PKT_SIG_LEN_def)
qed

theorem phone_to_phone_witness:
  "\<exists>f g b'. sent_frames (mesh_node ex_sender)
       (mesh_node (snd (device_write toy_nimble toy_signal ample (replicate 8 3 @ [65]) ex_sender))) = [f] \<and>
     relay_path toy_signal ample [ex_middle] f = Some g \<and> device_rx toy_nimble toy_signal ample g ex_receiver = Some b' \<and>
     delivered (mesh_node b') = [([65], replicate 8 2)] \<and> NotifyCustom 1 7 (replicate 8 2 @ [65]) \<in> set (ble_log (bridge b'))"
proof -
  obtain r a' where w: "device_write toy_nimble toy_signal ample (replicate 8 3 @ [65]) ex_sender = (r, a')" by fastforce
  have l: "length (replicate 8 (3 :: byte)) = 8" "[65 :: byte] \<noteq> []" "length [65 :: byte] \<le> 200" by simp_all
  have ids: "s_local_id (mesh_node ex_sender) = replicate 8 2" "s_local_id (mesh_node ex_receiver) = replicate 8 3"
    "s_rx_cb (mesh_node ex_receiver)" "delivered (mesh_node ex_receiver) = []" "subscribers (bridge ex_receiver) = [1]"
    "s_tx_val_handle (bridge ex_receiver) = 7" "answer toy_nimble log x = 0" for log x
    by (simp_all add: ex_sender_def ex_receiver_def toy_nimble_def) (simp add: toy_ble_def)
  from phone_to_phone [OF toy_nimble_documented ex_nodes_ok(1) l ex_sender_session w, of "[ex_middle]" ex_receiver
      toy_signal ample toy_signal ample toy_nimble] show ?thesis
    by (auto simp: ids w ex_accepts ex_decrypts)
qed

text \<open>Property C9: two nodes without a session set one up. A message to a node without a session is
  refused with \<open>ESP_ERR_NOT_FOUND\<close>, and a key request for that node goes on air instead. When that
  node receives it (within its rate limit, its invariant holding) and its crypto layer has a bundle to
  give, it answers with one frame; and when the first node receives the answer, its crypto layer is
  handed exactly the bundle of the other node, as coming from that node, to build the session from.\<close>
theorem key_handshake:
  assumes "node_ok a" and "length dst = PKT_NODE_ID_LEN" and "length pt \<le> PKT_MAX_PAYLOAD"
    and "pcrypto_has_session libA hA dst (cry a) = (False, c)" and "dst \<noteq> s_local_id a"
  shows "fst (mesh_send libA hA dst pt a) = ESP_ERR_NOT_FOUND \<and>
    (\<exists>f hdr. sent_frames a (snd (mesh_send libA hA dst pt a)) = [f] \<and> pkt_decode f = Some (hdr, [KEY_BUNDLE_REQUEST]) \<and>
      (node_ok b \<and> s_local_id b = dst \<and> \<not> limited_now hdr b \<and>
       (\<exists>cB. pcrypto_local_bundle libB hB (cry (after_presence hdr (after_limiter hdr b))) = Some (Inr bundle, cB)) \<longrightarrow>
       (\<exists>b' g hdr'. on_radio_rx libB hB f b = Some b' \<and> sent_frames b b' = [g] \<and>
          pkt_decode g = Some (hdr', KEY_BUNDLE_RESPONSE # bundle) \<and>
          (s_local_id a2 = s_local_id a \<and> \<not> limited_now hdr' a2 \<longrightarrow>
           on_radio_rx libA hA g a2 =
             (let m = after_presence hdr' (after_limiter hdr' a2)
              in Some (m\<lparr>cry := snd (pcrypto_process_bundle libA hA dst bundle (cry m))\<rparr>))))))"
proof -
  obtain f hdr where f: "mesh_send libA hA dst pt a = (ESP_ERR_NOT_FOUND, snd (mesh_send libA hA dst pt a))"
    "sent_frames a (snd (mesh_send libA hA dst pt a)) = [f]"
    "pkt_decode f = Some (hdr, [KEY_BUNDLE_REQUEST])" "pkt_type hdr = PKT_TYPE_KEY_BUNDLE"
    "src_id hdr = s_local_id a" "dst_id hdr = dst" "payload_len hdr \<noteq> 0"
    by (rule request_sent [OF assms(1-4)])
  have e: "fst (mesh_send libA hA dst pt a) = ESP_ERR_NOT_FOUND" by (subst f(1)) simp
  have "\<exists>b' g hdr'. on_radio_rx libB hB f b = Some b' \<and> sent_frames b b' = [g] \<and>
      pkt_decode g = Some (hdr', KEY_BUNDLE_RESPONSE # bundle) \<and>
      (s_local_id a2 = s_local_id a \<and> \<not> limited_now hdr' a2 \<longrightarrow>
       on_radio_rx libA hA g a2 =
         (let m = after_presence hdr' (after_limiter hdr' a2)
          in Some (m\<lparr>cry := snd (pcrypto_process_bundle libA hA dst bundle (cry m))\<rparr>)))"
    if b: "node_ok b" "s_local_id b = dst" "\<not> limited_now hdr b"
      "\<exists>cB. pcrypto_local_bundle libB hB (cry (after_presence hdr (after_limiter hdr b))) = Some (Inr bundle, cB)"
  proof -
    obtain cB where c: "pcrypto_local_bundle libB hB (cry (after_presence hdr (after_limiter hdr b))) = Some (Inr bundle, cB)"
      using b(4) by blast
    have "dst_id hdr = s_local_id b" "src_id hdr \<noteq> s_local_id b" using f(5,6) b(2) assms(5) by simp_all
    from request_answered [OF b(1) f(3,4) this(1) f(7) this(2) b(3) c] obtain b' g hdr' where
      g: "on_radio_rx libB hB f b = Some b'" "sent_frames b b' = [g]"
      "pkt_decode g = Some (hdr', KEY_BUNDLE_RESPONSE # bundle)" "pkt_type hdr' = PKT_TYPE_KEY_BUNDLE"
      "src_id hdr' = dst" "dst_id hdr' = s_local_id a" "unat (payload_len hdr') = 1 + length bundle"
      unfolding b(2) f(5) by blast
    have "on_radio_rx libA hA g a2 =
        (let m = after_presence hdr' (after_limiter hdr' a2)
         in Some (m\<lparr>cry := snd (pcrypto_process_bundle libA hA dst bundle (cry m))\<rparr>))"
      if "s_local_id a2 = s_local_id a" "\<not> limited_now hdr' a2"
      using response_processed [OF g(3,4) _ _ g(7) that(2), of libA hA] g(5,6) that(1) assms(5) by simp
    with g show ?thesis by blast
  qed
  with e f(2,3) show ?thesis by blast
qed

theorem key_handshake_witness:
  "\<exists>f b' g hdr'. sent_frames toy_node (snd (mesh_send toy_signal ample (replicate 8 3) [65] toy_node)) = [f] \<and>
     on_radio_rx toy_signal ample f ex_peer = Some b' \<and> sent_frames ex_peer b' = [g] \<and>
     pkt_decode g = Some (hdr', [KEY_BUNDLE_RESPONSE, 9, 0, 0, 0, 1, 0, 0, 0, 2, 5, 1, 1, 0, 0, 0, 2, 6, 6, 1, 8, 2, 5, 2])"
proof -
  have l: "length (replicate 8 (3 :: byte)) = PKT_NODE_ID_LEN" "length [65 :: byte] \<le> PKT_MAX_PAYLOAD"
    "replicate 8 3 \<noteq> s_local_id toy_node" by (simp_all add: PKT_NODE_ID_LEN_def PKT_MAX_PAYLOAD_def)
  have has: "pcrypto_has_session toy_signal ample (replicate 8 3) (cry toy_node) = (False, toy_crypto)"
    by (simp add: pcrypto_has_session_def contains_healthy toy_signal_def)
  have "s_local_id ex_peer = replicate 8 3" "nvs (cry (after_presence hdr (after_limiter hdr ex_peer))) = ex_fs" for hdr
    by (simp_all add: ex_peer_def ex_crypto_def)
  with key_handshake [OF toy_node_ok l(1,2) has l(3), of ex_peer toy_signal ample
      "[9, 0, 0, 0, 1, 0, 0, 0, 2, 5, 1, 1, 0, 0, 0, 2, 6, 6, 1, 8, 2, 5, 2]" toy_node] show ?thesis
    by (auto simp: ex_accepts ex_bundle_from)
qed

text \<open>Property C10: the answer to a key request opens the session. A node on a working store takes in
  an answer from \<open>dst\<close> (within the rate limit) and sends nothing for it. If its crypto layer
  accepts the bundle, the next message to \<open>dst\<close> is no longer refused for lack of a session: one
  data frame with the ciphertext goes on air with the default hops. If the bundle is malformed,
  nothing has changed for the crypto layer, and without an earlier session the next message is
  refused again and asks for the keys again.\<close>
theorem session_established:
  assumes "session_documented lib" and "node_ok a" and "fs_healthy (nvs (cry a))" and "length pt \<le> PKT_MAX_PAYLOAD"
    and "pkt_decode g = Some (hdr, KEY_BUNDLE_RESPONSE # bundle)" and "pkt_type hdr = PKT_TYPE_KEY_BUNDLE"
    and "dst_id hdr = s_local_id a" and "src_id hdr = dst" and "dst \<noteq> s_local_id a"
    and "unat (payload_len hdr) = 1 + length bundle" and "\<not> limited_now hdr a"
    and "pcrypto_process_bundle lib h dst bundle (cry (after_presence hdr (after_limiter hdr a))) = (e, c)"
  shows "\<exists>a'. on_radio_rx lib h g a = Some a' \<and> sent_frames a a' = [] \<and> cry a' = c \<and>
    (e = ESP_OK \<and> pcrypto_encrypt lib h dst pt PKT_MAX_PAYLOAD c = (Inr ct, c') \<longrightarrow>
      (\<exists>f hdr'. sent_frames a' (snd (mesh_send lib h dst pt a')) = [f] \<and>
         pkt_decode f = Some (hdr', ct @ replicate PKT_SIG_LEN 0) \<and> pkt_type hdr' = PKT_TYPE_DATA \<and>
         ttl hdr' = PKT_TTL_DEFAULT \<and> src_id hdr' = s_local_id a \<and> dst_id hdr' = dst)) \<and>
    (parse_bundle bundle = None \<and> \<not> contains_session_func dst (nvs (cry a)) \<longrightarrow>
      e = ESP_ERR_INVALID_ARG \<and> fst (mesh_send lib h dst pt a') = ESP_ERR_NOT_FOUND \<and>
      (\<exists>f hdr'. sent_frames a' (snd (mesh_send lib h dst pt a')) = [f] \<and> pkt_decode f = Some (hdr', [KEY_BUNDLE_REQUEST]) \<and>
         dst_id hdr' = dst))"
proof -
  let ?m = "after_presence hdr (after_limiter hdr a)"
  let ?a = "?m\<lparr>cry := c\<rparr>"
  have rx: "on_radio_rx lib h g a = Some ?a"
    using response_processed [OF assms(5,6,7) _ assms(10,11), of lib h] assms(8,9,12) by simp
  have dst: "length dst = PKT_NODE_ID_LEN" using pkt_decode_wf(1) [OF assms(5)] assms(8) by (auto simp: wf_hdr_def)
  have ok: "node_ok ?a" using on_radio_rx_ok [OF assms(2) rx] .
  have nvs: "nvs (cry ?m) = nvs (cry a)" by simp
  have data: "\<exists>f hdr'. sent_frames ?a (snd (mesh_send lib h dst pt ?a)) = [f] \<and>
      pkt_decode f = Some (hdr', ct @ replicate PKT_SIG_LEN 0) \<and> pkt_type hdr' = PKT_TYPE_DATA \<and>
      ttl hdr' = PKT_TTL_DEFAULT \<and> src_id hdr' = s_local_id a \<and> dst_id hdr' = dst"
    if e: "e = ESP_OK" "pcrypto_encrypt lib h dst pt PKT_MAX_PAYLOAD c = (Inr ct, c')"
  proof -
    have "fs_healthy (nvs (cry ?m))" using assms(3) by simp
    from bundle_gives_session [OF assms(1) this] assms(12) e(1) have "pcrypto_has_session lib h dst c = (True, c)" by blast
    then have "pcrypto_has_session lib h dst (cry ?a) = (True, c)" by simp
    from data_sent [OF ok dst assms(4) this e(2)] obtain f hdr' where
      "sent_frames ?a (snd (mesh_send lib h dst pt ?a)) = [f]" "pkt_decode f = Some (hdr', ct @ replicate PKT_SIG_LEN 0)"
      "pkt_type hdr' = PKT_TYPE_DATA" "ttl hdr' = PKT_TTL_DEFAULT" "src_id hdr' = s_local_id ?a" "dst_id hdr' = dst" by metis
    then show ?thesis by (intro exI [of _ f] exI [of _ hdr']) simp
  qed
  have again: "e = ESP_ERR_INVALID_ARG \<and> fst (mesh_send lib h dst pt ?a) = ESP_ERR_NOT_FOUND \<and>
      (\<exists>f hdr'. sent_frames ?a (snd (mesh_send lib h dst pt ?a)) = [f] \<and> pkt_decode f = Some (hdr', [KEY_BUNDLE_REQUEST]) \<and>
         dst_id hdr' = dst)"
    if p: "parse_bundle bundle = None" "\<not> contains_session_func dst (nvs (cry a))"
  proof -
    from bundle_refused [OF assms(1) p(1)] assms(12) have c: "e = ESP_ERR_INVALID_ARG" "c = cry ?m" by simp_all
    have "pcrypto_has_session lib h dst (cry ?a) = (False, c)"
      using has_session_documented [OF assms(1), of h dst c] p(2) nvs by (simp add: c(2))
    from request_sent [OF ok dst assms(4) this] obtain f hdr' where
      r: "mesh_send lib h dst pt ?a = (ESP_ERR_NOT_FOUND, snd (mesh_send lib h dst pt ?a))"
      "sent_frames ?a (snd (mesh_send lib h dst pt ?a)) = [f]" "pkt_decode f = Some (hdr', [KEY_BUNDLE_REQUEST])"
      "dst_id hdr' = dst" by metis
    have "fst (mesh_send lib h dst pt ?a) = ESP_ERR_NOT_FOUND" by (subst r(1)) simp
    with r c(1) show ?thesis by blast
  qed
  have "sent_frames a ?a = []" by simp
  with rx data again show ?thesis by (intro exI [of _ ?a]) simp
qed

theorem session_established_witness:
  "\<exists>a' f hdr'. on_radio_rx toy_signal ample (hdr_bytes ex_answer_hdr @ KEY_BUNDLE_RESPONSE # ex_answer_bundle) toy_node = Some a' \<and>
     sent_frames a' (snd (mesh_send toy_signal ample (replicate 8 3) [65] a')) = [f] \<and>
     pkt_decode f = Some (hdr', [2, 20] @ replicate PKT_SIG_LEN 0)"
proof -
  have f: "pkt_type ex_answer_hdr = PKT_TYPE_KEY_BUNDLE" "dst_id ex_answer_hdr = s_local_id toy_node"
    "src_id ex_answer_hdr = replicate 8 3" "replicate 8 3 \<noteq> s_local_id toy_node" "length [65 :: byte] \<le> PKT_MAX_PAYLOAD"
    by (simp_all add: ex_answer_hdr_def ex_request_hdr_def PKT_MAX_PAYLOAD_def)
  have ok: "fs_healthy (nvs (cry toy_node))" by (simp add: toy_crypto_def)
  then have "fs_healthy (nvs (cry (after_presence ex_answer_hdr (after_limiter ex_answer_hdr toy_node))))" by simp
  from ex_answer_accepted [OF this] obtain c where
    c: "pcrypto_process_bundle toy_signal ample (replicate 8 3) ex_answer_bundle
      (cry (after_presence ex_answer_hdr (after_limiter ex_answer_hdr toy_node))) = (ESP_OK, c)"
    "pcrypto_encrypt toy_signal ample (replicate 8 3) [65] 200 c = (Inr [2, 20], c)" by blast
  from session_established [OF toy_session_documented toy_node_ok ok f(5) ex_answer_decodes(1) f(1-4) ex_answer_decodes(2)
      toy_not_limited c(1), of "[2, 20]" c] c(2) show ?thesis
    by (simp add: PKT_MAX_PAYLOAD_def) blast
qed

end
